(* ===== verification/Prelude.thy ===== *)
theory Prelude
  imports Main "HOL-Library.Word" "HOL-Library.AList" "HOL-Library.Char_ord"
    "HOL-Library.List_Lexorder" "HOL-Library.Multiset"
begin

unbundle bit_operations_syntax

text \<open>
  Shared vocabulary of the development: the machine integers of the Go sources, the
  error values and the panic, byte order, decoders as functions on the unread bytes,
  Go maps as association lists, and the generic lemmas on them that the component
  theories use. Everything here models the language and its standard library
  (\<open>encoding/binary\<close>, \<open>io\<close>, \<open>map\<close>, \<open>make\<close>), as far as the sources use them.
\<close>

section \<open>Types\<close>

type_synonym byte = "8 word"
type_synonym bytes = "byte list"
type_synonym int8 = "8 word"
type_synonym int16 = "16 word"
type_synonym int32 = "32 word"
type_synonym int64 = "64 word"
type_synonym uint32 = "32 word"

text \<open>
  Go's signed integers are words read by \<^const>\<open>sint\<close>: addition wraps, and every
  signed comparison of the sources is written \<open>sint a < sint b\<close>. Go's \<open>int\<close> holds
  list lengths and conversions of 32-bit values only and is the type \<^typ>\<open>int\<close> or
  \<^typ>\<open>nat\<close>. A Go string is a sequence of bytes: a \<^typ>\<open>string\<close>, whose characters
  are bytes. A pointer or slice that may be nil is an option.
\<close>

named_theorems codec_rt "round-trip equations of encoders and decoders"
named_theorems dec_simps "unfolding equations of the decoder combinators"
named_theorems inv_rules "operations preserve the invariant of their component"

datatype go_error =
    EOF
  | ErrUnexpectedEOF
  | ErrShortWrite
  | ErrIO
  | ErrVarintTooLong
  | ErrNegativeLength int16
  | ErrZeroLength
  | ErrTaggedFields uint32
  | ErrBatchHeader
  | ErrBatchMagic byte
  | ErrRecordType int8
  | ErrCorrelationID int32
  | ErrMalformedPeer
  | ErrPeersWithoutSelf
  | ErrHWTimedOut
  | ErrPingDropped
  | ErrUnexpected
  | Panic

section \<open>Byte order\<close>

text \<open>\<open>binary.BigEndian.PutUintN\<close> and \<open>UintN\<close>, for N = 8 * n bits.\<close>

fun be_put :: "nat \<Rightarrow> 'a::len word \<Rightarrow> bytes" where
  "be_put 0 w = []"
| "be_put (Suc n) w = ucast (drop_bit (8 * n) w) # be_put n w"

fun be_acc :: "'a::len word \<Rightarrow> bytes \<Rightarrow> 'a word" where
  "be_acc acc [] = acc"
| "be_acc acc (b # bs) = be_acc (push_bit 8 acc OR ucast b) bs"

definition be_get :: "bytes \<Rightarrow> 'a::len word" where
  "be_get bs = be_acc 0 bs"

lemma length_be_put [simp]: "length (be_put n w) = n"
  by (induction n) auto

lemma be_acc_put:
  "be_acc acc (be_put n w) = push_bit (8 * n) acc OR take_bit (8 * n) (w :: 'a::len word)"
proof (induction n arbitrary: acc)
  case 0
  then show ?case by simp
next
  case (Suc n)
  have "be_acc acc (be_put (Suc n) w)
      = push_bit (8 * n) (push_bit 8 acc OR ucast (ucast (drop_bit (8 * n) w) :: byte))
        OR take_bit (8 * n) w"
    by (simp add: Suc.IH)
  also have "\<dots> = push_bit (8 * Suc n) acc OR take_bit (8 * Suc n) w"
    by (rule bit_word_eqI)
      (auto simp: bit_or_iff bit_push_bit_iff bit_take_bit_iff bit_unsigned_iff bit_drop_bit_eq
        exp_eq_zero_iff not_le ac_simps)
  finally show ?case .
qed

lemma be_get_put: "be_get (be_put n w) = take_bit (8 * n) (w :: 'a::len word)"
  by (simp add: be_get_def be_acc_put)

lemma be_get_put_full [simp]:
  "be_get (be_put 2 (a :: 16 word)) = a"
  "be_get (be_put 4 (b :: 32 word)) = b"
  "be_get (be_put 8 (c :: 64 word)) = c"
  by (simp_all add: be_get_put take_bit_word_eq_self)

lemma take_be_put_append [simp]:
  "take n (be_put n w @ xs) = be_put n w" "drop n (be_put n w @ xs) = xs"
  by simp_all

section \<open>Integers\<close>

text \<open>Signed reading of sums and differences that stay inside the range.\<close>

lemma sint_add_64:
  "- (2 ^ 63) \<le> sint a + sint b \<Longrightarrow> sint a + sint b < 2 ^ 63 \<Longrightarrow>
    sint (a + b :: int64) = sint a + sint b"
  by (simp add: sint_word_add signed_take_bit_int_eq_self)

lemma sint_sub_64:
  "- (2 ^ 63) \<le> sint a - sint b \<Longrightarrow> sint a - sint b < 2 ^ 63 \<Longrightarrow>
    sint (a - b :: int64) = sint a - sint b"
  by (simp add: sint_word_diff signed_take_bit_int_eq_self)

lemma sint_of_int_64:
  "- (2 ^ 63) \<le> x \<Longrightarrow> x < 2 ^ 63 \<Longrightarrow> sint (word_of_int x :: int64) = x"
  by (simp add: sint_sbintrunc' signed_take_bit_int_eq_self)

lemma sint_of_int_32:
  "- (2 ^ 31) \<le> x \<Longrightarrow> x < 2 ^ 31 \<Longrightarrow> sint (word_of_int x :: int32) = x"
  by (simp add: sint_sbintrunc' signed_take_bit_int_eq_self)

lemma sint_of_int_16:
  "- (2 ^ 15) \<le> x \<Longrightarrow> x < 2 ^ 15 \<Longrightarrow> sint (word_of_int x :: int16) = x"
  by (simp add: sint_sbintrunc' signed_take_bit_int_eq_self)

lemma sint_range_64: "- (2 ^ 63) \<le> sint (a :: int64)" "sint (a :: int64) < 2 ^ 63"
  using sint_greater_eq [of a] sint_lt [of a] by simp_all

lemma sint_range_32: "- (2 ^ 31) \<le> sint (a :: int32)" "sint (a :: int32) < 2 ^ 31"
  using sint_greater_eq [of a] sint_lt [of a] by simp_all

lemma sint_eq_iff [simp]: "sint a = sint b \<longleftrightarrow> a = (b :: 'a::len word)"
  by (auto dest: arg_cong [where f = "word_of_int :: int \<Rightarrow> 'a word"])

lemma word_of_sint: "sint w = x \<Longrightarrow> w = (word_of_int x :: 'a::len word)"
  by (drule sym) simp

lemma ucast_of_sint:
  assumes "sint (w :: int64) = x"
  shows "(ucast w :: int32) = word_of_int x"
proof -
  have "w = word_of_int x" using assms by (rule word_of_sint)
  then show ?thesis
    by (simp only: unsigned_of_int word_of_int_eq_iff) (simp add: take_bit_take_bit word_of_int_eq_iff)
qed

section \<open>Decoders\<close>

text \<open>
  A decoder over an \<open>io.Reader\<close> is a function of the bytes not yet read: it fails with
  an error or returns a value and the bytes left. No caller reads on after an error, so
  the reader's position after one is not part of the result.
\<close>

type_synonym 'a decoder = "bytes \<Rightarrow> go_error + 'a \<times> bytes"

definition dreturn :: "'a \<Rightarrow> 'a decoder" where
  "dreturn x = (\<lambda>bs. Inr (x, bs))"

definition dfail :: "go_error \<Rightarrow> 'a decoder" where
  "dfail e = (\<lambda>bs. Inl e)"

definition dbind :: "'a decoder \<Rightarrow> ('a \<Rightarrow> 'b decoder) \<Rightarrow> 'b decoder" where
  "dbind d f = (\<lambda>bs. case d bs of Inl e \<Rightarrow> Inl e | Inr (x, bs') \<Rightarrow> f x bs')"

text \<open>\<open>io.ReadFull\<close> of n bytes: nothing is read for n = 0, an empty input is \<open>io.EOF\<close>.\<close>

definition ReadFull :: "nat \<Rightarrow> bytes decoder" where
  "ReadFull n = (\<lambda>bs.
     if n = 0 then Inr ([], bs)
     else if bs = [] then Inl EOF
     else if length bs < n then Inl ErrUnexpectedEOF
     else Inr (take n bs, drop n bs))"

text \<open>
  The counting loop \<open>for i := 0; i < n; i++ { x, err := d(); out = append(out, x) }\<close>,
  and the same loop after \<open>make([]T, 0, n)\<close>, which panics when the capacity is negative.
\<close>

fun dtimes :: "nat \<Rightarrow> 'a decoder \<Rightarrow> 'a list decoder" where
  "dtimes 0 d = dreturn []"
| "dtimes (Suc n) d = dbind d (\<lambda>x. dbind (dtimes n d) (\<lambda>xs. dreturn (x # xs)))"

definition dmake :: "int \<Rightarrow> 'a decoder \<Rightarrow> 'a list decoder" where
  "dmake n d = (if n < 0 then dfail Panic else dtimes (nat n) d)"

lemma dbind_simps [simp]:
  "dbind (dreturn x) f = f x"
  "dbind (dfail e) f = dfail e"
  by (simp_all add: dbind_def dreturn_def dfail_def)

lemma dreturn_apply [simp]: "dreturn x bs = Inr (x, bs)" "dfail e bs = Inl e"
  by (simp_all add: dreturn_def dfail_def)

lemma dbind_apply [codec_rt]:
  "dbind d f bs = (case d bs of Inl e \<Rightarrow> Inl e | Inr (x, bs') \<Rightarrow> f x bs')"
  by (simp add: dbind_def)

lemma dbind_eq_Inr:
  "dbind d f bs = Inr r \<longleftrightarrow> (\<exists>x bs'. d bs = Inr (x, bs') \<and> f x bs' = Inr r)"
  by (auto simp: dbind_def split: sum.splits)

lemma ReadFull_append [codec_rt]:
  "length xs = n \<Longrightarrow> ReadFull n (xs @ rest) = Inr (xs, rest)"
  by (auto simp: ReadFull_def)

lemma ReadFull_Inr:
  "ReadFull n bs = Inr (xs, rest) \<longleftrightarrow> bs = xs @ rest \<and> length xs = n"
  by (auto simp: ReadFull_def)

lemma dtimes_Inl: "0 < n \<Longrightarrow> d bs = Inl e \<Longrightarrow> dtimes n d bs = Inl e"
  by (cases n) (auto simp: dbind_def)

lemma dtimes_map:
  "(\<And>x rest. x \<in> set xs \<Longrightarrow> d (enc x @ rest) = Inr (f x, rest)) \<Longrightarrow>
    dtimes (length xs) d (concat (map enc xs) @ rest) = Inr (map f xs, rest)"
  by (induction xs) (auto simp: dbind_def)

text \<open>
  A codec is an encoder with a decoder that reads back what it wrote and leaves the rest
  of the input alone. The law composes: encodings of a list of values, one after the
  other, are read back by the counting loop.
\<close>

locale codec =
  fixes enc :: "'a \<Rightarrow> bytes"
    and dec :: "'a decoder"
    and ok :: "'a \<Rightarrow> bool"
  assumes dec_enc: "ok x \<Longrightarrow> dec (enc x @ rest) = Inr (x, rest)"
begin

lemma times_enc:
  "list_all ok xs \<Longrightarrow> dtimes (length xs) dec (concat (map enc xs) @ rest) = Inr (xs, rest)"
  using dtimes_map [of xs dec enc "\<lambda>x. x" rest] by (simp add: dec_enc list_all_iff)

lemma make_enc:
  "list_all ok xs \<Longrightarrow> n = int (length xs) \<Longrightarrow>
    dmake n dec (concat (map enc xs) @ rest) = Inr (xs, rest)"
  by (simp add: dmake_def times_enc)

lemma enc_inj: "ok x \<Longrightarrow> ok y \<Longrightarrow> enc x = enc y \<Longrightarrow> x = y"
  using dec_enc [of x "[]"] dec_enc [of y "[]"] by simp

end

section \<open>Strings\<close>

lemma split_first:
  "c \<notin> set xs \<Longrightarrow> c \<notin> set xs' \<Longrightarrow> xs @ c # ys = xs' @ c # ys' \<longleftrightarrow> xs = xs' \<and> ys = ys'"
proof (induction xs arbitrary: xs')
  case Nil
  then show ?case by (cases xs') auto
next
  case (Cons x xs)
  then show ?case by (cases xs') auto
qed

text \<open>The bytes of a Go string and back.\<close>

definition string_bytes :: "string \<Rightarrow> bytes" where
  "string_bytes s = map of_char s"

definition bytes_string :: "bytes \<Rightarrow> string" where
  "bytes_string bs = map (\<lambda>b. char_of (unat b)) bs"

lemma length_string_bytes [simp]: "length (string_bytes s) = length s"
  by (simp add: string_bytes_def)

lemma unat_of_char: "unat (of_char c :: byte) = of_char c"
proof -
  have "(of_char c :: byte) = of_nat (of_char c)" by (simp add: of_nat_of_char)
  then have "unat (of_char c :: byte) = take_bit 8 (of_char c :: nat)"
    by (simp add: unsigned_of_nat)
  also have "\<dots> = of_char c" by (simp add: take_bit_nat_def)
  finally show ?thesis .
qed

lemma bytes_string_bytes [simp]: "bytes_string (string_bytes s) = s"
  by (induction s) (simp_all add: bytes_string_def string_bytes_def unat_of_char)

text \<open>\<open>strings.Split\<close> at a one-character separator.\<close>

fun Split :: "char \<Rightarrow> string \<Rightarrow> string list" where
  "Split sep [] = [[]]"
| "Split sep (c # cs) =
     (if c = sep then [] # Split sep cs
      else case Split sep cs of [] \<Rightarrow> [[c]] | t # ts \<Rightarrow> (c # t) # ts)"

lemma Split_neq_Nil [simp]: "Split sep p \<noteq> []"
  by (cases p) (auto split: list.splits)

lemma Split_append: "Split sep (p @ sep # q) = Split sep p @ Split sep q"
  by (induction p) (auto split: list.splits)

lemma Split_single: "sep \<notin> set q \<Longrightarrow> Split sep q = [q]"
  by (induction q) auto

text \<open>Decimal numbers: \<open>strconv.Itoa\<close>, \<open>%d\<close> and \<open>strconv.ParseInt(s, 10, bits)\<close>.\<close>

definition digit_char :: "nat \<Rightarrow> char" where
  "digit_char d = char_of (48 + d)"

fun nat_digits :: "nat \<Rightarrow> string" where
  "nat_digits n = (if n < 10 then [digit_char n]
                   else nat_digits (n div 10) @ [digit_char (n mod 10)])"

declare nat_digits.simps [simp del]

definition Itoa :: "int \<Rightarrow> string" where
  "Itoa i = (if i < 0 then CHR ''-'' # nat_digits (nat (- i)) else nat_digits (nat i))"

fun parse_digits :: "nat \<Rightarrow> string \<Rightarrow> nat option" where
  "parse_digits acc [] = Some acc"
| "parse_digits acc (c # cs) =
     (let d = of_char c :: nat
      in if 48 \<le> d \<and> d \<le> 57 then parse_digits (10 * acc + (d - 48)) cs else None)"

definition ParseInt :: "nat \<Rightarrow> string \<Rightarrow> int option" where
  "ParseInt bits s =
     (let neg = (s \<noteq> [] \<and> hd s = CHR ''-'');
          ds = (if s \<noteq> [] \<and> (hd s = CHR ''-'' \<or> hd s = CHR ''+'') then tl s else s)
      in if ds = [] then None
         else case parse_digits 0 ds of
             None \<Rightarrow> None
           | Some n \<Rightarrow>
               (let v = (if neg then - int n else int n)
                in if - (2 ^ (bits - 1)) \<le> v \<and> v < 2 ^ (bits - 1) then Some v else None))"

lemma nat_digits_neq_Nil [simp]: "nat_digits n \<noteq> []"
  by (subst nat_digits.simps) simp

lemma of_char_digit [simp]: "d < 10 \<Longrightarrow> (of_char (digit_char d) :: nat) = 48 + d"
  by (simp add: digit_char_def)

lemma parse_digits_append:
  "parse_digits acc (xs @ ys) = Option.bind (parse_digits acc xs) (\<lambda>a. parse_digits a ys)"
  by (induction xs arbitrary: acc) (auto simp: Let_def)

lemma parse_nat_digits: "parse_digits 0 (nat_digits n) = Some n"
proof (induction n rule: nat_digits.induct)
  case (1 n)
  then show ?case
    by (subst nat_digits.simps) (auto simp: parse_digits_append Let_def)
qed

lemma nat_digits_chars: "c \<in> set (nat_digits n) \<Longrightarrow> 48 \<le> (of_char c :: nat) \<and> (of_char c :: nat) \<le> 57"
  by (induction n rule: nat_digits.induct) (subst (asm) (2) nat_digits.simps, auto split: if_splits)

lemma Itoa_chars:
  "c \<in> set (Itoa i) \<Longrightarrow> c = CHR ''-'' \<or> 48 \<le> (of_char c :: nat) \<and> (of_char c :: nat) \<le> 57"
  using nat_digits_chars by (auto simp: Itoa_def split: if_splits)

lemma Itoa_neq_Nil [simp]: "Itoa i \<noteq> []"
  by (simp add: Itoa_def)

lemma hd_nat_digits: "48 \<le> (of_char (hd (nat_digits n)) :: nat)"
proof (induction n rule: nat_digits.induct)
  case (1 n)
  then show ?case
    by (subst nat_digits.simps) (auto simp: hd_append)
qed

lemma ParseInt_Itoa:
  assumes "- (2 ^ (bits - 1)) \<le> i" "i < 2 ^ (bits - 1)"
  shows "ParseInt bits (Itoa i) = Some i"
proof -
  have "hd (nat_digits n) \<noteq> CHR ''-''" "hd (nat_digits n) \<noteq> CHR ''+''" for n
    using hd_nat_digits [of n] by auto
  then show ?thesis using assms
    by (auto simp: ParseInt_def Itoa_def parse_nat_digits Let_def)
qed

lemma inj_nat_digits: "nat_digits m = nat_digits n \<longleftrightarrow> m = n"
  by (metis option.inject parse_nat_digits)

section \<open>Maps\<close>

text \<open>
  A Go map is an association list with at most one entry per key. The position of an entry
  stands for the unspecified iteration order.
\<close>

type_synonym ('k, 'v) gomap = "('k \<times> 'v) list"

abbreviation mput :: "'k \<Rightarrow> 'v \<Rightarrow> ('k, 'v) gomap \<Rightarrow> ('k, 'v) gomap" where
  "mput \<equiv> AList.update"

abbreviation mdel :: "'k \<Rightarrow> ('k, 'v) gomap \<Rightarrow> ('k, 'v) gomap" where
  "mdel \<equiv> AList.delete"

abbreviation mkeys :: "('k, 'v) gomap \<Rightarrow> 'k list" where
  "mkeys m \<equiv> map fst m"

lemma map_of_mput [simp]: "map_of (mput k v m) = (map_of m)(k \<mapsto> v)"
  by (rule update_conv')

lemma map_of_mdel [simp]: "map_of (mdel k m) = (map_of m)(k := None)"
  by (rule delete_conv')

lemma distinct_mput [simp]: "distinct (mkeys m) \<Longrightarrow> distinct (mkeys (mput k v m))"
  by (rule distinct_update)

lemma distinct_mdel [simp]: "distinct (mkeys m) \<Longrightarrow> distinct (mkeys (mdel k m))"
  by (rule distinct_delete)

lemma set_mput: "set (mput k v m) \<subseteq> insert (k, v) (set m)"
  by (induction m) auto

lemma set_mkeys_mput [simp]: "set (mkeys (mput k v m)) = insert k (set (mkeys m))"
  by (simp add: dom_map_of_conv_image_fst [symmetric])

section \<open>Grouping\<close>

text \<open>Collecting the elements of a list key by key is a permutation of it.\<close>

lemma mset_filter_split: "mset xs = mset (filter P xs) + mset (filter (\<lambda>x. \<not> P x) xs)"
  by (induction xs) auto

lemma mset_group_by:
  "distinct ps \<Longrightarrow> \<forall>x \<in> set xs. key x \<in> set ps \<Longrightarrow>
    mset (concat (map (\<lambda>p. filter (\<lambda>x. key x = p) xs) ps)) = mset xs"
proof (induction ps arbitrary: xs)
  case (Cons p ps)
  let ?rest = "filter (\<lambda>x. key x \<noteq> p) xs"
  have "filter (\<lambda>x. key x = q) xs = filter (\<lambda>x. key x = q) ?rest" if "q \<in> set ps" for q
  proof -
    have "q \<noteq> p" using that Cons.prems(1) by auto
    then show ?thesis unfolding filter_filter by (intro filter_cong) auto
  qed
  then have "map (\<lambda>q. filter (\<lambda>x. key x = q) xs) ps = map (\<lambda>q. filter (\<lambda>x. key x = q) ?rest) ps"
    by (rule map_cong [OF refl])
  moreover have "mset (concat (map (\<lambda>q. filter (\<lambda>x. key x = q) ?rest) ps)) = mset ?rest"
    using Cons.prems by (intro Cons.IH) auto
  ultimately have "mset (concat (map (\<lambda>q. filter (\<lambda>x. key x = q) xs) ps)) = mset ?rest"
    by (simp only:)
  then have "mset (concat (map (\<lambda>q. filter (\<lambda>x. key x = q) xs) (p # ps)))
      = mset (filter (\<lambda>x. key x = p) xs) + mset ?rest" by simp
  then show ?case by (simp only: mset_filter_split [of xs "\<lambda>x. key x = p", symmetric])
qed auto

text \<open>How many of the first L numbers have the remainder k.\<close>

lemma length_filter_mod:
  assumes "k < n"
  shows "length (filter (\<lambda>j. j mod n = k) [0..<L]) = L div n + (if k < L mod n then 1 else 0)"
proof (induction L)
  case (Suc L)
  have lt: "L mod n < n" using assms by simp
  show ?case
  proof (cases "Suc (L mod n) = n")
    case True
    then have "Suc L mod n = 0" "Suc L div n = Suc (L div n)"
      by (simp_all add: mod_Suc div_Suc)
    then show ?thesis using Suc True assms by auto
  next
    case False
    then have "Suc L mod n = Suc (L mod n)" "Suc L div n = L div n"
      by (simp_all add: mod_Suc div_Suc)
    then show ?thesis using Suc by auto
  qed
qed (use assms in simp)

end
