(* ===== verification/Wire.thy ===== *)
theory Wire
  imports Prelude
begin

text \<open>
  The wire protocol primitives of \<open>internal/protocol\<close>: \<open>types.go\<close> (the \<open>Encoder\<close> and
  the \<open>Decoder\<close>), \<open>header.go\<close>, \<open>framing.go\<close> and \<open>errors.go\<close>. A \<open>Write\<close> method is
  modelled by the bytes it appends to the encoder's buffer, so that a sequence of calls is
  a concatenation; a \<open>Read\<close> method is a decoder. The theorems are the round trips, the
  exact lengths, and what happens when a length does not fit its prefix.
\<close>

section \<open>Error codes (errors.go)\<close>

definition ErrUnknown :: int16 where "ErrUnknown = -1"
definition ErrNone :: int16 where "ErrNone = 0"
definition ErrOffsetOutOfRange :: int16 where "ErrOffsetOutOfRange = 1"
definition ErrCorruptMessage :: int16 where "ErrCorruptMessage = 2"
definition ErrUnknownTopicOrPartition :: int16 where "ErrUnknownTopicOrPartition = 3"
definition ErrNotLeaderForPartition :: int16 where "ErrNotLeaderForPartition = 6"
definition ErrRequestTimedOut :: int16 where "ErrRequestTimedOut = 7"
definition ErrTopicAlreadyExists :: int16 where "ErrTopicAlreadyExists = 36"
definition ErrInvalidPartitions :: int16 where "ErrInvalidPartitions = 37"
definition ErrInvalidReplicationFactor :: int16 where "ErrInvalidReplicationFactor = 38"
definition ErrIllegalGeneration :: int16 where "ErrIllegalGeneration = 22"
definition ErrUnknownMemberID :: int16 where "ErrUnknownMemberID = 25"
definition ErrRebalanceInProgress :: int16 where "ErrRebalanceInProgress = 27"
definition ErrOutOfOrderSequenceNumber :: int16 where "ErrOutOfOrderSequenceNumber = 45"
definition ErrNotController :: int16 where "ErrNotController = 41"

lemmas err_code_defs =
  ErrUnknown_def ErrNone_def ErrOffsetOutOfRange_def ErrCorruptMessage_def
  ErrUnknownTopicOrPartition_def ErrNotLeaderForPartition_def ErrRequestTimedOut_def
  ErrTopicAlreadyExists_def ErrInvalidPartitions_def ErrInvalidReplicationFactor_def
  ErrIllegalGeneration_def ErrUnknownMemberID_def ErrRebalanceInProgress_def
  ErrOutOfOrderSequenceNumber_def ErrNotController_def

section \<open>Encoder (types.go)\<close>

definition WriteInt8 :: "int8 \<Rightarrow> bytes" where
  "WriteInt8 v = [v]"

definition WriteInt16 :: "int16 \<Rightarrow> bytes" where
  "WriteInt16 v = be_put 2 v"

definition WriteInt32 :: "int32 \<Rightarrow> bytes" where
  "WriteInt32 v = be_put 4 v"

definition WriteInt64 :: "int64 \<Rightarrow> bytes" where
  "WriteInt64 v = be_put 8 v"

function WriteUnsignedVarint :: "uint32 \<Rightarrow> bytes" where
  "WriteUnsignedVarint v =
     (if 0x80 \<le> v then (ucast v OR 0x80) # WriteUnsignedVarint (drop_bit 7 v)
      else [ucast v])"
  by pat_completeness auto
termination
proof (relation "measure unat")
  fix v :: uint32
  assume "0x80 \<le> v"
  then have "128 \<le> unat v" by (simp add: word_le_nat_alt)
  then show "(drop_bit 7 v, v) \<in> measure unat"
    by (simp only: in_measure unat_drop_bit_eq) (simp add: drop_bit_eq_div)
qed simp

declare WriteUnsignedVarint.simps [simp del]

definition WriteVarint :: "int32 \<Rightarrow> bytes" where
  "WriteVarint v = WriteUnsignedVarint (push_bit 1 v XOR signed_drop_bit 31 v)"

definition WriteString :: "string \<Rightarrow> bytes" where
  "WriteString s = WriteInt16 (of_nat (length s)) @ string_bytes s"

definition WriteNullableString :: "string option \<Rightarrow> bytes" where
  "WriteNullableString s = (case s of None \<Rightarrow> WriteInt16 (-1) | Some s \<Rightarrow> WriteString s)"

definition WriteBytes :: "bytes \<Rightarrow> bytes" where
  "WriteBytes b = WriteInt32 (of_nat (length b)) @ b"

definition WriteCompactString :: "string \<Rightarrow> bytes" where
  "WriteCompactString s = WriteUnsignedVarint (of_nat (length s) + 1) @ string_bytes s"

definition WriteCompactNullableString :: "string option \<Rightarrow> bytes" where
  "WriteCompactNullableString s =
     (case s of None \<Rightarrow> WriteUnsignedVarint 0 | Some s \<Rightarrow> WriteCompactString s)"

definition WriteArrayLen :: "int \<Rightarrow> bytes" where
  "WriteArrayLen n = WriteInt32 (word_of_int n)"

definition WriteCompactArrayLen :: "int \<Rightarrow> bytes" where
  "WriteCompactArrayLen n = WriteUnsignedVarint (word_of_int (n + 1))"

definition WriteEmptyTagBuffer :: bytes where
  "WriteEmptyTagBuffer = WriteUnsignedVarint 0"

section \<open>Decoder (types.go)\<close>

definition readByte :: "byte decoder" where
  "readByte = dbind (ReadFull 1) (\<lambda>b. dreturn (hd b))"

definition ReadInt8 :: "int8 decoder" where
  "ReadInt8 = dbind readByte (\<lambda>b. dreturn b)"

definition ReadInt16 :: "int16 decoder" where
  "ReadInt16 = dbind (ReadFull 2) (\<lambda>b. dreturn (be_get b))"

definition ReadInt32 :: "int32 decoder" where
  "ReadInt32 = dbind (ReadFull 4) (\<lambda>b. dreturn (be_get b))"

definition ReadInt64 :: "int64 decoder" where
  "ReadInt64 = dbind (ReadFull 8) (\<lambda>b. dreturn (be_get b))"

definition maxVarintBytes :: nat where
  "maxVarintBytes = 5"

text \<open>The loop of \<open>ReadUnsignedVarint\<close>: \<open>n\<close> iterations are left.\<close>

fun varint_loop :: "nat \<Rightarrow> uint32 \<Rightarrow> nat \<Rightarrow> uint32 decoder" where
  "varint_loop 0 result shift = dfail ErrVarintTooLong"
| "varint_loop (Suc n) result shift =
     dbind readByte (\<lambda>b.
       let result = result OR push_bit shift (ucast (b AND 0x7F))
       in if b AND 0x80 = 0 then dreturn result
          else varint_loop n result (shift + 7))"

definition ReadUnsignedVarint :: "uint32 decoder" where
  "ReadUnsignedVarint = varint_loop maxVarintBytes 0 0"

definition ReadVarint :: "int32 decoder" where
  "ReadVarint = dbind ReadUnsignedVarint (\<lambda>zigzag.
     dreturn (drop_bit 1 zigzag XOR (- (zigzag AND 1))))"

definition ReadString :: "string decoder" where
  "ReadString = dbind ReadInt16 (\<lambda>n.
     if sint n < 0 then dfail (ErrNegativeLength n)
     else dbind (ReadFull (nat (sint n))) (\<lambda>buf. dreturn (bytes_string buf)))"

definition ReadNullableString :: "string option decoder" where
  "ReadNullableString = dbind ReadInt16 (\<lambda>n.
     if sint n < 0 then dreturn None
     else dbind (ReadFull (nat (sint n))) (\<lambda>buf. dreturn (Some (bytes_string buf))))"

definition ReadBytes :: "bytes option decoder" where
  "ReadBytes = dbind ReadInt32 (\<lambda>n.
     if sint n < 0 then dreturn None
     else dbind (ReadFull (nat (sint n))) (\<lambda>buf. dreturn (Some buf)))"

definition ReadCompactString :: "string decoder" where
  "ReadCompactString = dbind ReadUnsignedVarint (\<lambda>n.
     if n = 0 then dfail ErrZeroLength
     else dbind (ReadFull (unat (n - 1))) (\<lambda>buf. dreturn (bytes_string buf)))"

definition ReadCompactNullableString :: "string option decoder" where
  "ReadCompactNullableString = dbind ReadUnsignedVarint (\<lambda>n.
     if n = 0 then dreturn None
     else dbind (ReadFull (unat (n - 1))) (\<lambda>buf. dreturn (Some (bytes_string buf))))"

definition ReadArrayLen :: "int decoder" where
  "ReadArrayLen = dbind ReadInt32 (\<lambda>n. dreturn (sint n))"

definition ReadCompactArrayLen :: "int decoder" where
  "ReadCompactArrayLen = dbind ReadUnsignedVarint (\<lambda>n. dreturn (uint n - 1))"

definition ReadTagBuffer :: "unit decoder" where
  "ReadTagBuffer = dbind ReadUnsignedVarint (\<lambda>n.
     if n \<noteq> 0 then dfail (ErrTaggedFields n) else dreturn ())"

text \<open>
  A slice read by \<open>ReadArrayLen\<close> and the loop that fills it after \<open>make([]T, 0, n)\<close>, the
  shape of every array of the sources.
\<close>

definition ReadArray :: "'a decoder \<Rightarrow> 'a list decoder" where
  "ReadArray d = dbind ReadArrayLen (\<lambda>n. dmake n d)"

definition WriteArray :: "('a \<Rightarrow> bytes) \<Rightarrow> 'a list \<Rightarrow> bytes" where
  "WriteArray w xs = WriteArrayLen (int (length xs)) @ concat (map w xs)"

section \<open>Request and response headers (header.go)\<close>

record RequestHeader =
  APIKey :: int16
  APIVersion :: int16
  CorrelationID :: int32
  ClientID :: "string option"

definition WriteRequestHeader :: "RequestHeader \<Rightarrow> bytes" where
  "WriteRequestHeader h =
     WriteInt16 (APIKey h) @ WriteInt16 (APIVersion h) @ WriteInt32 (CorrelationID h)
     @ WriteNullableString (ClientID h)"

definition ReadRequestHeader :: "RequestHeader decoder" where
  "ReadRequestHeader =
     dbind ReadInt16 (\<lambda>apiKey.
     dbind ReadInt16 (\<lambda>apiVersion.
     dbind ReadInt32 (\<lambda>correlationID.
     dbind ReadNullableString (\<lambda>clientID.
     dreturn \<lparr>APIKey = apiKey, APIVersion = apiVersion,
              CorrelationID = correlationID, ClientID = clientID\<rparr>))))"

definition WriteResponseHeader :: "int32 \<Rightarrow> bytes" where
  "WriteResponseHeader correlationID = WriteInt32 correlationID"

definition ReadResponseHeader :: "int32 decoder" where
  "ReadResponseHeader = dbind ReadInt32 (\<lambda>correlationID. dreturn correlationID)"

section \<open>Frames (framing.go)\<close>

text \<open>
  An \<open>io.Writer\<close> is the list of outcomes of its next \<open>Write\<close> calls: a count with no error,
  or an error after a count. A writer with no outcome left accepts everything. The
  functions return the error, the bytes that reached the writer and the outcomes left.
\<close>

datatype write_outcome = Wrote nat | WriteErr nat

fun writeAll :: "write_outcome list \<Rightarrow> bytes \<Rightarrow> go_error option \<times> bytes \<times> write_outcome list" where
  "writeAll [] p = (None, p, [])"
| "writeAll (Wrote n # ws) p =
     (if p = [] then (None, [], Wrote n # ws)
      else if n = 0 then (Some ErrShortWrite, [], ws)
      else case writeAll ws (drop n p) of
        (e, sent, ws') \<Rightarrow> (e, take n p @ sent, ws'))"
| "writeAll (WriteErr n # ws) p =
     (if p = [] then (None, [], WriteErr n # ws) else (Some ErrIO, take n p, ws))"

definition WriteFrame ::
    "write_outcome list \<Rightarrow> bytes \<Rightarrow> go_error option \<times> bytes \<times> write_outcome list" where
  "WriteFrame ws payload =
     (case writeAll ws (be_put 4 (of_nat (length payload) :: uint32)) of
        (Some e, sent, ws') \<Rightarrow> (Some e, sent, ws')
      | (None, sent, ws') \<Rightarrow>
          (case writeAll ws' payload of (e, sent', ws'') \<Rightarrow> (e, sent @ sent', ws'')))"

definition ReadFrame :: "bytes decoder" where
  "ReadFrame = dbind (ReadFull 4) (\<lambda>lengthBuf.
     dbind (ReadFull (unat (be_get lengthBuf :: uint32))) (\<lambda>payload. dreturn payload))"

section \<open>Fixed-width integers\<close>

lemma readByte_Cons [codec_rt]: "readByte (b # rest) = Inr (b, rest)"
  by (simp add: readByte_def dbind_def ReadFull_def)

lemma read_fixed [codec_rt]:
  "ReadInt8 (WriteInt8 v8 @ rest) = Inr (v8, rest)"
  "ReadInt16 (WriteInt16 v16 @ rest) = Inr (v16, rest)"
  "ReadInt32 (WriteInt32 v32 @ rest) = Inr (v32, rest)"
  "ReadInt64 (WriteInt64 v64 @ rest) = Inr (v64, rest)"
  by (simp_all add: ReadInt8_def WriteInt8_def ReadInt16_def WriteInt16_def
      ReadInt32_def WriteInt32_def ReadInt64_def WriteInt64_def codec_rt)

lemma length_write_fixed [simp]:
  "length (WriteInt8 v8) = 1" "length (WriteInt16 v16) = 2"
  "length (WriteInt32 v32) = 4" "length (WriteInt64 v64) = 8"
  by (simp_all add: WriteInt8_def WriteInt16_def WriteInt32_def WriteInt64_def)

interpretation int16_codec: codec WriteInt16 ReadInt16 "\<lambda>_. True"
  by unfold_locales (simp add: codec_rt)

interpretation int32_codec: codec WriteInt32 ReadInt32 "\<lambda>_. True"
  by unfold_locales (simp add: codec_rt)

interpretation int64_codec: codec WriteInt64 ReadInt64 "\<lambda>_. True"
  by unfold_locales (simp add: codec_rt)

section \<open>Variable-length integers\<close>

lemma and_127: "w AND 0x7F = take_bit 7 (w :: 'a::len word)"
  by (simp add: take_bit_eq_mask mask_eq_exp_minus_1)

lemma bit_128: "bit (0x80 :: 8 word) n \<longleftrightarrow> n = 7"
proof -
  have "(0x80 :: 8 word) = push_bit 7 1" by simp
  then show ?thesis by (simp only: bit_simps) auto
qed

lemma varint_byte_more:
  "(ucast v OR 0x80 :: byte) AND 0x80 \<noteq> 0"
  "ucast ((ucast (v :: uint32) OR 0x80 :: byte) AND 0x7F) = take_bit 7 v"
proof -
  have "bit ((ucast v OR 0x80 :: byte) AND 0x80) 7" by (simp add: bit_and_iff bit_or_iff bit_128)
  then show "(ucast v OR 0x80 :: byte) AND 0x80 \<noteq> 0" by force
  show "ucast ((ucast v OR 0x80 :: byte) AND 0x7F) = take_bit 7 v"
    unfolding and_127
    by (rule bit_word_eqI) (auto simp: bit_take_bit_iff bit_unsigned_iff bit_or_iff bit_128)
qed

lemma varint_byte_last:
  assumes "\<not> 0x80 \<le> (v :: uint32)"
  shows "(ucast v :: byte) AND 0x80 = 0" "ucast ((ucast v :: byte) AND 0x7F) = v"
proof -
  have "unat v < 2 ^ 7" using assms by (simp add: word_le_nat_alt)
  then have "unat (take_bit 7 v) = unat v"
    by (simp only: unsigned_take_bit_eq take_bit_nat_eq_self)
  then have tb: "take_bit 7 v = v" by (simp only: unsigned_word_eqI)
  have hi: "\<not> bit v n" if "7 \<le> n" for n
    using that by (metis tb bit_take_bit_iff not_le)
  have "\<not> bit ((ucast v :: byte) AND 0x80) n" for n
    by (simp only: bit_and_iff bit_unsigned_iff bit_128) (use hi in auto)
  then show "(ucast v :: byte) AND 0x80 = 0" by (intro bit_word_eqI) simp
  show "ucast ((ucast v :: byte) AND 0x7F) = v"
    unfolding and_127
  proof (rule bit_word_eqI)
    fix n
    show "bit (ucast (take_bit 7 (ucast v :: byte)) :: uint32) n = bit v n"
      using hi [of n] by (cases "n < 7") (auto simp: bit_take_bit_iff bit_unsigned_iff)
  qed
qed

lemma varint_split: "take_bit 7 v OR push_bit 7 (drop_bit 7 v) = (v :: uint32)"
proof (rule bit_word_eqI)
  fix n assume "n < LENGTH(32)"
  then show "bit (take_bit 7 v OR push_bit 7 (drop_bit 7 v)) n = bit v n"
    by (cases "n < 7") (auto simp: bit_or_iff bit_take_bit_iff bit_push_bit_iff bit_drop_bit_eq)
qed

lemma varint_loop_write:
  "unat v < 2 ^ (7 * n) \<Longrightarrow> 0 < n \<Longrightarrow>
    varint_loop n result shift (WriteUnsignedVarint v @ rest) = Inr (result OR push_bit shift v, rest)"
proof (induction v arbitrary: n result shift rule: WriteUnsignedVarint.induct)
  case (1 v)
  from 1(3) obtain m where n: "n = Suc m" by (cases n) auto
  show ?case
  proof (cases "0x80 \<le> v")
    case True
    then have big: "128 \<le> unat v" by (simp add: word_le_nat_alt)
    have "m \<noteq> 0" using big 1(2) n by (intro notI) simp
    moreover have "unat (drop_bit 7 v) < 2 ^ (7 * m)"
      using 1(2) n by (simp only: unat_drop_bit_eq)
        (simp add: drop_bit_eq_div power_add less_mult_imp_div_less)
    ultimately have IH: "varint_loop m r s (WriteUnsignedVarint (drop_bit 7 v) @ rest)
        = Inr (r OR push_bit s (drop_bit 7 v), rest)" for r s
      using 1(1) [OF True] by simp
    have "push_bit shift (take_bit 7 v) OR push_bit (shift + 7) (drop_bit 7 v) = push_bit shift v"
      by (metis varint_split push_bit_or push_bit_push_bit)
    then show ?thesis
      by (subst WriteUnsignedVarint.simps)
        (simp add: True n codec_rt varint_byte_more IH or.assoc Let_def)
  next
    case False
    then show ?thesis
      by (subst WriteUnsignedVarint.simps)
        (simp add: n codec_rt varint_byte_last Let_def)
  qed
qed

lemma ReadUnsignedVarint_Write [codec_rt]:
  "ReadUnsignedVarint (WriteUnsignedVarint v @ rest) = Inr (v, rest)"
proof -
  have "unat v < 2 ^ LENGTH(32)" by (rule unsigned_less)
  then have "unat v < 2 ^ (7 * 5)" by simp
  then show ?thesis
    by (simp add: ReadUnsignedVarint_def maxVarintBytes_def varint_loop_write)
qed

lemma zigzag_inverse:
  "drop_bit 1 z XOR (- (z AND 1)) = v"
  if "z = push_bit 1 v XOR signed_drop_bit 31 (v :: int32)"
proof -
  have sd: "signed_drop_bit 31 v = (if bit v 31 then - 1 else 0)"
    by (rule bit_word_eqI) (auto simp: bit_signed_drop_bit_iff bit_simps min_def Suc_le_eq)
  define p where "p = push_bit 1 v"
  have p: "bit p n \<longleftrightarrow> 1 \<le> n \<and> n < 32 \<and> bit v (n - 1)" for n
    by (auto simp only: p_def bit_push_bit_iff possible_bit_word) auto
  have p0: "p AND 1 = 0" "NOT p AND 1 = 1"
    by (simp_all add: and_one_eq mod_2_eq_odd p flip: bit_0)
  show ?thesis
  proof (cases "bit v 31")
    case True
    with that sd have z: "z = NOT p" by (simp only: p_def) simp
    show ?thesis using True
      by (intro bit_word_eqI) (auto simp: z p0 bit_simps p less_Suc_eq numeral_eq_Suc)
  next
    case False
    with that sd have z: "z = p" by (simp only: p_def) simp
    show ?thesis using False
      by (intro bit_word_eqI) (auto simp: z p0 bit_simps p less_Suc_eq numeral_eq_Suc)
  qed
qed

lemma ReadVarint_Write [codec_rt]: "ReadVarint (WriteVarint v @ rest) = Inr (v, rest)"
  unfolding ReadVarint_def WriteVarint_def dbind_apply ReadUnsignedVarint_Write
  by (simp only: sum.case prod.case dreturn_apply zigzag_inverse [OF refl])

lemma length_WriteUnsignedVarint:
  "unat v < 2 ^ (7 * n) \<Longrightarrow> 0 < n \<Longrightarrow> length (WriteUnsignedVarint v) \<le> n"
proof (induction v arbitrary: n rule: WriteUnsignedVarint.induct)
  case (1 v)
  from 1(3) obtain m where n: "n = Suc m" by (cases n) auto
  show ?case
  proof (cases "0x80 \<le> v")
    case True
    then have big: "128 \<le> unat v" by (simp add: word_le_nat_alt)
    have "0 < m" using big 1(2) n by (cases m) simp_all
    moreover have "unat (drop_bit 7 v) < 2 ^ (7 * m)"
      using 1(2) n by (simp only: unat_drop_bit_eq)
        (simp add: drop_bit_eq_div power_add less_mult_imp_div_less)
    ultimately show ?thesis using 1(1) [OF True, of m] n
      by (subst WriteUnsignedVarint.simps) (simp add: True)
  next
    case False
    then show ?thesis by (subst WriteUnsignedVarint.simps) (simp add: n)
  qed
qed

section \<open>Strings, byte strings and arrays\<close>

lemma sint_length_16: "length s < 2 ^ 15 \<Longrightarrow> sint (of_nat (length s) :: int16) = int (length s)"
  using sint_of_int_16 [of "int (length s)"] by simp

lemma sint_length_32: "length s < 2 ^ 31 \<Longrightarrow> sint (of_nat (length s) :: int32) = int (length s)"
  using sint_of_int_32 [of "int (length s)"] by simp

lemma ReadString_Write [codec_rt]:
  "length s < 2 ^ 15 \<Longrightarrow> ReadString (WriteString s @ rest) = Inr (s, rest)"
  by (simp add: ReadString_def WriteString_def codec_rt sint_length_16)

lemma ReadNullableString_Write [codec_rt]:
  "(case s of None \<Rightarrow> True | Some t \<Rightarrow> length t < 2 ^ 15) \<Longrightarrow>
    ReadNullableString (WriteNullableString s @ rest) = Inr (s, rest)"
  by (cases s) (simp_all add: ReadNullableString_def WriteNullableString_def WriteString_def
      codec_rt sint_length_16)

lemma ReadBytes_Write [codec_rt]:
  "length b < 2 ^ 31 \<Longrightarrow> ReadBytes (WriteBytes b @ rest) = Inr (Some b, rest)"
  by (simp add: ReadBytes_def WriteBytes_def codec_rt sint_length_32)

lemma compact_length:
  "length s < 2 ^ 32 - 1 \<Longrightarrow> unat (of_nat (length s) + 1 - 1 :: uint32) = length s"
  "length s < 2 ^ 32 - 1 \<Longrightarrow> (of_nat (length s) + 1 :: uint32) \<noteq> 0"
proof -
  assume l: "length s < 2 ^ 32 - 1"
  then show "unat (of_nat (length s) + 1 - 1 :: uint32) = length s"
    by (simp add: unsigned_of_nat take_bit_nat_eq_self)
  have "unat (of_nat (Suc (length s)) :: uint32) = Suc (length s)"
    using l take_bit_nat_eq_self [of "Suc (length s)" 32]
    by (simp add: unsigned_of_nat del: of_nat_Suc)
  then show "(of_nat (length s) + 1 :: uint32) \<noteq> 0" by (force simp: add.commute)
qed

lemma ReadCompactString_Write [codec_rt]:
  "length s < 2 ^ 32 - 1 \<Longrightarrow> ReadCompactString (WriteCompactString s @ rest) = Inr (s, rest)"
  using compact_length [of s]
  by (simp add: ReadCompactString_def WriteCompactString_def codec_rt)

lemma ReadCompactNullableString_Write [codec_rt]:
  "(case s of None \<Rightarrow> True | Some t \<Rightarrow> length t < 2 ^ 32 - 1) \<Longrightarrow>
    ReadCompactNullableString (WriteCompactNullableString s @ rest) = Inr (s, rest)"
  using compact_length [of "the s"]
  by (cases s) (simp_all add: ReadCompactNullableString_def WriteCompactNullableString_def
      WriteCompactString_def codec_rt)

lemma ReadArrayLen_Write [codec_rt]:
  "- (2 ^ 31) \<le> n \<Longrightarrow> n < 2 ^ 31 \<Longrightarrow> ReadArrayLen (WriteArrayLen n @ rest) = Inr (n, rest)"
  by (simp add: ReadArrayLen_def WriteArrayLen_def codec_rt sint_of_int_32)

lemma ReadCompactArrayLen_Write [codec_rt]:
  "- 1 \<le> n \<Longrightarrow> n < 2 ^ 32 - 1 \<Longrightarrow>
    ReadCompactArrayLen (WriteCompactArrayLen n @ rest) = Inr (n, rest)"
  by (simp add: ReadCompactArrayLen_def WriteCompactArrayLen_def codec_rt
      unsigned_of_int take_bit_int_eq_self del: of_int_add)

lemma ReadTagBuffer_Write [codec_rt]:
  "ReadTagBuffer (WriteEmptyTagBuffer @ rest) = Inr ((), rest)"
  by (simp add: ReadTagBuffer_def WriteEmptyTagBuffer_def codec_rt)

interpretation string_codec: codec WriteString ReadString "\<lambda>s. length s < 2 ^ 15"
  by unfold_locales (simp add: codec_rt)

context codec
begin

lemma array_enc:
  "list_all ok xs \<Longrightarrow> length xs < 2 ^ 31 \<Longrightarrow>
    ReadArray dec (WriteArray enc xs @ rest) = Inr (xs, rest)"
  by (simp add: ReadArray_def WriteArray_def codec_rt make_enc)

end

lemma ReadArray_int32 [codec_rt]:
  "length xs < 2 ^ 31 \<Longrightarrow> ReadArray ReadInt32 (WriteArray WriteInt32 xs @ rest) = Inr (xs, rest)"
  by (rule int32_codec.array_enc) (simp_all add: list_all_iff)

text \<open>A length that does not fit 16 bits signed is written as a negative number.\<close>

lemma ReadString_overflow:
  assumes "2 ^ 15 \<le> length s" "length s < 2 ^ 16"
  shows "\<exists>n. ReadString (WriteString s @ rest) = Inl (ErrNegativeLength n)"
proof -
  have "sint (of_nat (length s) :: int16)
      = (int (length s) + 2 ^ 15) mod 2 ^ 16 - 2 ^ 15"
    using int_word_sint [of "int (length s)", where 'a = 16] by simp
  also have "\<dots> = int (length s) - 2 ^ 16"
    using assms mod_add_self2 [of "int (length s) - 2 ^ 15" "2 ^ 16"] by (simp add: add.commute)
  finally have "sint (of_nat (length s) :: int16) < 0" using assms by simp
  then show ?thesis by (simp add: ReadString_def WriteString_def codec_rt)
qed

section \<open>Headers and frames\<close>

definition header_ok :: "RequestHeader \<Rightarrow> bool" where
  "header_ok h = (case ClientID h of None \<Rightarrow> True | Some c \<Rightarrow> length c < 2 ^ 15)"

interpretation header_codec: codec WriteRequestHeader ReadRequestHeader header_ok
  by unfold_locales
    (auto simp: WriteRequestHeader_def ReadRequestHeader_def header_ok_def codec_rt)

lemma ReadResponseHeader_Write [codec_rt]:
  "ReadResponseHeader (WriteResponseHeader c @ rest) = Inr (c, rest)"
  by (simp add: ReadResponseHeader_def WriteResponseHeader_def codec_rt)

text \<open>What reached the writer is a prefix of the argument, all of it unless an error is reported.\<close>

lemma writeAll_sent:
  "writeAll ws p = (e, sent, ws') \<Longrightarrow> \<exists>left. p = sent @ left \<and> (e = None \<longrightarrow> left = [])"
proof (induction ws p arbitrary: e sent ws' rule: writeAll.induct)
  case (2 n ws p)
  show ?case
  proof (cases "p = [] \<or> n = 0")
    case False
    obtain e' sent' where rec: "writeAll ws (drop n p) = (e', sent', ws')" "e = e'"
        "sent = take n p @ sent'"
      using 2(2) False by (auto split: prod.splits)
    from 2(1) [OF _ _ rec(1)] False rec(2)
    obtain left where "drop n p = sent' @ left" "e = None \<longrightarrow> left = []" by auto
    then show ?thesis using rec(3) append_take_drop_id [of n p] by (metis append.assoc)
  qed (use 2(2) in \<open>auto split: if_splits\<close>)
next
  case (3 n ws p)
  then show ?case by (cases "p = []") (auto intro: exI [of _ "drop n p"])
qed auto

lemma ReadFrame_Write [codec_rt]:
  "length payload < 2 ^ 32 \<Longrightarrow>
    ReadFrame (be_put 4 (of_nat (length payload) :: uint32) @ payload @ rest) = Inr (payload, rest)"
  by (simp add: ReadFrame_def codec_rt unsigned_of_nat take_bit_nat_eq_self)

lemma ReadFrame_truncated:
  assumes "be_put 4 (of_nat (length payload) :: uint32) @ payload = sent @ left"
    "left \<noteq> []" "length payload < 2 ^ 32"
  shows "\<exists>e. ReadFrame sent = Inl e"
proof (cases "length sent < 4")
  case True
  then show ?thesis by (auto simp: ReadFrame_def ReadFull_def dbind_def)
next
  case False
  then have "take 4 sent = be_put 4 (of_nat (length payload) :: uint32)"
    using arg_cong [OF assms(1), of "take 4"] by simp
  then obtain s' where s: "sent = be_put 4 (of_nat (length payload) :: uint32) @ s'"
    by (metis append_take_drop_id)
  then have "length s' < length payload" using assms(1,2) by (cases left) auto
  moreover have "ReadFrame sent = (case ReadFull (length payload) s' of
      Inl e \<Rightarrow> Inl e | Inr (x, r) \<Rightarrow> dreturn x r)"
    using assms(3) by (simp add: s ReadFrame_def codec_rt unsigned_of_nat take_bit_nat_eq_self)
  ultimately show ?thesis by (auto simp: ReadFull_def)
qed

text \<open>
  The varint codecs are lossless: every unsigned 32-bit value and every zigzag-encoded
  signed value is read back exactly, with the rest of the input untouched, and no encoding is
  longer than the five bytes the decoder accepts.
\<close>

theorem varint_roundtrip:
  "ReadUnsignedVarint (WriteUnsignedVarint u @ rest) = Inr (u, rest)
   \<and> ReadVarint (WriteVarint i @ rest) = Inr (i, rest)
   \<and> length (WriteUnsignedVarint u) \<le> maxVarintBytes"
proof -
  have "unat u < 2 ^ LENGTH(32)" by (rule unsigned_less)
  then have "unat u < 2 ^ (7 * 5)" by simp
  then show ?thesis
    using length_WriteUnsignedVarint [of u 5] by (simp add: codec_rt maxVarintBytes_def)
qed

text \<open>
  A request header is read back from its encoding whatever bytes follow it, for every
  api key, version and correlation id and every client id that fits its 16-bit length.
\<close>

theorem request_header_roundtrip:
  assumes "header_ok h"
  shows "ReadRequestHeader (WriteRequestHeader h @ body) = Inr (h, body)"
  using assms by (rule header_codec.dec_enc)

theorem request_header_roundtrip_witness:
  "header_ok \<lparr>APIKey = 3, APIVersion = 0, CorrelationID = 7, ClientID = Some ''gokaf''\<rparr>
   \<and> ReadRequestHeader (WriteRequestHeader
        \<lparr>APIKey = 3, APIVersion = 0, CorrelationID = 7, ClientID = Some ''gokaf''\<rparr> @ [1, 2])
     = Inr (\<lparr>APIKey = 3, APIVersion = 0, CorrelationID = 7, ClientID = Some ''gokaf''\<rparr>, [1, 2])"
  using request_header_roundtrip
    [of "\<lparr>APIKey = 3, APIVersion = 0, CorrelationID = 7, ClientID = Some ''gokaf''\<rparr>" "[1, 2]"]
  by (simp add: header_ok_def)

text \<open>
  C40: framing over a writer that may accept any part of each write or fail: what reaches the
  peer is a prefix of length prefix and payload; with no error reported it is the whole frame
  and \<open>ReadFrame\<close> returns the payload and nothing of what follows; a frame cut short is never
  delivered.
\<close>

theorem frame_delivery:
  assumes "WriteFrame ws payload = (e, sent, ws')" and "length payload < 2 ^ 32"
  shows "(e = None \<longrightarrow> ReadFrame (sent @ rest) = Inr (payload, rest))
    \<and> (length sent < 4 + length payload \<longrightarrow> (\<exists>err. e \<noteq> None \<and> ReadFrame sent = Inl err))
    \<and> length sent \<le> 4 + length payload"
proof -
  let ?hdr = "be_put 4 (of_nat (length payload) :: uint32)"
  have "\<exists>left. ?hdr @ payload = sent @ left \<and> (e = None \<longrightarrow> left = [])"
  proof (cases "writeAll ws ?hdr")
    case (fields e1 s1 ws1)
    note h = writeAll_sent [OF fields]
    show ?thesis
    proof (cases e1)
      case None
      then have "s1 = ?hdr" using h by auto
      moreover obtain s2 where "writeAll ws1 payload = (e, s2, ws')" "sent = s1 @ s2"
        using assms(1) fields None by (auto simp: WriteFrame_def split: prod.splits)
      ultimately show ?thesis using writeAll_sent by fastforce
    next
      case (Some err)
      then have "sent = s1" "e \<noteq> None" using assms(1) fields by (auto simp: WriteFrame_def)
      then show ?thesis using h by (auto simp: append_assoc)
    qed
  qed
  then obtain left where l: "?hdr @ payload = sent @ left" "e = None \<longrightarrow> left = []" by blast
  have len: "4 + length payload = length sent + length left"
    using arg_cong [OF l(1), of length] by simp
  have "ReadFrame (sent @ rest) = Inr (payload, rest)" if "e = None"
    using ReadFrame_Write [OF assms(2), of rest] l that by (metis append.assoc append_Nil2)
  moreover have "\<exists>err. ReadFrame sent = Inl err" if "left \<noteq> []"
    using ReadFrame_truncated [OF l(1) that assms(2)] .
  ultimately show ?thesis using len l(2) by auto
qed

theorem frame_delivery_witness:
  "WriteFrame [Wrote 3, Wrote 1, Wrote 2, WriteErr 1] [9, 8, 7, 6]
     = (Some ErrIO, [0, 0, 0, 4, 9, 8, 7], []) \<and> (\<exists>err. ReadFrame [0, 0, 0, 4, 9, 8, 7] = Inl err)"
proof -
  have w: "WriteFrame [Wrote 3, Wrote 1, Wrote 2, WriteErr 1] [9, 8, 7, 6]
     = (Some ErrIO, [0, 0, 0, 4, 9, 8, 7], [])" by code_simp
  show ?thesis using w frame_delivery [OF w] by simp
qed

end
