(* ===== verification/Storage.thy ===== *)
theory Storage
  imports Wire
begin

text \<open>
  The segmented append-only log of \<open>internal/storage/log.go\<close>. A \<open>segment\<close> keeps the
  contents of its two files, the in-memory sparse index and the sizes; the buffered writer
  is empty between calls, so all that is left of it is whether a write has failed (a
  \<open>bufio.Writer\<close> then refuses every later write and flush). File positions are
  \<^typ>\<open>int\<close>: they stay below the size of a file. Which system calls of an append fail, and
  after how many bytes, is an input of the model: the next element of the log's \<open>disk\<close>
  schedule, where an exhausted schedule means no failure.
\<close>

section \<open>Data\<close>

definition entryHeaderSize :: int where "entryHeaderSize = 12"
definition indexEntrySize :: int where "indexEntrySize = 8"
definition maxSegmentBytes :: int where "maxSegmentBytes = 2 ^ 20"
definition indexIntervalBytes :: int where "indexIntervalBytes = 4 * 2 ^ 10"

lemmas storage_consts =
  entryHeaderSize_def indexEntrySize_def maxSegmentBytes_def indexIntervalBytes_def

record LogRecord =
  Offset :: int64
  Payload :: bytes

record indexEntry =
  relOffset :: int32
  position :: int32

record segment =
  baseOffset :: int64
  logFile :: bytes
  logErr :: bool
  indexFile :: bytes
  logSize :: int
  lastIndexPos :: int
  index :: "indexEntry list"

record append_io =
  flushFails :: bool
  createFails :: bool
  indexShort :: "nat option"
  logShort :: "nat option"

definition no_faults :: append_io where
  "no_faults = \<lparr>flushFails = False, createFails = False, indexShort = None, logShort = None\<rparr>"

record Log =
  segments :: "segment list"
  nextOffset :: int64
  disk :: "append_io list"

section \<open>Binary search (sort.Search)\<close>

function search_loop :: "(nat \<Rightarrow> bool) \<Rightarrow> nat \<Rightarrow> nat \<Rightarrow> nat" where
  "search_loop f i j =
     (if i < j then
        (let h = (i + j) div 2
         in if \<not> f h then search_loop f (h + 1) j else search_loop f i h)
      else i)"
  by pat_completeness auto
termination
  by (relation "measure (\<lambda>(f, i, j). j - i)") auto

declare search_loop.simps [simp del]

definition sort_Search :: "nat \<Rightarrow> (nat \<Rightarrow> bool) \<Rightarrow> nat" where
  "sort_Search n f = search_loop f 0 n"

section \<open>Files\<close>

text \<open>\<open>os.File.ReadAt\<close>: a negative position is an error, a short read is \<open>io.EOF\<close>.\<close>

definition ReadAt :: "bytes \<Rightarrow> nat \<Rightarrow> int \<Rightarrow> go_error + bytes" where
  "ReadAt file n pos =
     (if pos < 0 then Inl ErrIO
      else if n = 0 then Inr []
      else if int (length file) < pos + int n then Inl EOF
      else Inr (take n (drop (nat pos) file)))"

definition header_offset :: "bytes \<Rightarrow> int64" where
  "header_offset header = be_get (take 8 header)"

definition header_length :: "bytes \<Rightarrow> int" where
  "header_length header = uint (be_get (take 4 (drop 8 header)) :: uint32)"

definition file_header :: "bytes \<Rightarrow> int \<Rightarrow> bytes" where
  "file_header file pos = take 12 (drop (nat pos) file)"

lemma header_length_nonneg [simp]: "0 \<le> header_length h" "- 12 < header_length h"
  by (simp_all add: header_length_def less_le_trans [OF _ uint_nonnegative])

text \<open>The scan of \<open>recoverLog\<close>, from position \<open>pos\<close> with \<open>next\<close> the offset found so far.\<close>

function recover_loop :: "bytes \<Rightarrow> int \<Rightarrow> int64 \<Rightarrow> int64 \<times> int" where
  "recover_loop file pos nxt =
     (if 0 \<le> pos \<and> pos + entryHeaderSize \<le> int (length file) then
        (let header = file_header file pos;
             entryOffset = header_offset header;
             len = header_length header
         in if int (length file) < pos + entryHeaderSize + len then (nxt, pos)
            else recover_loop file (pos + (entryHeaderSize + len)) (entryOffset + 1))
      else (nxt, pos))"
  by pat_completeness auto
termination
  by (relation "measure (\<lambda>(file, pos, nxt). nat (int (length file) - pos))")
    (auto simp: entryHeaderSize_def add_strict_increasing)

declare recover_loop.simps [simp del]

definition recoverLog :: "bytes \<Rightarrow> int64 \<times> int" where
  "recoverLog file = recover_loop file 0 0"

definition index_entry_bytes :: "indexEntry \<Rightarrow> bytes" where
  "index_entry_bytes e = be_put 4 (relOffset e) @ be_put 4 (position e)"

text \<open>
  \<open>loadIndex\<close>: \<open>None\<close> is the nil slice that makes the caller rebuild the index.
\<close>

fun load_index_loop :: "bytes \<Rightarrow> int \<Rightarrow> indexEntry list \<Rightarrow> indexEntry list option" where
  "load_index_loop [] logSz acc = Some acc"
| "load_index_loop (b # bs) logSz acc =
     (let buf = take 8 (b # bs);
          entry = \<lparr>relOffset = be_get (take 4 buf), position = be_get (drop 4 buf)\<rparr>
      in if logSz \<le> sint (position entry) then None
         else load_index_loop (drop 7 bs) logSz (acc @ [entry]))"

definition loadIndex :: "bytes \<Rightarrow> int \<Rightarrow> indexEntry list option" where
  "loadIndex file logSz =
     (if length file = 0 then (if 0 < logSz then None else Some [])
      else if length file mod 8 \<noteq> 0 then None
      else load_index_loop file logSz [])"

text \<open>\<open>rebuildIndex\<close>: the entries it collects; the index file becomes their encoding.\<close>

function rebuild_loop :: "bytes \<Rightarrow> int64 \<Rightarrow> int \<Rightarrow> int \<Rightarrow> indexEntry list" where
  "rebuild_loop file base pos lastPos =
     (if 0 \<le> pos \<and> pos + entryHeaderSize \<le> int (length file) then
        (let header = file_header file pos;
             entryOffset = header_offset header;
             len = header_length header
         in if int (length file) < pos + entryHeaderSize + len then []
            else if indexIntervalBytes \<le> pos - lastPos then
              \<lparr>relOffset = ucast (entryOffset - base), position = word_of_int pos\<rparr>
              # rebuild_loop file base (pos + (entryHeaderSize + len)) pos
            else rebuild_loop file base (pos + (entryHeaderSize + len)) lastPos)
      else [])"
  by pat_completeness auto
termination
  by (relation "measure (\<lambda>(file, base, pos, lastPos). nat (int (length file) - pos))")
    (auto simp: entryHeaderSize_def add_strict_increasing)

declare rebuild_loop.simps [simp del]

definition rebuildIndex :: "bytes \<Rightarrow> int64 \<Rightarrow> indexEntry list" where
  "rebuildIndex file base = rebuild_loop file base 0 0"

definition lastIndexedPosition :: "indexEntry list \<Rightarrow> int" where
  "lastIndexedPosition idx = (if idx = [] then 0 else sint (position (last idx)))"

text \<open>
  \<open>readRecords\<close>: \<open>budget\<close> counts the payload bytes collected so far.
\<close>

function read_loop ::
    "bytes \<Rightarrow> int \<Rightarrow> int64 \<Rightarrow> int \<Rightarrow> int \<Rightarrow> LogRecord list \<Rightarrow> go_error + LogRecord list" where
  "read_loop file pos offset maxBytes payloadBytes records =
     (case ReadAt file 12 pos of
        Inl e \<Rightarrow> (if e = EOF then Inr records else Inl e)
      | Inr header \<Rightarrow>
          (let entryOffset = header_offset header;
               len = header_length header;
               payloadPos = pos + entryHeaderSize;
               nextPos = payloadPos + len
           in if sint entryOffset < sint offset then
                read_loop file nextPos offset maxBytes payloadBytes records
              else case ReadAt file (nat len) payloadPos of
                  Inl e \<Rightarrow> (if e = EOF then Inr records else Inl e)
                | Inr payload \<Rightarrow>
                    (let records = records @ [\<lparr>Offset = entryOffset, Payload = payload\<rparr>];
                         payloadBytes = payloadBytes + int (length payload)
                     in if 0 < maxBytes \<and> maxBytes \<le> payloadBytes then Inr records
                        else read_loop file nextPos offset maxBytes payloadBytes records)))"
  by pat_completeness auto
termination
  by (relation "measure (\<lambda>(file, pos, _). nat (int (length file) - pos))")
    (auto simp: entryHeaderSize_def ReadAt_def add_strict_increasing split: if_splits)

declare read_loop.simps [simp del]

definition readRecords :: "bytes \<Rightarrow> int \<Rightarrow> int64 \<Rightarrow> int \<Rightarrow> go_error + LogRecord list" where
  "readRecords file startPos offset maxBytes = read_loop file startPos offset maxBytes 0 []"

section \<open>Segments\<close>

definition createSegment :: "int64 \<Rightarrow> segment" where
  "createSegment base =
     \<lparr>baseOffset = base, logFile = [], logErr = False, indexFile = [], logSize = 0,
      lastIndexPos = 0, index = []\<rparr>"

text \<open>\<open>openSegment\<close> on the contents of the two files of a base offset.\<close>

definition openSegment :: "int64 \<Rightarrow> bytes \<Rightarrow> bytes \<Rightarrow> segment" where
  "openSegment base logBytes indexBytes =
     (let validSize = snd (recoverLog logBytes);
          logBytes = take (nat validSize) logBytes
      in case loadIndex indexBytes validSize of
          Some idx \<Rightarrow>
            \<lparr>baseOffset = base, logFile = logBytes, logErr = False, indexFile = indexBytes,
             logSize = validSize, lastIndexPos = lastIndexedPosition idx, index = idx\<rparr>
        | None \<Rightarrow>
            (let idx = rebuildIndex logBytes base
             in \<lparr>baseOffset = base, logFile = logBytes, logErr = False,
                 indexFile = concat (map index_entry_bytes idx), logSize = validSize,
                 lastIndexPos = lastIndexedPosition idx, index = idx\<rparr>))"

definition recoverNextOffset :: "segment \<Rightarrow> int64" where
  "recoverNextOffset seg =
     (if logSize seg = 0 then baseOffset seg else fst (recoverLog (logFile seg)))"

definition flush :: "append_io \<Rightarrow> segment \<Rightarrow> bool" where
  "flush io s = (\<not> logErr s \<and> \<not> flushFails io)"

definition maybeWriteIndex ::
    "append_io \<Rightarrow> segment \<Rightarrow> int64 \<Rightarrow> int \<Rightarrow> segment \<times> go_error option" where
  "maybeWriteIndex io s offset entryStartPos =
     (if logSize s - lastIndexPos s < indexIntervalBytes then (s, None)
      else
        (let entry = \<lparr>relOffset = ucast (offset - baseOffset s),
                      position = word_of_int entryStartPos\<rparr>;
             buf = index_entry_bytes entry
         in case indexShort io of
             Some k \<Rightarrow> (s\<lparr>indexFile := indexFile s @ take k buf\<rparr>, Some ErrIO)
           | None \<Rightarrow>
               (s\<lparr>indexFile := indexFile s @ buf, index := index s @ [entry],
                  lastIndexPos := logSize s\<rparr>, None)))"

definition startPosition :: "segment \<Rightarrow> int64 \<Rightarrow> int" where
  "startPosition s offset =
     (let rel = ucast (offset - baseOffset s) :: int32;
          j = sort_Search (length (index s)) (\<lambda>j. sint rel < sint (relOffset (index s ! j)))
      in if j = 0 then 0 else sint (position (index s ! (j - 1))))"

text \<open>The bytes an append writes: the offset, the payload's length, the payload.\<close>

definition entry_bytes :: "int64 \<Rightarrow> bytes \<Rightarrow> bytes" where
  "entry_bytes offset payload =
     be_put 8 offset @ be_put 4 (of_nat (length payload) :: uint32) @ payload"

text \<open>
  The two writes and the flush of an append. A failure after k bytes leaves a strict prefix
  of the entry in the file and the writer in its error state.
\<close>

definition write_entry ::
    "append_io \<Rightarrow> segment \<Rightarrow> int64 \<Rightarrow> bytes \<Rightarrow> int \<Rightarrow> segment \<times> go_error option" where
  "write_entry io s offset payload entrySize =
     (if logErr s then (s, Some ErrIO)
      else
        (let buf = entry_bytes offset payload
         in case logShort io of
             Some k \<Rightarrow> (s\<lparr>logFile := logFile s @ take (min k (length buf - 1)) buf, logErr := True\<rparr>,
                         Some ErrIO)
           | None \<Rightarrow> (s\<lparr>logFile := logFile s @ buf,
                        logSize := logSize s + entrySize\<rparr>, None)))"

section \<open>The log\<close>

text \<open>
  File names: \<open>%020d\<close> pads with zeros to 20 characters, after the sign; \<open>filepath.Ext\<close> is
  the suffix from the last dot of a name.
\<close>

definition Sprintf_020d :: "int64 \<Rightarrow> string" where
  "Sprintf_020d base =
     (let ds = nat_digits (nat \<bar>sint base\<bar>)
      in if sint base < 0 then CHR ''-'' # replicate (19 - length ds) CHR ''0'' @ ds
         else replicate (20 - length ds) CHR ''0'' @ ds)"

definition segmentLogName :: "int64 \<Rightarrow> string" where
  "segmentLogName base = Sprintf_020d base @ ''.log''"

definition segmentIndexName :: "int64 \<Rightarrow> string" where
  "segmentIndexName base = Sprintf_020d base @ ''.index''"

definition filepath_Ext :: "string \<Rightarrow> string" where
  "filepath_Ext name =
     (if CHR ''.'' \<in> set name then CHR ''.'' # rev (takeWhile (\<lambda>c. c \<noteq> CHR ''.'') (rev name))
      else [])"

definition parseSegmentBase :: "string \<Rightarrow> int64 option" where
  "parseSegmentBase name =
     (if filepath_Ext name \<noteq> ''.log'' then None
      else map_option word_of_int (ParseInt 64 (take (length name - 4) name)))"

text \<open>A directory maps file names to contents; the names \<open>*.log\<close> that parse, sorted.\<close>

type_synonym dir = "(string, bytes) gomap"

definition segmentBaseOffsets :: "dir \<Rightarrow> int64 list" where
  "segmentBaseOffsets dr = sort_key sint (List.map_filter parseSegmentBase (mkeys dr))"

fun open_segments :: "dir \<Rightarrow> int64 list \<Rightarrow> go_error + segment list" where
  "open_segments dr [] = Inr []"
| "open_segments dr (base # bases) =
     (case map_of dr (segmentLogName base) of
        None \<Rightarrow> Inl ErrIO
      | Some logBytes \<Rightarrow>
          (let seg = openSegment base logBytes
                 (case map_of dr (segmentIndexName base) of None \<Rightarrow> [] | Some ib \<Rightarrow> ib)
           in case open_segments dr bases of Inl e \<Rightarrow> Inl e | Inr segs \<Rightarrow> Inr (seg # segs)))"

definition Open :: "append_io list \<Rightarrow> dir \<Rightarrow> go_error + Log" where
  "Open dsk dr =
     (let bases = segmentBaseOffsets dr
      in if bases = [] then
           Inr \<lparr>segments = [createSegment 0], nextOffset = 0, disk = dsk\<rparr>
         else case open_segments dr bases of
             Inl e \<Rightarrow> Inl e
           | Inr segs \<Rightarrow>
               Inr \<lparr>segments = segs, nextOffset = recoverNextOffset (last segs), disk = dsk\<rparr>)"

text \<open>
  \<open>AppendWithOffset\<close>: \<open>stamp\<close> is the callback that writes the offset into the payload. A
  closed log has no segment, and the access to the active one panics.
\<close>

definition roll :: "append_io \<Rightarrow> segment list \<Rightarrow> int64 \<Rightarrow> int \<Rightarrow> segment list option" where
  "roll io segs offset entrySize =
     (let active = last segs
      in if 0 < logSize active \<and> maxSegmentBytes < logSize active + entrySize then
           (if \<not> flush io active \<or> createFails io then None
            else Some (segs @ [createSegment offset]))
         else Some segs)"

text \<open>The index entry, when one is due, is written before the entry itself.\<close>

definition append_entry ::
    "append_io \<Rightarrow> segment \<Rightarrow> int64 \<Rightarrow> bytes \<Rightarrow> int \<Rightarrow> segment \<times> go_error option" where
  "append_entry io active offset payload entrySize =
     (let entryStartPos = logSize active
      in case maybeWriteIndex io active offset entryStartPos of
          (active, Some err) \<Rightarrow> (active, Some err)
        | (active, None) \<Rightarrow> write_entry io active offset payload entrySize)"

definition AppendWithOffset ::
    "Log \<Rightarrow> bytes \<Rightarrow> (int64 \<Rightarrow> bytes \<Rightarrow> bytes) \<Rightarrow> Log \<times> (go_error + int64)" where
  "AppendWithOffset l payload stamp =
     (if segments l = [] then (l, Inl Panic)
      else
        (let io = (if disk l = [] then no_faults else hd (disk l));
             offset = nextOffset l;
             entrySize = entryHeaderSize + int (length payload)
         in case roll io (segments l) offset entrySize of
             None \<Rightarrow> (l\<lparr>disk := tl (disk l)\<rparr>, Inl ErrIO)
           | Some segs \<Rightarrow>
               (case append_entry io (last segs) offset (stamp offset payload) entrySize of
                  (active, Some err) \<Rightarrow>
                    (l\<lparr>segments := butlast segs @ [active], disk := tl (disk l)\<rparr>, Inl err)
                | (active, None) \<Rightarrow>
                    (l\<lparr>segments := butlast segs @ [active], nextOffset := offset + 1,
                       disk := tl (disk l)\<rparr>, Inr offset))))"

definition Append :: "Log \<Rightarrow> bytes \<Rightarrow> Log \<times> (go_error + int64)" where
  "Append l payload = AppendWithOffset l payload (\<lambda>_ p. p)"

definition segmentForOffset :: "Log \<Rightarrow> int64 \<Rightarrow> segment option" where
  "segmentForOffset l offset =
     (if sint offset < 0 \<or> segments l = [] then None
      else
        (let i = sort_Search (length (segments l))
                   (\<lambda>i. sint offset < sint (baseOffset (segments l ! i)))
         in if i = 0 then None else Some (segments l ! (i - 1))))"

definition Read :: "Log \<Rightarrow> int64 \<Rightarrow> int \<Rightarrow> go_error + LogRecord list" where
  "Read l offset maxBytes =
     (if segments l = [] then Inl Panic
      else if logErr (last (segments l)) then Inl ErrIO
      else case segmentForOffset l offset of
          None \<Rightarrow> Inr []
        | Some seg \<Rightarrow> readRecords (logFile seg) (startPosition seg offset) offset maxBytes)"

definition EndOffset :: "Log \<Rightarrow> int64" where
  "EndOffset l = nextOffset l"

definition StartOffset :: "Log \<Rightarrow> int64" where
  "StartOffset l = (if segments l = [] then 0 else baseOffset (hd (segments l)))"

definition CloseLog :: "Log \<Rightarrow> Log" where
  "CloseLog l = l\<lparr>segments := []\<rparr>"

section \<open>Reading a log from an offset to its end\<close>

text \<open>
  The loop that \<open>offset.Store.replay\<close> and \<open>MetadataLog.ReadRawFrom\<close> share: read without a
  byte limit from \<open>next\<close>, handle every record, go on after the last one, stop when a read
  returns nothing. The body \<open>f\<close> is the caller's; \<open>None\<close> means that the loop does not end.
\<close>

fun foldE :: "('a \<Rightarrow> 's \<Rightarrow> go_error + 's) \<Rightarrow> 'a list \<Rightarrow> 's \<Rightarrow> go_error + 's" where
  "foldE f [] st = Inr st"
| "foldE f (x # xs) st = (case f x st of Inl e \<Rightarrow> Inl e | Inr st' \<Rightarrow> foldE f xs st')"

partial_function (option) scan_log ::
    "(int64 \<Rightarrow> go_error + LogRecord list) \<Rightarrow> (LogRecord \<Rightarrow> 's \<Rightarrow> go_error + 's) \<Rightarrow> int64 \<Rightarrow> 's
     \<Rightarrow> (go_error + 's) option" where
  "scan_log read f next_off st =
     (case read next_off of
        Inl e \<Rightarrow> Some (Inl e)
      | Inr records \<Rightarrow>
          (if records = [] then Some (Inr st)
           else case foldE f records st of
               Inl e \<Rightarrow> Some (Inl e)
             | Inr st' \<Rightarrow> scan_log read f (Offset (last records) + 1) st'))"

declare scan_log.simps [code]

end
