(* ===== verification/Storage_Correct.thy ===== *)
theory Storage_Correct
  imports Storage "HOL-Library.Sublist"
begin

text \<open>
  What the segmented log promises: an abstract sequence of records with consecutive offsets,
  the invariant that ties the files, the sizes and the sparse index to it, and the proofs
  that appends, reads and recovery implement operations on the sequence.
\<close>

section \<open>Binary search\<close>

text \<open>\<open>sort.Search\<close> finds a boundary of any predicate, monotone or not.\<close>

lemma search_loop_boundary:
  "i \<le> j \<Longrightarrow> i = 0 \<or> \<not> f (i - 1) \<Longrightarrow> j = n \<or> f j \<Longrightarrow>
    i \<le> search_loop f i j \<and> search_loop f i j \<le> j
    \<and> (search_loop f i j = 0 \<or> \<not> f (search_loop f i j - 1))
    \<and> (search_loop f i j = n \<or> f (search_loop f i j))"
proof (induction f i j rule: search_loop.induct)
  case (1 f i j)
  show ?case
  proof (cases "i < j")
    case True
    define h where "h = (i + j) div 2"
    have h: "i \<le> h" "h < j" using True by (auto simp: h_def)
    show ?thesis
    proof (cases "f h")
      case fh: True
      have "search_loop f i j = search_loop f i h"
        by (subst search_loop.simps) (simp add: True fh Let_def h_def [symmetric])
      then show ?thesis
        using 1(2) [OF True h_def, of] fh h "1.prems" by auto
    next
      case fh: False
      have "search_loop f i j = search_loop f (h + 1) j"
        by (subst search_loop.simps) (simp add: True fh Let_def h_def [symmetric])
      then show ?thesis
        using 1(1) [OF True h_def, of] fh h "1.prems" by auto
    qed
  next
    case False
    then show ?thesis using "1.prems" by (subst (1 2 3 4 5 6) search_loop.simps) auto
  qed
qed

lemma sort_Search_boundary:
  "sort_Search n f \<le> n
   \<and> (sort_Search n f = 0 \<or> \<not> f (sort_Search n f - 1))
   \<and> (sort_Search n f = n \<or> f (sort_Search n f))"
  using search_loop_boundary [of 0 n f n] by (simp add: sort_Search_def)

section \<open>Entries on disk\<close>

definition enc_rec :: "LogRecord \<Rightarrow> bytes" where
  "enc_rec r = entry_bytes (Offset r) (Payload r)"

definition enc_recs :: "LogRecord list \<Rightarrow> bytes" where
  "enc_recs rs = concat (map enc_rec rs)"

definition small :: "LogRecord \<Rightarrow> bool" where
  "small r \<longleftrightarrow> length (Payload r) < 2 ^ 32"

lemma enc_recs_simps [simp]:
  "enc_recs [] = []"
  "enc_recs (r # rs) = enc_rec r @ enc_recs rs"
  "enc_recs (rs @ rs') = enc_recs rs @ enc_recs rs'"
  by (simp_all add: enc_recs_def)

lemma length_enc_rec [simp]: "length (enc_rec r) = 12 + length (Payload r)"
  by (simp add: enc_rec_def entry_bytes_def)

lemma header_of_entry:
  assumes "small r"
  shows "header_offset (take 12 (enc_rec r)) = Offset r"
    and "header_length (take 12 (enc_rec r)) = int (length (Payload r))"
proof -
  have h: "take 12 (enc_rec r)
      = be_put 8 (Offset r) @ be_put 4 (of_nat (length (Payload r)) :: uint32)"
    by (simp add: enc_rec_def entry_bytes_def)
  show "header_offset (take 12 (enc_rec r)) = Offset r"
    by (simp only: h header_offset_def) simp
  have "uint (of_nat (length (Payload r)) :: uint32) = int (length (Payload r))"
    using assms by (simp add: small_def unsigned_of_nat take_bit_nat_eq_self of_nat_take_bit
        flip: of_nat_take_bit)
  then show "header_length (take 12 (enc_rec r)) = int (length (Payload r))"
    by (simp only: h header_length_def) simp
qed

text \<open>A torn tail is what a crash can leave of an entry: a strict prefix of its bytes.\<close>

definition torn :: "bytes \<Rightarrow> bool" where
  "torn t \<longleftrightarrow> length t < 12 \<or> int (length t) < 12 + header_length (take 12 t)"

lemma torn_Nil [simp]: "torn []"
  by (simp add: torn_def)

lemma torn_take: "small r \<Longrightarrow> k < length (enc_rec r) \<Longrightarrow> torn (take k (enc_rec r))"
  using header_of_entry(2) [of r] by (auto simp: torn_def min_def)

section \<open>Scans\<close>

fun budget :: "int \<Rightarrow> int \<Rightarrow> LogRecord list \<Rightarrow> LogRecord list" where
  "budget maxBytes n [] = []"
| "budget maxBytes n (r # rs) =
     (let n = n + int (length (Payload r))
      in r # (if 0 < maxBytes \<and> maxBytes \<le> n then [] else budget maxBytes n rs))"

lemma ReadAt_drop:
  "0 \<le> pos \<Longrightarrow> ReadAt file n pos =
    (if n = 0 then Inr [] else if length (drop (nat pos) file) < n then Inl EOF
     else Inr (take n (drop (nat pos) file)))"
  by (auto simp: ReadAt_def)

lemma drop_past:
  assumes "0 \<le> pos" and "drop (nat pos) file = xs @ ys" and "k = int (length xs)"
  shows "drop (nat (pos + k)) file = ys"
proof -
  have "nat (pos + k) = length xs + nat pos" using assms(1,3) by simp
  then have "drop (nat (pos + k)) file = drop (length xs) (drop (nat pos) file)"
    by (simp add: drop_drop)
  then show ?thesis using assms(2) by simp
qed

lemma read_loop_entries:
  assumes "list_all small rs" and "0 \<le> pos" and "drop (nat pos) file = enc_recs rs"
  shows "read_loop file pos off maxBytes n acc
    = Inr (acc @ budget maxBytes n (filter (\<lambda>r. sint off \<le> sint (Offset r)) rs))"
  using assms
proof (induction rs arbitrary: pos n acc)
  case Nil
  then show ?case by (subst read_loop.simps) (simp add: ReadAt_drop)
next
  case (Cons r rs)
  define pos' where "pos' = pos + 12 + int (length (Payload r))"
  have d: "drop (nat pos) file = enc_rec r @ enc_recs rs" using Cons.prems by simp
  have hdr: "ReadAt file 12 pos = Inr (take 12 (enc_rec r))"
    using Cons.prems(2) by (simp add: ReadAt_drop d)
  have small: "small r" "list_all small rs" using Cons.prems(1) by simp_all
  note h = header_of_entry [OF small(1)]
  have "drop (nat (pos + 12)) file = Payload r @ enc_recs rs"
    by (rule drop_past [OF Cons.prems(2), where xs = "be_put 8 (Offset r)
          @ be_put 4 (of_nat (length (Payload r)) :: uint32)"])
      (simp_all add: d enc_rec_def entry_bytes_def)
  then have pl: "ReadAt file (length (Payload r)) (pos + 12) = Inr (Payload r)"
    using Cons.prems(2) by (simp add: ReadAt_drop)
  have "drop (nat pos') file = enc_recs rs"
    unfolding pos'_def add.assoc by (rule drop_past [OF Cons.prems(2) d]) simp
  then have IH: "read_loop file pos' off maxBytes m acc'
      = Inr (acc' @ budget maxBytes m (filter (\<lambda>r. sint off \<le> sint (Offset r)) rs))" for m acc'
    using Cons.IH [OF small(2), of pos'] Cons.prems(2) by (simp add: pos'_def)
  show ?case
    by (subst read_loop.simps)
      (simp add: hdr h pl IH [unfolded pos'_def] entryHeaderSize_def Let_def not_less
        linorder_not_le)
qed

lemma recover_loop_entries:
  assumes "list_all small rs" and "0 \<le> pos" and "drop (nat pos) file = enc_recs rs @ t"
    and "pos \<le> int (length file)" and "torn t"
  shows "recover_loop file pos nxt
    = (if rs = [] then nxt else Offset (last rs) + 1, pos + int (length (enc_recs rs)))"
  using assms
proof (induction rs arbitrary: pos nxt)
  case Nil
  have len: "int (length file) = pos + int (length t)"
    using arg_cong [OF Nil.prems(3), of length] Nil.prems(2,4) by auto
  then show ?case using Nil.prems
    by (subst recover_loop.simps) (auto simp: entryHeaderSize_def file_header_def torn_def Let_def)
next
  case (Cons r rs)
  define pos' where "pos' = pos + 12 + int (length (Payload r))"
  have d: "drop (nat pos) file = enc_rec r @ enc_recs rs @ t" using Cons.prems by simp
  have len: "int (length file) = pos + 12 + int (length (Payload r)) + int (length (enc_recs rs @ t))"
    using arg_cong [OF d, of length] Cons.prems(2,4) by auto
  have small: "small r" "list_all small rs" using Cons.prems(1) by simp_all
  note h = header_of_entry [OF small(1)]
  have "drop (nat pos') file = enc_recs rs @ t"
    unfolding pos'_def add.assoc by (rule drop_past [OF Cons.prems(2) d]) simp
  then have IH: "recover_loop file pos' m
      = (if rs = [] then m else Offset (last rs) + 1, pos' + int (length (enc_recs rs)))" for m
    using Cons.IH [OF small(2), of pos'] Cons.prems(2,5) len by (simp add: pos'_def)
  show ?case using Cons.prems(2) len
    by (subst recover_loop.simps)
      (simp add: file_header_def d h entryHeaderSize_def Let_def IH [unfolded pos'_def add.assoc]
        add.assoc)
qed

section \<open>The sparse index\<close>

text \<open>
  The index the code keeps for a sequence of entries that starts at position \<open>pos\<close>, where
  \<open>lastPos\<close> is the position of the last indexed entry: one entry per interval of at least
  \<^const>\<open>indexIntervalBytes\<close>.
\<close>

fun idx_of :: "int64 \<Rightarrow> int \<Rightarrow> int \<Rightarrow> LogRecord list \<Rightarrow> indexEntry list" where
  "idx_of base pos lastPos [] = []"
| "idx_of base pos lastPos (r # rs) =
     (if indexIntervalBytes \<le> pos - lastPos then
        \<lparr>relOffset = ucast (Offset r - base), position = word_of_int pos\<rparr>
        # idx_of base (pos + int (length (enc_rec r))) pos rs
      else idx_of base (pos + int (length (enc_rec r))) lastPos rs)"

fun idx_last :: "int \<Rightarrow> int \<Rightarrow> LogRecord list \<Rightarrow> int" where
  "idx_last pos lastPos [] = lastPos"
| "idx_last pos lastPos (r # rs) =
     idx_last (pos + int (length (enc_rec r)))
       (if indexIntervalBytes \<le> pos - lastPos then pos else lastPos) rs"

lemma idx_of_snoc:
  "idx_of base pos lastPos (rs @ [r]) = idx_of base pos lastPos rs
    @ (let q = pos + int (length (enc_recs rs))
       in if indexIntervalBytes \<le> q - idx_last pos lastPos rs
          then [\<lparr>relOffset = ucast (Offset r - base), position = word_of_int q\<rparr>] else [])"
  by (induction rs arbitrary: pos lastPos) (auto simp: Let_def add.assoc)

lemma idx_last_snoc:
  "idx_last pos lastPos (rs @ [r]) =
    (let q = pos + int (length (enc_recs rs))
     in if indexIntervalBytes \<le> q - idx_last pos lastPos rs then q else idx_last pos lastPos rs)"
  by (induction rs arbitrary: pos lastPos) (auto simp: Let_def add.assoc)

lemma rebuild_loop_entries:
  assumes "list_all small rs" and "0 \<le> pos" and "drop (nat pos) file = enc_recs rs"
    and "pos \<le> int (length file)"
  shows "rebuild_loop file base pos lastPos = idx_of base pos lastPos rs"
  using assms
proof (induction rs arbitrary: pos lastPos)
  case Nil
  then show ?case by (subst rebuild_loop.simps) (auto simp: entryHeaderSize_def)
next
  case (Cons r rs)
  define pos' where "pos' = pos + 12 + int (length (Payload r))"
  have d: "drop (nat pos) file = enc_rec r @ enc_recs rs" using Cons.prems by simp
  have len: "int (length file) = pos + 12 + int (length (Payload r)) + int (length (enc_recs rs))"
    using arg_cong [OF d, of length] Cons.prems(2,4) by auto
  have small: "small r" "list_all small rs" using Cons.prems(1) by simp_all
  note h = header_of_entry [OF small(1)]
  have "drop (nat pos') file = enc_recs rs"
    unfolding pos'_def add.assoc by (rule drop_past [OF Cons.prems(2) d]) simp
  then have IH: "rebuild_loop file base pos' m = idx_of base pos' m rs" for m
    using Cons.IH [OF small(2), of pos'] Cons.prems(2) len by (simp add: pos'_def)
  show ?case using Cons.prems(2) len
    by (subst rebuild_loop.simps)
      (simp add: file_header_def d h entryHeaderSize_def Let_def IH [unfolded pos'_def add.assoc])
qed

text \<open>Every index entry points at the start of an entry of the log.\<close>

lemma idx_of_points:
  "e \<in> set (idx_of base pos lastPos rs) \<Longrightarrow>
    \<exists>k < length rs. relOffset e = ucast (Offset (rs ! k) - base)
      \<and> position e = word_of_int (pos + int (length (enc_recs (take k rs))))"
proof (induction rs arbitrary: pos lastPos)
  case (Cons r rs)
  show ?case
  proof (cases "relOffset e = ucast (Offset r - base) \<and> position e = word_of_int pos")
    case True
    then show ?thesis by (intro exI [of _ 0]) simp
  next
    case False
    then have "e \<in> set (idx_of base (pos + int (length (enc_rec r)))
        (if indexIntervalBytes \<le> pos - lastPos then pos else lastPos) rs)"
      using Cons.prems by (auto split: if_splits)
    from Cons.IH [OF this] obtain k where "k < length rs"
      "relOffset e = ucast (Offset (rs ! k) - base)"
      "position e = word_of_int (pos + int (length (enc_rec r)) + int (length (enc_recs (take k rs))))"
      by blast
    then show ?thesis by (intro exI [of _ "Suc k"]) (simp add: add.assoc)
  qed
qed simp

section \<open>Segments\<close>

text \<open>The records held by the bytes of a log file, read until the first incomplete entry.\<close>

function parse_entries :: "bytes \<Rightarrow> LogRecord list" where
  "parse_entries bs =
     (if torn bs then []
      else (let len = nat (header_length (take 12 bs))
            in \<lparr>Offset = header_offset (take 12 bs), Payload = take len (drop 12 bs)\<rparr>
               # parse_entries (drop (12 + len) bs)))"
  by pat_completeness auto
termination
  by (relation "measure length") (auto simp: torn_def)

declare parse_entries.simps [simp del]

lemma parse_enc_recs:
  "list_all small rs \<Longrightarrow> torn t \<Longrightarrow> parse_entries (enc_recs rs @ t) = rs"
proof (induction rs)
  case Nil
  then show ?case by (subst parse_entries.simps) simp
next
  case (Cons r rs)
  have h: "header_offset (take 12 (enc_rec r)) = Offset r"
    "header_length (take 12 (enc_rec r)) = int (length (Payload r))"
    using Cons.prems(1) header_of_entry by auto
  have "\<not> torn (enc_rec r @ enc_recs rs @ t)" by (simp add: torn_def h)
  moreover have "drop 12 (enc_rec r) = Payload r" by (simp add: enc_rec_def entry_bytes_def)
  ultimately show ?case using Cons
    by (subst parse_entries.simps) (simp add: h Let_def)
qed

definition seg_entries :: "segment \<Rightarrow> LogRecord list" where
  "seg_entries s = parse_entries (logFile s)"

text \<open>
  The invariant of a segment: its file is the encoding of its records, whose offsets count up
  from the base offset, with a torn tail only after a failed write; all entries but the last
  fit the segment limit, so that positions fit 32 bits; the index is the one its records
  determine.
\<close>

definition consecutive :: "int \<Rightarrow> LogRecord list \<Rightarrow> bool" where
  "consecutive b rs \<longleftrightarrow> (\<forall>i < length rs. sint (Offset (rs ! i)) = b + int i)"

definition seg_rep :: "segment \<Rightarrow> LogRecord list \<Rightarrow> bytes \<Rightarrow> bool" where
  "seg_rep s rs t \<longleftrightarrow>
     logFile s = enc_recs rs @ t \<and> torn t \<and> list_all small rs
     \<and> logSize s = int (length (enc_recs rs))
     \<and> 0 \<le> sint (baseOffset s) \<and> consecutive (sint (baseOffset s)) rs
     \<and> int (length (enc_recs (butlast rs))) \<le> maxSegmentBytes
     \<and> (if logErr s then True
        else t = [] \<and> index s = idx_of (baseOffset s) 0 0 rs \<and> lastIndexPos s = idx_last 0 0 rs)"

definition seg_inv :: "segment \<Rightarrow> bool" where
  "seg_inv s \<longleftrightarrow> (\<exists>t. seg_rep s (seg_entries s) t)"

lemma seg_rep_entries: "seg_rep s rs t \<Longrightarrow> seg_entries s = rs"
  by (simp add: seg_rep_def seg_entries_def parse_enc_recs)

lemma seg_rep_inv: "seg_rep s rs t \<Longrightarrow> seg_inv s"
  using seg_rep_entries by (auto simp: seg_inv_def)

lemma seg_inv_createSegment [inv_rules]:
  "0 \<le> sint base \<Longrightarrow> seg_rep (createSegment base) [] []"
  by (simp add: seg_rep_def createSegment_def consecutive_def maxSegmentBytes_def)

lemma consecutive_simps [simp]:
  "consecutive b []"
  "consecutive b (r # rs) \<longleftrightarrow> sint (Offset r) = b \<and> consecutive (b + 1) rs"
  by (auto simp: consecutive_def All_less_Suc2 algebra_simps)

lemma consecutive_append [simp]:
  "consecutive b (rs @ rs') \<longleftrightarrow> consecutive b rs \<and> consecutive (b + int (length rs)) rs'"
  by (induction rs arbitrary: b) (auto simp: add.assoc)

lemma consecutive_drop: "consecutive b rs \<Longrightarrow> k \<le> length rs \<Longrightarrow> consecutive (b + int k) (drop k rs)"
  using consecutive_append [of b "take k rs" "drop k rs"] by simp

lemma filter_consecutive:
  "consecutive b rs \<Longrightarrow> b \<le> o' \<Longrightarrow>
    filter (\<lambda>r. o' \<le> sint (Offset r)) rs = drop (nat (o' - b)) rs"
proof (induction rs arbitrary: b)
  case (Cons r rs)
  show ?case
  proof (cases "o' = b")
    case True
    have "\<forall>x \<in> set rs. b \<le> sint (Offset x)"
      using Cons.prems(1) unfolding consecutive_simps by (auto simp: consecutive_def in_set_conv_nth)
    then show ?thesis using True Cons.prems by simp
  next
    case False
    then have "nat (o' - b) = Suc (nat (o' - (b + 1)))" using Cons.prems(2) by simp
    then show ?thesis using Cons False by simp
  qed
qed simp

lemma enc_recs_take_bounds:
  "12 * k \<le> length (enc_recs (take k rs))" if "k \<le> length rs"
  using that
proof (induction k arbitrary: rs)
  case (Suc k)
  then obtain r rs' where "rs = r # rs'" "k \<le> length rs'" by (cases rs) auto
  then show ?case using Suc.IH [of rs'] by simp
qed simp

lemma enc_recs_take_butlast:
  "k < length rs \<Longrightarrow> length (enc_recs (take k rs)) \<le> length (enc_recs (butlast rs))"
proof -
  assume "k < length rs"
  then have "butlast rs = take k rs @ drop k (butlast rs)"
    using append_take_drop_id [of k "butlast rs"] by (simp add: butlast_conv_take)
  then show ?thesis by (metis enc_recs_simps(3) le_add1 length_append)
qed

lemma seg_index_points:
  assumes "seg_rep s rs t" "\<not> logErr s" "e \<in> set (index s)"
  shows "\<exists>k < length rs. sint (relOffset e) = int k
    \<and> sint (position e) = int (length (enc_recs (take k rs)))"
proof -
  have "e \<in> set (idx_of (baseOffset s) 0 0 rs)" using assms by (simp add: seg_rep_def)
  then obtain k where k: "k < length rs" "relOffset e = ucast (Offset (rs ! k) - baseOffset s)"
    "position e = word_of_int (int (length (enc_recs (take k rs))))"
    using idx_of_points by fastforce
  have pos: "int (length (enc_recs (take k rs))) \<le> 2 ^ 20"
    using enc_recs_take_butlast [OF k(1)] assms(1) by (simp add: seg_rep_def maxSegmentBytes_def)
  have le: "int k \<le> 2 ^ 20"
    using enc_recs_take_bounds [of k rs] k(1) pos by simp
  have "sint (Offset (rs ! k)) = sint (baseOffset s) + int k"
    using assms(1) k(1) by (simp add: seg_rep_def consecutive_def)
  then have "sint (Offset (rs ! k) - baseOffset s) = int k"
    using sint_sub_64 [of "Offset (rs ! k)" "baseOffset s"] le by simp
  then have "relOffset e = word_of_int (int k)"
    using k(2) ucast_of_sint by metis
  then show ?thesis
    using k(1,3) pos le sint_of_int_32 [of "int k"]
      sint_of_int_32 [of "int (length (enc_recs (take k rs)))"]
    by (intro exI [of _ k]) simp
qed

lemma startPosition_entry:
  assumes "seg_rep s rs t" "\<not> logErr s" "sint (baseOffset s) \<le> sint off"
  shows "\<exists>k \<le> length rs. startPosition s off = int (length (enc_recs (take k rs)))
    \<and> sint (baseOffset s) + int k \<le> sint off"
proof -
  define rel where "rel = (ucast (off - baseOffset s) :: int32)"
  define j where "j = sort_Search (length (index s)) (\<lambda>j. sint rel < sint (relOffset (index s ! j)))"
  have sp: "startPosition s off = (if j = 0 then 0 else sint (position (index s ! (j - 1))))"
    by (simp add: startPosition_def rel_def j_def)
  show ?thesis
  proof (cases "j = 0")
    case True
    then show ?thesis using sp assms(3) by (intro exI [of _ 0]) simp
  next
    case False
    have j: "j \<le> length (index s)" "\<not> sint rel < sint (relOffset (index s ! (j - 1)))"
      using sort_Search_boundary [of "length (index s)"
          "\<lambda>j. sint rel < sint (relOffset (index s ! j))"] False
      unfolding j_def [symmetric] by auto
    have "index s ! (j - 1) \<in> set (index s)" using j(1) False by simp
    from seg_index_points [OF assms(1,2) this] obtain k where
      k: "k < length rs" "sint (relOffset (index s ! (j - 1))) = int k"
        "sint (position (index s ! (j - 1))) = int (length (enc_recs (take k rs)))" by blast
    have "int k \<le> 2 ^ 20"
      using enc_recs_take_bounds [of k rs] enc_recs_take_butlast [OF k(1)] k(1) assms(1)
      by (simp add: seg_rep_def maxSegmentBytes_def)
    moreover have diff: "sint (off - baseOffset s) = sint off - sint (baseOffset s)"
      using assms(1,3) sint_range_64 [of off] sint_range_64 [of "baseOffset s"]
      by (intro sint_sub_64) (auto simp: seg_rep_def)
    moreover have "sint rel = sint off - sint (baseOffset s)"
      if "sint off - sint (baseOffset s) < 2 ^ 31"
    proof -
      have "rel = word_of_int (sint off - sint (baseOffset s))"
        unfolding rel_def using diff by (rule ucast_of_sint)
      then show ?thesis using that assms(3) sint_of_int_32 [of "sint off - sint (baseOffset s)"]
        by simp
    qed
    ultimately have "int k \<le> sint off - sint (baseOffset s)"
      using j(2) k(2) by (cases "sint off - sint (baseOffset s) < 2 ^ 31") auto
    then show ?thesis using k sp False by (intro exI [of _ k]) simp
  qed
qed

lemma readRecords_segment:
  assumes "seg_rep s rs t" "\<not> logErr s" "sint (baseOffset s) \<le> sint off"
  shows "readRecords (logFile s) (startPosition s off) off maxBytes
    = Inr (budget maxBytes 0 (drop (nat (sint off - sint (baseOffset s))) rs))"
proof -
  obtain k where k: "k \<le> length rs" "startPosition s off = int (length (enc_recs (take k rs)))"
    "sint (baseOffset s) + int k \<le> sint off"
    using startPosition_entry [OF assms] by blast
  have lf: "logFile s = enc_recs (take k rs) @ enc_recs (drop k rs)"
    using assms(1,2) by (simp add: seg_rep_def flip: enc_recs_simps(3))
  have "list_all small (drop k rs)" "consecutive (sint (baseOffset s) + int k) (drop k rs)"
    using assms(1) k(1) consecutive_drop by (auto simp: seg_rep_def list_all_iff dest: in_set_dropD)
  then have "readRecords (logFile s) (startPosition s off) off maxBytes
      = Inr (budget maxBytes 0 (drop (nat (sint off - (sint (baseOffset s) + int k))) (drop k rs)))"
    using k(3) by (simp add: readRecords_def k(2) read_loop_entries lf filter_consecutive)
  also have "drop (nat (sint off - (sint (baseOffset s) + int k))) (drop k rs)
      = drop (nat (sint off - sint (baseOffset s))) rs"
  proof -
    have "nat (sint off - (sint (baseOffset s) + int k)) + k = nat (sint off - sint (baseOffset s))"
      using k(3) by arith
    then show ?thesis by (simp only: drop_drop)
  qed
  finally show ?thesis .
qed

section \<open>Appending to a segment\<close>

lemma seg_append_ok:
  assumes "seg_rep s rs t" "\<not> logErr s" "sint off = sint (baseOffset s) + int (length rs)"
    and "length p < 2 ^ 32" "sz = 12 + int (length p)"
    and "logSize s = 0 \<or> logSize s + sz \<le> maxSegmentBytes"
    and "maybeWriteIndex io s off (logSize s) = (s1, None)"
    and "write_entry io s1 off p sz = (s2, None)"
  shows "seg_rep s2 (rs @ [\<lparr>Offset = off, Payload = p\<rparr>]) [] \<and> \<not> logErr s2
    \<and> baseOffset s2 = baseOffset s"
proof -
  let ?r = "\<lparr>Offset = off, Payload = p\<rparr>"
  have rep: "logFile s = enc_recs rs" "list_all small rs" "logSize s = int (length (enc_recs rs))"
    "0 \<le> sint (baseOffset s)" "consecutive (sint (baseOffset s)) rs"
    "index s = idx_of (baseOffset s) 0 0 rs" "lastIndexPos s = idx_last 0 0 rs"
    using assms(1,2) by (auto simp: seg_rep_def)
  have s1: "s1 = s\<lparr>index := index s1, lastIndexPos := lastIndexPos s1, indexFile := indexFile s1\<rparr>"
    "index s1 = idx_of (baseOffset s) 0 0 (rs @ [?r])" "lastIndexPos s1 = idx_last 0 0 (rs @ [?r])"
    using assms(7) rep
    by (auto simp: maybeWriteIndex_def idx_of_snoc idx_last_snoc Let_def not_less
        split: if_splits option.splits)
  have s1e: "logErr s1 = logErr s" "logFile s1 = logFile s" "logSize s1 = logSize s"
    "baseOffset s1 = baseOffset s"
    by (subst s1(1), simp)+
  have s2: "s2 = s1\<lparr>logFile := logFile s1 @ entry_bytes off p, logSize := logSize s1 + sz\<rparr>"
    using assms(2,8) s1e(1) by (auto simp: write_entry_def Let_def split: option.splits)
  show ?thesis
    using rep s1(2,3) s1e assms(2-6)
    by (auto simp: seg_rep_def s2 enc_rec_def small_def maxSegmentBytes_def entry_bytes_def)
qed

lemma seg_append_err:
  assumes "seg_rep s rs t" "length p < 2 ^ 32"
  shows "maybeWriteIndex io s off pos = (s1, Some e) \<Longrightarrow>
      seg_rep s1 rs t \<and> baseOffset s1 = baseOffset s \<and> logErr s1 = logErr s"
    and "maybeWriteIndex io s off pos = (s1, None) \<Longrightarrow> write_entry io s1 off p sz = (s2, Some e)
      \<Longrightarrow> (\<exists>t'. seg_rep s2 rs t') \<and> baseOffset s2 = baseOffset s \<and> logErr s2"
proof -
  assume "maybeWriteIndex io s off pos = (s1, Some e)"
  then show "seg_rep s1 rs t \<and> baseOffset s1 = baseOffset s \<and> logErr s1 = logErr s"
    using assms by (auto simp: maybeWriteIndex_def Let_def seg_rep_def split: if_splits option.splits)
next
  assume m: "maybeWriteIndex io s off pos = (s1, None)"
    and w: "write_entry io s1 off p sz = (s2, Some e)"
  have s1: "s1 = s\<lparr>index := index s1, lastIndexPos := lastIndexPos s1, indexFile := indexFile s1\<rparr>"
    using m by (auto simp: maybeWriteIndex_def Let_def split: if_splits option.splits)
  have s1e: "logErr s1 = logErr s" "logFile s1 = logFile s" "logSize s1 = logSize s"
    "baseOffset s1 = baseOffset s"
    by (subst s1, simp)+
  have rep: "logFile s = enc_recs rs @ t" "torn t" "list_all small rs"
    "logSize s = int (length (enc_recs rs))" "0 \<le> sint (baseOffset s)"
    "consecutive (sint (baseOffset s)) rs" "int (length (enc_recs (butlast rs))) \<le> maxSegmentBytes"
    "\<not> logErr s \<Longrightarrow> t = []"
    using assms(1) by (auto simp: seg_rep_def)
  show "(\<exists>t'. seg_rep s2 rs t') \<and> baseOffset s2 = baseOffset s \<and> logErr s2"
  proof (cases "logErr s")
    case True
    then have "s2 = s1" using w s1e(1) by (simp add: write_entry_def)
    then show ?thesis using rep s1e True by (auto simp: seg_rep_def)
  next
    case False
    let ?e = "enc_rec \<lparr>Offset = off, Payload = p\<rparr>"
    obtain k where s2: "s2 = s1\<lparr>logFile := logFile s1 @ take (min k (length ?e - 1)) ?e, logErr := True\<rparr>"
      using w False s1e(1) by (auto simp: write_entry_def Let_def enc_rec_def split: option.splits)
    have "min k (length ?e - 1) < length ?e" by simp
    then have "torn (take (min k (length ?e - 1)) ?e)"
      using assms(2) by (intro torn_take) (simp_all add: small_def)
    then show ?thesis using rep s1e False by (auto simp: seg_rep_def s2)
  qed
qed

section \<open>The log as a sequence of records\<close>

definition log_entries :: "Log \<Rightarrow> LogRecord list" where
  "log_entries l = concat (map seg_entries (segments l))"

definition sealed :: "segment \<Rightarrow> bool" where
  "sealed s \<longleftrightarrow> \<not> logErr s \<and> seg_entries s \<noteq> []"

fun segs_inv :: "int \<Rightarrow> segment list \<Rightarrow> bool" where
  "segs_inv b [] = True"
| "segs_inv b (s # ss) =
     (sint (baseOffset s) = b \<and> seg_inv s \<and> (ss \<noteq> [] \<longrightarrow> sealed s)
      \<and> segs_inv (b + int (length (seg_entries s))) ss)"

definition log_inv :: "Log \<Rightarrow> bool" where
  "log_inv l \<longleftrightarrow>
     segments l \<noteq> [] \<and> segs_inv (sint (StartOffset l)) (segments l)
     \<and> sint (nextOffset l) = sint (StartOffset l) + int (length (log_entries l))"

lemma segs_inv_snoc:
  "segs_inv b (ss @ [s]) \<longleftrightarrow>
    segs_inv b ss \<and> list_all sealed ss \<and> seg_inv s
    \<and> sint (baseOffset s) = b + int (length (concat (map seg_entries ss)))"
  by (induction ss arbitrary: b) (auto simp: add.assoc)

lemma segs_inv_nth:
  "segs_inv b ss \<Longrightarrow> k < length ss \<Longrightarrow>
    seg_inv (ss ! k) \<and> (Suc k < length ss \<longrightarrow> sealed (ss ! k))
    \<and> sint (baseOffset (ss ! k)) = b + int (length (concat (map seg_entries (take k ss))))"
proof (induction ss arbitrary: b k)
  case (Cons s ss)
  then show ?case by (cases k) (auto simp: add.assoc)
qed simp

lemma seg_inv_rep: "seg_inv s \<longleftrightarrow> (\<exists>t. seg_rep s (seg_entries s) t)"
  by (simp add: seg_inv_def)

lemma log_inv_active:
  assumes "log_inv l"
  obtains ss s t where "segments l = ss @ [s]" "list_all sealed ss"
    "segs_inv (sint (StartOffset l)) ss" "seg_rep s (seg_entries s) t"
    "sint (baseOffset s) = sint (StartOffset l) + int (length (concat (map seg_entries ss)))"
proof -
  obtain ss s where s: "segments l = ss @ [s]"
    using assms by (metis append_butlast_last_id log_inv_def)
  then show ?thesis using that [OF s] assms by (auto simp: log_inv_def segs_inv_snoc seg_inv_rep)
qed

section \<open>Append\<close>

text \<open>Rolling keeps the records and leaves an active segment with room for the entry.\<close>

lemma roll_cases:
  assumes "log_inv l" "roll io (segments l) (nextOffset l) sz = Some segs"
  obtains ss s t where "segs = ss @ [s]" "list_all sealed ss"
    "segs_inv (sint (StartOffset l)) ss" "seg_rep s (seg_entries s) t"
    "sint (baseOffset s) = sint (StartOffset l) + int (length (concat (map seg_entries ss)))"
    "concat (map seg_entries ss) @ seg_entries s = log_entries l"
    "logSize s = 0 \<or> logSize s + sz \<le> maxSegmentBytes"
    "sint (nextOffset l) = sint (baseOffset s) + int (length (seg_entries s))"
proof (cases "0 < logSize (last (segments l)) \<and> maxSegmentBytes < logSize (last (segments l)) + sz")
  case False
  obtain ss s t where a: "segments l = ss @ [s]" "list_all sealed ss"
    "segs_inv (sint (StartOffset l)) ss" "seg_rep s (seg_entries s) t"
    "sint (baseOffset s) = sint (StartOffset l) + int (length (concat (map seg_entries ss)))"
    using assms(1) by (rule log_inv_active)
  have "segs = segments l" using assms(2) False by (simp add: roll_def Let_def split: if_splits)
  moreover have "0 \<le> logSize s" using a(4) by (simp add: seg_rep_def)
  ultimately show ?thesis
    using that [of ss s t] a False assms(1) by (auto simp: log_entries_def log_inv_def)
next
  case True
  obtain ss s t where a: "segments l = ss @ [s]" "list_all sealed ss"
    "segs_inv (sint (StartOffset l)) ss" "seg_rep s (seg_entries s) t"
    "sint (baseOffset s) = sint (StartOffset l) + int (length (concat (map seg_entries ss)))"
    using assms(1) by (rule log_inv_active)
  let ?c = "createSegment (nextOffset l)"
  have segs: "segs = (ss @ [s]) @ [?c]" "\<not> logErr s"
    using assms(2) True a(1) by (auto simp: roll_def Let_def flush_def split: if_splits)
  have "seg_entries s \<noteq> []"
  proof
    assume "seg_entries s = []"
    then have "logSize s = 0" using a(4) by (simp add: seg_rep_def)
    then show False using True a(1) by simp
  qed
  then have sealed: "list_all sealed (ss @ [s])" using a(2) segs(2) by (simp add: sealed_def)
  have nx: "sint (nextOffset l) = sint (StartOffset l)
      + int (length (concat (map seg_entries (ss @ [s]))))"
    using assms(1) a(1) by (simp add: log_inv_def log_entries_def)
  have "0 \<le> sint (nextOffset l)" using nx a(4,5) by (simp add: seg_rep_def)
  then have c: "seg_rep ?c [] []" by (rule seg_inv_createSegment)
  then have ce: "seg_entries ?c = []" by (rule seg_rep_entries)
  have "segs_inv (sint (StartOffset l)) (ss @ [s])"
    using assms(1) a(1) by (simp add: log_inv_def)
  then show ?thesis
    using that [of "ss @ [s]" ?c "[]"] segs(1) sealed c ce nx a(1)
    by (simp add: log_entries_def createSegment_def)
qed

lemma log_inv_segments:
  assumes "list_all sealed ss" "segs_inv b ss" "seg_rep s rs t"
    "sint (baseOffset s) = b + int (length (concat (map seg_entries ss)))"
    "sint nxt = sint (baseOffset s) + int (length rs)"
    "sint (StartOffset l) = b" "segments l \<noteq> []"
    "ss = [] \<longrightarrow> baseOffset s = StartOffset l" "ss \<noteq> [] \<longrightarrow> baseOffset (hd ss) = StartOffset l"
  shows "log_inv (l\<lparr>segments := ss @ [s], nextOffset := nxt, disk := d\<rparr>)"
    "log_entries (l\<lparr>segments := ss @ [s], nextOffset := nxt, disk := d\<rparr>)
      = concat (map seg_entries ss) @ rs"
    "StartOffset (l\<lparr>segments := ss @ [s], nextOffset := nxt, disk := d\<rparr>) = StartOffset l"
proof -
  have e: "seg_entries s = rs" "seg_inv s"
    using seg_rep_entries [OF assms(3)] seg_rep_inv [OF assms(3)] .
  show "log_entries (l\<lparr>segments := ss @ [s], nextOffset := nxt, disk := d\<rparr>)
      = concat (map seg_entries ss) @ rs"
    using e by (simp add: log_entries_def)
  show "StartOffset (l\<lparr>segments := ss @ [s], nextOffset := nxt, disk := d\<rparr>) = StartOffset l"
    using assms(8,9) by (cases ss) (simp_all add: StartOffset_def)
  then show "log_inv (l\<lparr>segments := ss @ [s], nextOffset := nxt, disk := d\<rparr>)"
    using assms e by (simp add: log_inv_def log_entries_def segs_inv_snoc)
qed

lemma segs_inv_hd: "segs_inv b ss \<Longrightarrow> ss \<noteq> [] \<Longrightarrow> sint (baseOffset (hd ss)) = b"
  by (cases ss) auto

lemma append_entry_cases:
  assumes "seg_rep s rs t" "sint off = sint (baseOffset s) + int (length rs)"
    and "length p < 2 ^ 32" "sz = 12 + int (length p)"
    and "logSize s = 0 \<or> logSize s + sz \<le> maxSegmentBytes"
    and "append_entry io s off p sz = (s2, e)"
  shows "baseOffset s2 = baseOffset s \<and>
    (\<exists>t'. seg_rep s2 (if e = None then rs @ [\<lparr>Offset = off, Payload = p\<rparr>] else rs) t')
    \<and> (e = None \<or> e = Some ErrIO)"
proof -
  obtain s1 e1 where m: "maybeWriteIndex io s off (logSize s) = (s1, e1)" by fastforce
  have io_err: "e1 = None \<or> e1 = Some ErrIO"
    using m by (auto simp: maybeWriteIndex_def Let_def split: if_splits option.splits)
  show ?thesis
  proof (cases e1)
    case (Some err)
    then have "s2 = s1" "e = e1" using m assms(6) by (simp_all add: append_entry_def)
    moreover have "seg_rep s1 rs t \<and> baseOffset s1 = baseOffset s"
      using seg_append_err(1) [OF assms(1,3)] m Some by blast
    ultimately show ?thesis using io_err Some by auto
  next
    case None
    then have w: "write_entry io s1 off p sz = (s2, e)"
      using assms(6) m by (simp add: append_entry_def)
    have "e = None \<or> e = Some ErrIO"
      using w by (auto simp: write_entry_def Let_def split: if_splits option.splits)
    moreover have "\<not> logErr s" if "e = None"
      using w m None that
      by (auto simp: write_entry_def maybeWriteIndex_def Let_def split: if_splits option.splits)
    ultimately show ?thesis
      using seg_append_ok [OF assms(1) _ assms(2-5), of io s1 s2]
        seg_append_err(2) [OF assms(1,3), of io off "logSize s" s1 sz s2] m None w
      by (cases e) auto
  qed
qed

lemma AppendWithOffset_roll:
  assumes "segments l \<noteq> []" "io = (if disk l = [] then no_faults else hd (disk l))"
    and "sz = entryHeaderSize + int (length p)"
    and "roll io (segments l) (nextOffset l) sz = Some (ss @ [s])"
    and "append_entry io s (nextOffset l) (stamp (nextOffset l) p) sz = (s2, e)"
  shows "AppendWithOffset l p stamp =
        (l\<lparr>segments := ss @ [s2],
           nextOffset := (if e = None then nextOffset l + 1 else nextOffset l),
           disk := tl (disk l)\<rparr>,
         case e of None \<Rightarrow> Inr (nextOffset l) | Some err \<Rightarrow> Inl err)"
  unfolding AppendWithOffset_def Let_def if_not_P [OF assms(1)] assms(2,3) [symmetric] assms(4)
    option.case last_snoc butlast_snoc assms(5)
  by (cases e) simp_all

text \<open>
  An append that reports an offset has added exactly the stamped payload at that offset; one
  that reports an error has changed nothing of the sequence.
\<close>

lemma AppendWithOffset_sound:
  assumes "log_inv l" "AppendWithOffset l p stamp = (l', res)"
    and "length p < 2 ^ 32" "length (stamp (nextOffset l) p) = length p"
    and "sint (nextOffset l) < 2 ^ 63 - 1"
  shows "log_inv l' \<and> StartOffset l' = StartOffset l \<and>
    (case res of
       Inl e \<Rightarrow> e = ErrIO \<and> log_entries l' = log_entries l \<and> nextOffset l' = nextOffset l
     | Inr off \<Rightarrow> off = nextOffset l \<and> nextOffset l' = off + 1
         \<and> log_entries l' = log_entries l @ [\<lparr>Offset = off, Payload = stamp off p\<rparr>])"
proof -
  define io where "io = (if disk l = [] then no_faults else hd (disk l))"
  define sz where "sz = entryHeaderSize + int (length p)"
  have ne: "segments l \<noteq> []" using assms(1) by (simp add: log_inv_def)
  show ?thesis
  proof (cases "roll io (segments l) (nextOffset l) sz")
    case None
    then have "l' = l\<lparr>disk := tl (disk l)\<rparr>" "res = Inl ErrIO"
      using assms(2) ne by (simp_all add: AppendWithOffset_def Let_def flip: io_def sz_def)
    then show ?thesis
      using assms(1) ne by (simp add: log_inv_def log_entries_def StartOffset_def)
  next
    case (Some segs)
    obtain ss s t where a: "segs = ss @ [s]" "list_all sealed ss"
      "segs_inv (sint (StartOffset l)) ss" "seg_rep s (seg_entries s) t"
      "sint (baseOffset s) = sint (StartOffset l) + int (length (concat (map seg_entries ss)))"
      "concat (map seg_entries ss) @ seg_entries s = log_entries l"
      "logSize s = 0 \<or> logSize s + sz \<le> maxSegmentBytes"
      "sint (nextOffset l) = sint (baseOffset s) + int (length (seg_entries s))"
      using assms(1) Some by (rule roll_cases)
    obtain s2 e where sa: "append_entry io s (nextOffset l) (stamp (nextOffset l) p) sz = (s2, e)"
      by fastforce
    have "length (stamp (nextOffset l) p) < 2 ^ 32" "sz = 12 + int (length (stamp (nextOffset l) p))"
      using assms(3,4) by (simp_all add: sz_def entryHeaderSize_def)
    note s2 = append_entry_cases [OF a(4,8) this a(7) sa]
    define rs where "rs = (if e = None
      then seg_entries s @ [\<lparr>Offset = nextOffset l, Payload = stamp (nextOffset l) p\<rparr>]
      else seg_entries s)"
    define nxt where "nxt = (if e = None then nextOffset l + 1 else nextOffset l)"
    obtain t' where t': "seg_rep s2 rs t'" using s2 unfolding rs_def by blast
    have "sint (nextOffset l + 1) = sint (nextOffset l) + 1"
      using sint_add_64 [of "nextOffset l" 1] assms(5) sint_range_64 [of "nextOffset l"] by simp
    then have nxt: "sint nxt = sint (baseOffset s2) + int (length rs)"
      using a(8) s2 by (simp add: nxt_def rs_def)
    have "ss = [] \<longrightarrow> baseOffset s2 = StartOffset l"
      "ss \<noteq> [] \<longrightarrow> baseOffset (hd ss) = StartOffset l"
      using a(5) segs_inv_hd [OF a(3)] s2 by auto
    note inv = log_inv_segments [OF a(2,3) t' _ nxt refl ne this, where d = "tl (disk l)"]
    have "l' = l\<lparr>segments := ss @ [s2], nextOffset := nxt, disk := tl (disk l)\<rparr>"
      "res = (case e of None \<Rightarrow> Inr (nextOffset l) | Some err \<Rightarrow> Inl err)"
      using assms(2) AppendWithOffset_roll [OF ne io_def sz_def Some [unfolded a(1)], where stamp = stamp] sa
      by (simp_all add: nxt_def)
    then show ?thesis
      using inv a(5,6) s2 by (cases e) (simp_all add: rs_def nxt_def)
  qed
qed

lemma AppendWithOffset_complete:
  assumes "log_inv l" "\<not> logErr (last (segments l))" "disk l = [] \<or> hd (disk l) = no_faults"
  shows "\<exists>l' off. AppendWithOffset l p stamp = (l', Inr off) \<and> \<not> logErr (last (segments l'))
    \<and> disk l' = tl (disk l)"
  using assms
  by (auto simp: AppendWithOffset_def roll_def append_entry_def maybeWriteIndex_def write_entry_def
      flush_def no_faults_def createSegment_def log_inv_def Let_def storage_consts)

section \<open>Read\<close>

lemma budget_prefix: "prefix (budget m n rs) rs"
  by (induction m n rs rule: budget.induct) (auto simp: Let_def)

lemma budget_neq_Nil: "budget m n rs = [] \<longleftrightarrow> rs = []"
  by (cases rs) (simp_all add: Let_def)

lemma budget_unlimited: "m \<le> 0 \<Longrightarrow> budget m n rs = rs"
  by (induction m n rs rule: budget.induct) (auto simp: Let_def)

lemma budget_sum:
  "0 < m \<Longrightarrow> n < m \<Longrightarrow> rs' @ [r] = budget m n rs \<Longrightarrow>
    n + int (\<Sum>x \<leftarrow> rs'. length (Payload x)) < m"
proof (induction m n rs arbitrary: rs' rule: budget.induct)
  case (2 m n x rs)
  then show ?case
    by (cases rs') (auto simp: Let_def add.assoc split: if_splits)
qed simp

text \<open>Where a segment ends: where the next begins, or at the end of the log.\<close>

lemma segs_inv_end:
  assumes "segs_inv b ss" "k < length ss"
  shows "sint (baseOffset (ss ! k)) + int (length (seg_entries (ss ! k)))
    = (if Suc k < length ss then sint (baseOffset (ss ! Suc k))
       else b + int (length (concat (map seg_entries ss))))"
proof -
  have "sint (baseOffset (ss ! k)) + int (length (seg_entries (ss ! k)))
      = b + int (length (concat (map seg_entries (take (Suc k) ss))))"
    using segs_inv_nth [OF assms] assms(2) by (simp add: take_Suc_conv_app_nth)
  then show ?thesis
    using segs_inv_nth [OF assms(1), of "Suc k"] by auto
qed

text \<open>Where a read starts: the segment that holds the offset, and its part of the sequence.\<close>

lemma segmentForOffset_part:
  assumes "log_inv l" "sint (StartOffset l) \<le> sint off" "0 \<le> sint off"
  obtains s rest where "segmentForOffset l off = Some s" "seg_inv s"
    "\<not> logErr (last (segments l)) \<longrightarrow> \<not> logErr s" "sint (baseOffset s) \<le> sint off"
    "drop (nat (sint off - sint (StartOffset l))) (log_entries l)
      = drop (nat (sint off - sint (baseOffset s))) (seg_entries s) @ rest"
    "sint off < sint (nextOffset l) \<longrightarrow> nat (sint off - sint (baseOffset s)) < length (seg_entries s)"
proof -
  let ?ss = "segments l" and ?b = "sint (StartOffset l)"
  define i where "i = sort_Search (length ?ss) (\<lambda>i. sint off < sint (baseOffset (?ss ! i)))"
  have ne: "?ss \<noteq> []" and inv: "segs_inv ?b ?ss" using assms(1) by (simp_all add: log_inv_def)
  have i: "i \<le> length ?ss" "i = 0 \<or> \<not> sint off < sint (baseOffset (?ss ! (i - 1)))"
    "i = length ?ss \<or> sint off < sint (baseOffset (?ss ! i))"
    using sort_Search_boundary [of "length ?ss" "\<lambda>i. sint off < sint (baseOffset (?ss ! i))"]
    unfolding i_def [symmetric] by auto
  have "i \<noteq> 0"
    using i(3) ne assms(2) by (intro notI) (simp add: StartOffset_def hd_conv_nth)
  then obtain k where k: "i = Suc k" "k < length ?ss" using i(1) by (cases i) auto
  let ?s = "?ss ! k" and ?pre = "concat (map seg_entries (take k ?ss))"
    and ?post = "concat (map seg_entries (drop (Suc k) ?ss))"
  have s: "seg_inv ?s" "Suc k < length ?ss \<longrightarrow> sealed ?s"
    "sint (baseOffset ?s) = ?b + int (length ?pre)"
    using segs_inv_nth [OF inv k(2)] by auto
  have le: "sint (baseOffset ?s) \<le> sint off" using i(2) k by simp
  define n where "n = nat (sint off - sint (baseOffset ?s))"
  have inside: "n < length (seg_entries ?s)"
    if "Suc k < length ?ss \<or> sint off < sint (nextOffset l)"
  proof -
    have "sint off < sint (baseOffset ?s) + int (length (seg_entries ?s))"
      using segs_inv_end [OF inv k(2)] that i(3) k(1) assms(1)
      by (auto simp: log_inv_def log_entries_def)
    then show ?thesis using le by (simp add: n_def)
  qed
  have "log_entries l = ?pre @ seg_entries ?s @ ?post"
    using id_take_nth_drop [OF k(2)] by (metis concat.simps(2) concat_append list.simps(9)
        log_entries_def map_append)
  moreover have "nat (sint off - ?b) = length ?pre + n" using s(3) le by (simp add: n_def)
  ultimately have "drop (nat (sint off - ?b)) (log_entries l) = drop n (seg_entries ?s) @ ?post"
    using inside by (cases "Suc k < length ?ss") auto
  moreover have "\<not> logErr (last ?ss) \<longrightarrow> \<not> logErr ?s"
    using s(2) k(2) ne by (cases "Suc k < length ?ss")
      (auto simp: sealed_def last_conv_nth less_Suc_eq not_less_eq)
  moreover have "segmentForOffset l off = Some ?s"
    using assms(3) ne k(1) by (simp add: segmentForOffset_def Let_def flip: i_def)
  ultimately show ?thesis
    using that [of ?s ?post] s(1) le inside by (auto simp: n_def)
qed

lemma log_inv_StartOffset: "log_inv l \<Longrightarrow> 0 \<le> sint (StartOffset l)"
  by (cases "segments l") (auto simp: log_inv_def seg_inv_def seg_rep_def StartOffset_def)

text \<open>
  A read at an offset of the log returns a prefix of the sequence from that offset on: not
  empty before the end, and stopped by the byte limit only once the limit is reached.
\<close>

lemma Read_spec:
  assumes "log_inv l" "\<not> logErr (last (segments l))" "sint (StartOffset l) \<le> sint off"
  shows "\<exists>rs. Read l off maxBytes = Inr rs
    \<and> prefix rs (drop (nat (sint off - sint (StartOffset l))) (log_entries l))
    \<and> (sint off < sint (nextOffset l) \<longrightarrow> rs \<noteq> [])
    \<and> (0 < maxBytes \<longrightarrow> int (\<Sum>r \<leftarrow> butlast rs. length (Payload r)) < maxBytes)"
proof -
  have off: "0 \<le> sint off" using log_inv_StartOffset [OF assms(1)] assms(3) by simp
  obtain s rest where s: "segmentForOffset l off = Some s" "seg_inv s" "\<not> logErr s"
    "sint (baseOffset s) \<le> sint off"
    "drop (nat (sint off - sint (StartOffset l))) (log_entries l)
      = drop (nat (sint off - sint (baseOffset s))) (seg_entries s) @ rest"
    "sint off < sint (nextOffset l) \<longrightarrow> nat (sint off - sint (baseOffset s)) < length (seg_entries s)"
    using segmentForOffset_part [OF assms(1,3) off] assms(2) by metis
  obtain t where rep: "seg_rep s (seg_entries s) t" using s(2) by (auto simp: seg_inv_def)
  let ?d = "drop (nat (sint off - sint (baseOffset s))) (seg_entries s)"
  have "Read l off maxBytes = Inr (budget maxBytes 0 ?d)"
    using assms(1,2) s(1) readRecords_segment [OF rep s(3,4)]
    by (simp add: Read_def log_inv_def)
  moreover have "prefix (budget maxBytes 0 ?d) (?d @ rest)"
    using budget_prefix by (rule prefix_prefix)
  moreover have "int (\<Sum>r \<leftarrow> butlast (budget maxBytes 0 ?d). length (Payload r)) < maxBytes"
    if "0 < maxBytes"
  proof (cases "budget maxBytes 0 ?d" rule: rev_cases)
    case (snoc rs' r)
    then show ?thesis using budget_sum [OF that that snoc [symmetric]] by simp
  qed (use that in simp)
  ultimately show ?thesis using s(5,6) by (auto simp: budget_neq_Nil)
qed

lemma Read_before:
  assumes "log_inv l" "\<not> logErr (last (segments l))" "sint off < sint (StartOffset l)"
  shows "Read l off maxBytes = Inr []"
proof -
  define i where "i = sort_Search (length (segments l))
    (\<lambda>i. sint off < sint (baseOffset (segments l ! i)))"
  have i: "i \<le> length (segments l)"
    "i = 0 \<or> \<not> sint off < sint (baseOffset (segments l ! (i - 1)))"
    using sort_Search_boundary [of "length (segments l)"
        "\<lambda>i. sint off < sint (baseOffset (segments l ! i))"]
    unfolding i_def [symmetric] by auto
  have "i = 0"
  proof (rule ccontr)
    assume "i \<noteq> 0"
    then have "i - 1 < length (segments l)" using i(1) by simp
    then have "sint (StartOffset l) \<le> sint (baseOffset (segments l ! (i - 1)))"
      using segs_inv_nth [of "sint (StartOffset l)" "segments l" "i - 1"] assms(1)
      by (simp add: log_inv_def)
    then show False using i(2) \<open>i \<noteq> 0\<close> assms(3) by simp
  qed
  then have "segmentForOffset l off = None"
    by (simp add: segmentForOffset_def Let_def flip: i_def)
  then show ?thesis using assms(1,2) by (simp add: Read_def log_inv_def)
qed

end
