(* ===== verification/Log_Contract.thy ===== *)
theory Log_Contract
  imports Storage_Correct
begin

text \<open>
  The contract that the clients of a log rely on (the offset store, the metadata log, the
  replica fetcher), as a locale over the log's operations, with the lemmas about reading a
  log to its end proved once from it; and its interpretation on the segmented log.
\<close>

lemma foldE_append:
  "foldE f (xs @ ys) st = (case foldE f xs st of Inl e \<Rightarrow> Inl e | Inr st' \<Rightarrow> foldE f ys st')"
  by (induction xs arbitrary: st) (auto split: sum.splits)

lemma foldE_total: "foldE (\<lambda>x st. Inr (g x st)) xs st = Inr (fold g xs st)"
  by (induction xs arbitrary: st) auto

locale offset_log =
  fixes append :: "'l \<Rightarrow> bytes \<Rightarrow> 'l \<times> (go_error + int64)"
    and read :: "'l \<Rightarrow> int64 \<Rightarrow> int \<Rightarrow> go_error + LogRecord list"
    and first :: "'l \<Rightarrow> int64"
    and fin :: "'l \<Rightarrow> int64"
    and recs :: "'l \<Rightarrow> LogRecord list"
    and inv :: "'l \<Rightarrow> bool"
    and healthy :: "'l \<Rightarrow> bool"
  assumes recs_offsets: "inv l \<Longrightarrow> consecutive (sint (first l)) (recs l)"
    and fin_recs: "inv l \<Longrightarrow> sint (fin l) = sint (first l) + int (length (recs l))"
    and first_nonneg: "inv l \<Longrightarrow> 0 \<le> sint (first l)"
    and append_ok: "inv l \<Longrightarrow> append l p = (l', Inr off) \<Longrightarrow> length p < 2 ^ 32 \<Longrightarrow>
      sint (fin l) < 2 ^ 63 - 1 \<Longrightarrow>
      inv l' \<and> off = fin l \<and> first l' = first l \<and> recs l' = recs l @ [\<lparr>Offset = off, Payload = p\<rparr>]"
    and append_err: "inv l \<Longrightarrow> append l p = (l', Inl e) \<Longrightarrow> length p < 2 ^ 32 \<Longrightarrow>
      sint (fin l) < 2 ^ 63 - 1 \<Longrightarrow> inv l' \<and> first l' = first l \<and> recs l' = recs l"
    and read_ok: "inv l \<Longrightarrow> healthy l \<Longrightarrow> sint (first l) \<le> sint off \<Longrightarrow>
      \<exists>rs. read l off m = Inr rs
        \<and> prefix rs (drop (nat (sint off - sint (first l))) (recs l))
        \<and> (sint off < sint (fin l) \<longrightarrow> rs \<noteq> [])"
begin

lemma recs_from:
  assumes "inv l" "sint (first l) \<le> sint off" "rs @ rest = drop (nat (sint off - sint (first l))) (recs l)"
    and "rs \<noteq> []"
  shows "sint (Offset (last rs) + 1) = sint off + int (length rs)"
    and "rest = drop (nat (sint (Offset (last rs) + 1) - sint (first l))) (recs l)"
    and "sint (Offset (last rs) + 1) \<le> sint (fin l)"
proof -
  let ?n = "nat (sint off - sint (first l))"
  have le: "?n + length rs \<le> length (recs l)"
    using arg_cong [OF assms(3), of length] assms(4) by (cases rs) auto
  have "consecutive (sint off) (drop ?n (recs l))"
    using consecutive_drop [OF recs_offsets [OF assms(1)], of ?n] le assms(2) by simp
  then have "consecutive (sint off) rs" using assms(3) by (metis consecutive_append)
  then have last: "sint (Offset (last rs)) = sint off + int (length rs) - 1"
    using assms(4) by (simp add: consecutive_def last_conv_nth of_nat_diff Suc_le_eq)
  have fin: "sint off + int (length rs) \<le> sint (fin l)"
    using fin_recs [OF assms(1)] le assms(2) by linarith
  have lo: "0 \<le> sint off" using first_nonneg [OF assms(1)] assms(2) by simp
  show e: "sint (Offset (last rs) + 1) = sint off + int (length rs)"
    using sint_add_64 [of "Offset (last rs)" 1] last fin lo sint_range_64 [of "fin l"] by simp
  show "sint (Offset (last rs) + 1) \<le> sint (fin l)" using e fin by simp
  have "nat (sint off + int (length rs) - sint (first l)) = length rs + ?n" using assms(2) by simp
  then show "rest = drop (nat (sint (Offset (last rs) + 1) - sint (first l))) (recs l)"
    unfolding e using arg_cong [OF assms(3), of "drop (length rs)"] by (simp add: drop_drop)
qed

text \<open>The scan ends and has handled every record from its start to the end of the log.\<close>

lemma scan_all:
  assumes "inv l" "healthy l" "sint (first l) \<le> sint off" "sint off \<le> sint (fin l)"
  shows "scan_log (\<lambda>o'. read l o' m) f off st
    = Some (foldE f (drop (nat (sint off - sint (first l))) (recs l)) st)"
  using assms(3,4)
proof (induction "nat (sint (fin l) - sint off)" arbitrary: off st rule: less_induct)
  case less
  let ?d = "drop (nat (sint off - sint (first l))) (recs l)"
  obtain rs rest where rs: "read l off m = Inr rs" "rs @ rest = ?d"
    "sint off < sint (fin l) \<longrightarrow> rs \<noteq> []"
    using read_ok [OF assms(1,2) less.prems(1)] by (metis prefixE)
  show ?case
  proof (cases "rs = []")
    case True
    then have "sint off = sint (fin l)" using rs(3) less.prems(2) by linarith
    then have "?d = []" using fin_recs [OF assms(1)] by simp
    then show ?thesis using True rs(1) by (subst scan_log.simps) simp
  next
    case False
    note nx = recs_from [OF assms(1) less.prems(1) rs(2) False]
    have "nat (sint (fin l) - sint (Offset (last rs) + 1)) < nat (sint (fin l) - sint off)"
      using nx(1,3) False by (cases rs) auto
    then have IH: "scan_log (\<lambda>o'. read l o' m) f (Offset (last rs) + 1) st'
        = Some (foldE f rest st')" for st'
      using less.hyps [of "Offset (last rs) + 1" st'] nx less.prems(1) by simp
    have "foldE f ?d st = (case foldE f rs st of Inl e \<Rightarrow> Inl e | Inr st' \<Rightarrow> foldE f rest st')"
      by (simp add: foldE_append flip: rs(2))
    then show ?thesis
      using rs(1) False IH by (subst scan_log.simps) (auto split: sum.splits)
  qed
qed

end

definition log_healthy :: "Log \<Rightarrow> bool" where
  "log_healthy l \<longleftrightarrow> \<not> logErr (last (segments l))"

lemma segs_inv_consecutive:
  "segs_inv b ss \<Longrightarrow> consecutive b (concat (map seg_entries ss))"
  by (induction ss arbitrary: b) (auto simp: seg_inv_def seg_rep_def)

interpretation seglog: offset_log Append Read StartOffset EndOffset log_entries log_inv log_healthy
proof
  fix l l' off e m and p :: bytes
  assume inv: "log_inv l"
  show "consecutive (sint (StartOffset l)) (log_entries l)"
    using inv by (simp add: log_inv_def log_entries_def segs_inv_consecutive)
  show "sint (EndOffset l) = sint (StartOffset l) + int (length (log_entries l))"
    using inv by (simp add: log_inv_def EndOffset_def)
  show "0 \<le> sint (StartOffset l)" using inv by (rule log_inv_StartOffset)
  show "\<exists>rs. Read l off m = Inr rs
        \<and> prefix rs (drop (nat (sint off - sint (StartOffset l))) (log_entries l))
        \<and> (sint off < sint (EndOffset l) \<longrightarrow> rs \<noteq> [])"
    if "log_healthy l" "sint (StartOffset l) \<le> sint off"
    using Read_spec [OF inv _ that(2), of m] that(1) by (auto simp: log_healthy_def EndOffset_def)
  assume small: "length p < 2 ^ 32" "sint (EndOffset l) < 2 ^ 63 - 1"
  show "log_inv l' \<and> off = EndOffset l \<and> StartOffset l' = StartOffset l
      \<and> log_entries l' = log_entries l @ [\<lparr>Offset = off, Payload = p\<rparr>]"
    if "Append l p = (l', Inr off)"
    using AppendWithOffset_sound [OF inv, of p "\<lambda>_ p. p" l' "Inr off"] that small
    by (auto simp: Append_def EndOffset_def)
  show "log_inv l' \<and> StartOffset l' = StartOffset l \<and> log_entries l' = log_entries l"
    if "Append l p = (l', Inl e)"
    using AppendWithOffset_sound [OF inv, of p "\<lambda>_ p. p" l' "Inl e"] that small
    by (auto simp: Append_def EndOffset_def)
qed

lemma Append_healthy:
  assumes "log_inv l" "Append l p = (l', Inr off)"
  shows "log_healthy l' \<and> disk l' = tl (disk l)"
  using assms
  by (auto simp: Append_def AppendWithOffset_def Let_def roll_def append_entry_def maybeWriteIndex_def
      write_entry_def log_healthy_def createSegment_def log_inv_def
      split: if_splits option.splits prod.splits)

lemma Append_succeeds:
  assumes "log_inv l" "log_healthy l" "disk l = []"
  shows "\<exists>l' off. Append l p = (l', Inr off)"
  using AppendWithOffset_complete [of l p "\<lambda>_ p. p"] assms by (auto simp: log_healthy_def Append_def)

section \<open>Every scan ends\<close>

text \<open>
  Whatever the files of a log hold, a read returns only records from the offset asked on, so the
  next read starts later; after the last possible offset it starts below zero and finds nothing.
\<close>

lemma read_loop_offsets:
  assumes "read_loop bs pos off m n records = Inr rs" "\<forall>r \<in> set records. sint off \<le> sint (Offset r)"
  shows "\<forall>r \<in> set rs. sint off \<le> sint (Offset r)"
  using assms
proof (induction bs pos off m n records rule: read_loop.induct)
  case (1 bs pos off m n records)
  show ?case
  proof (cases "ReadAt bs 12 pos")
    case (Inl e)
    then show ?thesis using "1.prems" by (subst (asm) read_loop.simps) (auto split: if_splits)
  next
    case (Inr header)
    let ?next = "pos + entryHeaderSize + header_length header"
    show ?thesis
    proof (cases "sint (header_offset header) < sint off")
      case True
      then have "read_loop bs ?next off m n records = Inr rs"
        using "1.prems"(1) Inr by (subst (asm) read_loop.simps) (simp add: Let_def)
      then show ?thesis using "1.IH"(1) [OF Inr refl refl refl refl True] "1.prems"(2) by blast
    next
      case False
      show ?thesis
      proof (cases "ReadAt bs (nat (header_length header)) (pos + entryHeaderSize)")
        case (Inl e)
        then show ?thesis using "1.prems" Inr False by (subst (asm) read_loop.simps) (auto simp: Let_def split: if_splits)
      next
        case (Inr payload)
        note payload = this
        let ?recs = "records @ [\<lparr>Offset = header_offset header, Payload = payload\<rparr>]"
        have le: "\<forall>r \<in> set ?recs. sint off \<le> sint (Offset r)" using "1.prems"(2) False by auto
        have "rs = ?recs \<or> \<not> (0 < m \<and> m \<le> n + int (length payload)) \<and> read_loop bs ?next off m (n + int (length payload)) ?recs = Inr rs"
          using "1.prems"(1) \<open>ReadAt bs 12 pos = Inr header\<close> payload False
          by (subst (asm) read_loop.simps) (auto simp: Let_def split: if_splits)
        then show ?thesis
          using le "1.IH"(2) [OF \<open>ReadAt bs 12 pos = Inr header\<close> refl refl refl refl False payload refl refl] by blast
      qed
    qed
  qed
qed

lemma Read_offsets:
  assumes "Read l off m = Inr rs" "r \<in> set rs"
  shows "0 \<le> sint off" "sint off \<le> sint (Offset r)"
  using assms read_loop_offsets
  by (fastforce simp: Read_def segmentForOffset_def readRecords_def split: if_splits option.splits)+

lemma sint_next_64: "sint ((x :: int64) + 1) = sint x + 1 \<or> sint (x + 1) < 0"
proof (cases "sint x = 2 ^ 63 - 1")
  case True
  then have "x = of_int (2 ^ 63 - 1)" by (metis word_of_sint)
  then show ?thesis by simp
next
  case False
  then show ?thesis using sint_add_64 [of x 1] sint_range_64 [of x] by auto
qed

lemma scan_ends: "scan_log (\<lambda>o'. Read l o' m) f off st \<noteq> None"
proof (induction "nat (2 ^ 63 - sint off)" arbitrary: off st rule: less_induct)
  case less
  have "scan_log (\<lambda>o'. Read l o' m) f (Offset (last rs) + 1) st' \<noteq> None" if rs: "Read l off m = Inr rs" "rs \<noteq> []" for rs st'
  proof (cases "sint (Offset (last rs) + 1) < 0")
    case True
    then have "Read l (Offset (last rs) + 1) m = Inr rs' \<Longrightarrow> rs' = []" for rs' using Read_offsets(1) by fastforce
    then show ?thesis by (subst scan_log.simps) (auto split: sum.split)
  next
    case False
    then have "sint off < sint (Offset (last rs) + 1)"
      using sint_next_64 [of "Offset (last rs)"] Read_offsets(2) [OF rs(1), of "last rs"] rs(2) by simp
    then show ?thesis using less [of "Offset (last rs) + 1"] sint_range_64 [of "Offset (last rs) + 1"] by simp
  qed
  then show ?case by (subst scan_log.simps) (simp split: sum.split)
qed

end
