(* ===== verification/Storage_Recovery.thy ===== *)
theory Storage_Recovery
  imports Log_Contract
begin

text \<open>
  Recovery of \<open>internal/storage/log.go\<close>: the directory a log leaves behind, also after a
  write that failed half way, opens again to the same sequence of records. The parts are the
  file names, the scan that drops a torn tail, and the index file, which is either the index
  the records determine or refused by \<open>loadIndex\<close> and rebuilt.
\<close>

section \<open>File names\<close>

lemma parse_digits_zeros: "parse_digits 0 (replicate k CHR ''0'' @ ds) = parse_digits 0 ds"
  by (induction k) (simp_all add: Let_def)

lemma filepath_Ext_append:
  "CHR ''.'' \<notin> set ext \<Longrightarrow> filepath_Ext (xs @ CHR ''.'' # ext) = CHR ''.'' # ext"
  by (simp add: filepath_Ext_def takeWhile_append)

lemma parse_log_name:
  assumes "0 \<le> sint base"
  shows "parseSegmentBase (segmentLogName base) = Some base"
proof -
  let ?ds = "nat_digits (nat (sint base))" and ?s = "Sprintf_020d base"
  have s: "?s = replicate (20 - length ?ds) CHR ''0'' @ ?ds"
    using assms by (simp add: Sprintf_020d_def Let_def)
  have hd: "hd ?s \<noteq> CHR ''-''" "hd ?s \<noteq> CHR ''+''" "?s \<noteq> []"
    using hd_nat_digits [of "nat (sint base)"] by (auto simp: s hd_append)
  have "parse_digits 0 ?s = Some (nat (sint base))"
    by (simp add: s parse_digits_zeros parse_nat_digits)
  then have "ParseInt 64 ?s = Some (sint base)"
    using hd assms sint_range_64 [of base] by (simp add: ParseInt_def Let_def)
  moreover have "filepath_Ext (segmentLogName base) = ''.log''"
    using filepath_Ext_append [of "''log''" ?s] by (simp add: segmentLogName_def)
  ultimately show ?thesis
    by (simp add: parseSegmentBase_def segmentLogName_def)
qed

lemma parse_index_name: "parseSegmentBase (segmentIndexName base) = None"
  using filepath_Ext_append [of "''index''" "Sprintf_020d base"]
  by (simp add: parseSegmentBase_def segmentIndexName_def)

lemma inj_log_name:
  "0 \<le> sint a \<Longrightarrow> 0 \<le> sint b \<Longrightarrow> segmentLogName a = segmentLogName b \<longleftrightarrow> a = b"
  by (metis option.inject parse_log_name)

lemma log_name_neq_index_name: "0 \<le> sint a \<Longrightarrow> segmentLogName a \<noteq> segmentIndexName b"
  by (metis option.distinct(1) parse_index_name parse_log_name)

lemma index_name_eq: "segmentIndexName a = segmentIndexName b \<Longrightarrow> segmentLogName a = segmentLogName b"
  by (simp add: segmentIndexName_def segmentLogName_def)

section \<open>The index file\<close>

lemma load_index_step:
  "bs \<noteq> [] \<Longrightarrow> load_index_loop bs sz acc =
    (let entry = \<lparr>relOffset = be_get (take 4 (take 8 bs)), position = be_get (drop 4 (take 8 bs))\<rparr>
     in if sz \<le> sint (position entry) then None
        else load_index_loop (drop 8 bs) sz (acc @ [entry]))"
  by (cases bs) (simp_all add: Let_def)

lemma load_index_entries:
  "load_index_loop (concat (map index_entry_bytes idx)) sz acc =
    (if list_all (\<lambda>e. sint (position e) < sz) idx then Some (acc @ idx) else None)"
proof (induction idx arbitrary: acc)
  case (Cons e idx)
  let ?bs = "index_entry_bytes e @ concat (map index_entry_bytes idx)"
  have len: "length (index_entry_bytes e) = 8" by (simp add: index_entry_bytes_def)
  then have "?bs \<noteq> []" "take 8 ?bs = index_entry_bytes e"
    "drop 8 ?bs = concat (map index_entry_bytes idx)"
    by (force, simp_all)
  moreover have "be_get (take 4 (index_entry_bytes e)) = relOffset e"
    "be_get (drop 4 (index_entry_bytes e)) = position e"
    by (simp_all add: index_entry_bytes_def)
  moreover have "\<lparr>relOffset = relOffset e, position = position e\<rparr> = e" by (cases e) simp
  ultimately have "load_index_loop ?bs sz acc = (if sz \<le> sint (position e) then None
      else load_index_loop (concat (map index_entry_bytes idx)) sz (acc @ [e]))"
    using load_index_step [of ?bs sz acc] by (simp only: Let_def) simp
  then show ?case using Cons.IH by simp
qed simp

lemma length_index_file: "length (concat (map index_entry_bytes idx)) = 8 * length idx"
  by (induction idx) (simp_all add: index_entry_bytes_def)

lemma loadIndex_entries:
  "loadIndex (concat (map index_entry_bytes idx)) sz =
    (if idx = [] then (if 0 < sz then None else Some [])
     else if list_all (\<lambda>e. sint (position e) < sz) idx then Some idx else None)"
  using length_index_file [of idx] by (simp add: loadIndex_def load_index_entries)

lemma idx_last_position:
  "pos + int (length (enc_recs (butlast rs))) < 2 ^ 31 \<Longrightarrow> 0 \<le> pos \<Longrightarrow>
    idx_of base pos lp rs \<noteq> [] \<Longrightarrow>
    sint (position (last (idx_of base pos lp rs))) = idx_last pos lp rs"
proof (induction rs rule: rev_induct)
  case (snoc r rs)
  let ?q = "pos + int (length (enc_recs rs))"
  have q: "sint (word_of_int ?q :: int32) = ?q"
    using snoc.prems(1,2) by (intro sint_of_int_32) auto
  have "length (enc_recs (butlast rs)) \<le> length (enc_recs rs)"
    by (cases rs rule: rev_cases) auto
  then have "idx_of base pos lp rs \<noteq> [] \<Longrightarrow>
      sint (position (last (idx_of base pos lp rs))) = idx_last pos lp rs"
    using snoc by simp
  then show ?case using snoc.prems(3) q by (auto simp: idx_of_snoc idx_last_snoc Let_def)
qed simp

lemma idx_last_empty: "idx_of base pos lp rs = [] \<Longrightarrow> idx_last pos lp rs = lp"
  by (induction rs arbitrary: pos lp) (auto split: if_splits)

section \<open>Segments on disk\<close>

text \<open>
  The index file holds the in-memory index; after a failed write the index may have entries
  for the position where the entry did not get written.
\<close>

definition synced :: "segment \<Rightarrow> bool" where
  "synced s \<longleftrightarrow>
     indexFile s = concat (map index_entry_bytes (index s))
     \<and> (\<exists>es. index s = idx_of (baseOffset s) 0 0 (seg_entries s) @ es
          \<and> (\<not> logErr s \<longrightarrow> es = []) \<and> (\<forall>e \<in> set es. logSize s \<le> sint (position e)))"

lemma idx_positions:
  assumes "seg_rep s rs t" "e \<in> set (idx_of (baseOffset s) 0 0 rs)"
  shows "sint (position e) < logSize s"
proof -
  obtain k where k: "k < length rs" "position e = word_of_int (int (length (enc_recs (take k rs))))"
    using idx_of_points [OF assms(2)] by auto
  have "int (length (enc_recs (take k rs))) \<le> 2 ^ 20"
    using enc_recs_take_butlast [OF k(1)] assms(1) by (simp add: seg_rep_def maxSegmentBytes_def)
  then have "sint (position e) = int (length (enc_recs (take k rs)))"
    unfolding k(2) by (intro sint_of_int_32) auto
  moreover have "length (enc_recs (take k rs)) < length (enc_recs (take (Suc k) rs))"
    using k(1) by (simp add: take_Suc_conv_app_nth)
  moreover have "length (enc_recs (take (Suc k) rs)) \<le> length (enc_recs rs)"
    by (metis append_take_drop_id enc_recs_simps(3) le_add1 length_append)
  ultimately show ?thesis using assms(1) by (simp add: seg_rep_def)
qed

lemma openSegment_synced:
  assumes "seg_rep s rs t" "synced s"
  shows "seg_rep (openSegment (baseOffset s) (logFile s) (indexFile s)) rs []
    \<and> \<not> logErr (openSegment (baseOffset s) (logFile s) (indexFile s))
    \<and> baseOffset (openSegment (baseOffset s) (logFile s) (indexFile s)) = baseOffset s
    \<and> synced (openSegment (baseOffset s) (logFile s) (indexFile s))"
proof -
  let ?o = "openSegment (baseOffset s) (logFile s) (indexFile s)"
  let ?idx = "idx_of (baseOffset s) 0 0 rs"
  have rep: "logFile s = enc_recs rs @ t" "torn t" "list_all small rs"
    "logSize s = int (length (enc_recs rs))"
    "int (length (enc_recs (butlast rs))) \<le> maxSegmentBytes"
    using assms(1) by (auto simp: seg_rep_def)
  have valid: "snd (recoverLog (logFile s)) = int (length (enc_recs rs))"
    using recover_loop_entries [of rs 0 "logFile s" t 0] rep by (simp add: recoverLog_def)
  have re: "rebuildIndex (enc_recs rs) (baseOffset s) = ?idx"
    using rebuild_loop_entries [of rs 0 "enc_recs rs"] rep(3) by (simp add: rebuildIndex_def)
  have li: "loadIndex (indexFile s) (int (length (enc_recs rs))) = None
    \<or> loadIndex (indexFile s) (int (length (enc_recs rs))) = Some ?idx
      \<and> indexFile s = concat (map index_entry_bytes ?idx)"
  proof -
    obtain es where "index s = ?idx @ es" and pos: "\<forall>e \<in> set es. logSize s \<le> sint (position e)"
      using assms(2) unfolding synced_def seg_rep_entries [OF assms(1)] by blast
    then have es: "indexFile s = concat (map index_entry_bytes (?idx @ es))"
      using assms(2) by (simp add: synced_def)
    have "list_all (\<lambda>e. sint (position e) < logSize s) ?idx"
      using idx_positions [OF assms(1)] by (auto simp: list_all_iff)
    then show ?thesis
      unfolding es loadIndex_entries using pos rep(4) by (cases es) (auto simp: list_all_iff)
  qed
  have last: "lastIndexedPosition ?idx = idx_last 0 0 rs"
    using idx_last_position [of 0 rs] idx_last_empty [of _ 0 0 rs] rep(5)
    by (auto simp: lastIndexedPosition_def maxSegmentBytes_def)
  have o: "seg_rep ?o rs [] \<and> \<not> logErr ?o \<and> baseOffset ?o = baseOffset s
    \<and> index ?o = ?idx \<and> indexFile ?o = concat (map index_entry_bytes ?idx)"
    using assms(1) li valid re last rep
    by (auto simp: openSegment_def Let_def seg_rep_def)
  then have "seg_entries ?o = rs" using seg_rep_entries by blast
  then show ?thesis using o by (simp add: synced_def)
qed

lemma append_entry_synced:
  assumes "seg_rep s rs t" "synced s" "sint off = sint (baseOffset s) + int (length rs)"
    and "length p < 2 ^ 32" "sz = 12 + int (length p)"
    and "logSize s = 0 \<or> logSize s + sz \<le> maxSegmentBytes" "indexShort io = None"
    and "append_entry io s off p sz = (s2, e)"
  shows "synced s2"
proof -
  obtain s1 e1 where "maybeWriteIndex io s off (logSize s) = (s1, e1)" by fastforce
  then have m: "maybeWriteIndex io s off (logSize s) = (s1, None)"
    using assms(7) by (auto simp: maybeWriteIndex_def Let_def split: if_splits)
  then have w: "write_entry io s1 off p sz = (s2, e)"
    using assms(8) by (simp add: append_entry_def)
  obtain es where es: "index s = idx_of (baseOffset s) 0 0 rs @ es" "\<not> logErr s \<longrightarrow> es = []"
    "\<forall>e \<in> set es. logSize s \<le> sint (position e)"
    using assms(2) unfolding synced_def seg_rep_entries [OF assms(1)] by blast
  have ixf: "indexFile s = concat (map index_entry_bytes (index s))"
    using assms(2) by (simp add: synced_def)
  have pos: "sint (word_of_int (logSize s) :: int32) = logSize s"
    using assms(1,5,6) by (intro sint_of_int_32) (auto simp: seg_rep_def maxSegmentBytes_def)
  show ?thesis
  proof (cases e)
    case None
    then have "\<not> logErr s"
      using w m by (auto simp: write_entry_def maybeWriteIndex_def Let_def
          split: if_splits option.splits)
    note rep = seg_append_ok [OF assms(1) this assms(3-6) m w [unfolded None]]
    then have "seg_entries s2 = rs @ [\<lparr>Offset = off, Payload = p\<rparr>]" using seg_rep_entries by blast
    then have "index s2 = idx_of (baseOffset s2) 0 0 (seg_entries s2)"
      using rep by (simp add: seg_rep_def)
    moreover have "indexFile s2 = concat (map index_entry_bytes (index s2))"
      using m w ixf None
      by (auto simp: maybeWriteIndex_def write_entry_def Let_def split: if_splits option.splits)
    ultimately show ?thesis using rep by (simp add: synced_def)
  next
    case (Some err)
    obtain t' where "seg_rep s2 rs t'" "baseOffset s2 = baseOffset s" "logErr s2"
      using seg_append_err(2) [OF assms(1,4) m w [unfolded Some]] by blast
    moreover have "logSize s2 = logSize s" "indexFile s2 = concat (map index_entry_bytes (index s2))"
      "index s2 = index s \<or> (\<exists>e. index s2 = index s @ [e] \<and> sint (position e) = logSize s)"
      using m w ixf pos Some
      by (auto simp: maybeWriteIndex_def write_entry_def Let_def split: if_splits option.splits)
    moreover have "seg_entries s2 = rs" using calculation(1) by (rule seg_rep_entries)
    ultimately show ?thesis using es unfolding synced_def by fastforce
  qed
qed

section \<open>The directory of a log\<close>

definition log_dir :: "Log \<Rightarrow> dir" where
  "log_dir l = concat (map (\<lambda>s. [(segmentLogName (baseOffset s), logFile s),
     (segmentIndexName (baseOffset s), indexFile s)]) (segments l))"

abbreviation seg_files :: "segment list \<Rightarrow> dir" where
  "seg_files ss \<equiv> concat (map (\<lambda>s. [(segmentLogName (baseOffset s), logFile s),
     (segmentIndexName (baseOffset s), indexFile s)]) ss)"

lemma seg_files_bases:
  "\<forall>s \<in> set ss. 0 \<le> sint (baseOffset s) \<Longrightarrow>
    List.map_filter parseSegmentBase (mkeys (seg_files ss)) = map baseOffset ss"
  by (induction ss) (simp_all add: parse_log_name parse_index_name)

lemma seg_files_lookup:
  assumes "distinct (map baseOffset ss)" "\<forall>s \<in> set ss. 0 \<le> sint (baseOffset s)" "s \<in> set ss"
  shows "map_of (seg_files ss) (segmentLogName (baseOffset s)) = Some (logFile s)
    \<and> map_of (seg_files ss) (segmentIndexName (baseOffset s)) = Some (indexFile s)"
  using assms
proof (induction ss)
  case (Cons a ss)
  show ?case
  proof (cases "s = a")
    case True
    then show ?thesis using Cons.prems(2,3) log_name_neq_index_name [of "baseOffset a"] by (auto dest: sym)
  next
    case False
    then have "s \<in> set ss" using Cons.prems(3) by simp
    moreover have "baseOffset a \<noteq> baseOffset s"
      using Cons.prems(1) calculation by (metis distinct.simps(2) image_eqI list.set_map list.simps(9))
    ultimately show ?thesis
      using Cons log_name_neq_index_name [of "baseOffset s"]
        log_name_neq_index_name [of "baseOffset a" "baseOffset s", THEN not_sym]
        inj_log_name [of "baseOffset s" "baseOffset a"] index_name_eq [of "baseOffset s" "baseOffset a"]
      by (auto dest: sym)
  qed
qed simp

lemma segs_inv_bases:
  "segs_inv b ss \<Longrightarrow> 0 \<le> b \<Longrightarrow>
    sorted (map (\<lambda>s. sint (baseOffset s)) ss) \<and> distinct (map baseOffset ss)
    \<and> (\<forall>s \<in> set ss. b \<le> sint (baseOffset s))"
proof (induction ss arbitrary: b)
  case (Cons s ss)
  have IH: "sorted (map (\<lambda>s. sint (baseOffset s)) ss)" "distinct (map baseOffset ss)"
    "\<forall>x \<in> set ss. b + int (length (seg_entries s)) \<le> sint (baseOffset x)"
    using Cons by auto
  show ?case
  proof (cases "ss = []")
    case False
    then have "0 < length (seg_entries s)" using Cons.prems(1) by (simp add: sealed_def)
    then have "b < b + int (length (seg_entries s))" by simp
    then have "\<forall>x \<in> set ss. b < sint (baseOffset x)" using IH(3) less_le_trans by blast
    then show ?thesis using IH Cons.prems(1) by (force simp: order_less_imp_le)
  qed (use Cons.prems in simp)
qed simp

lemma open_segments_files:
  assumes "\<forall>s \<in> set ss. map_of dr (segmentLogName (baseOffset s)) = Some (logFile s)
      \<and> map_of dr (segmentIndexName (baseOffset s)) = Some (indexFile s)"
  shows "open_segments dr (map baseOffset ss)
    = Inr (map (\<lambda>s. openSegment (baseOffset s) (logFile s) (indexFile s)) ss)"
  using assms by (induction ss) (simp_all add: Let_def)

lemma segs_inv_reopen:
  "segs_inv b ss \<Longrightarrow> list_all synced ss \<Longrightarrow> 
    segs_inv b (map (\<lambda>s. openSegment (baseOffset s) (logFile s) (indexFile s)) ss)
    \<and> map (\<lambda>s. seg_entries (openSegment (baseOffset s) (logFile s) (indexFile s))) ss = map seg_entries ss
    \<and> list_all synced (map (\<lambda>s. openSegment (baseOffset s) (logFile s) (indexFile s)) ss)"
proof (induction ss arbitrary: b)
  case (Cons s ss)
  let ?o = "openSegment (baseOffset s) (logFile s) (indexFile s)"
  obtain t where "seg_rep s (seg_entries s) t" using Cons.prems(1) by (auto simp: seg_inv_def)
  then have o: "seg_rep ?o (seg_entries s) []" "\<not> logErr ?o" "baseOffset ?o = baseOffset s" "synced ?o"
    using openSegment_synced Cons.prems(2) by auto
  then have "seg_entries ?o = seg_entries s" "seg_inv ?o"
    using seg_rep_entries seg_rep_inv by blast+
  then show ?case using Cons o by (auto simp: sealed_def)
qed simp

lemma recoverNextOffset_active:
  assumes "log_inv l" "segments l = ss @ [s]" "seg_rep o' (seg_entries s) []" "\<not> logErr o'"
    "baseOffset o' = baseOffset s"
    "sint (baseOffset s) = sint (StartOffset l) + int (length (concat (map seg_entries ss)))"
  shows "recoverNextOffset o' = nextOffset l"
proof (cases "seg_entries s = []")
  case True
  then have "sint (recoverNextOffset o') = sint (nextOffset l)"
    using assms by (simp add: recoverNextOffset_def seg_rep_def log_inv_def log_entries_def)
  then show ?thesis by simp
next
  case False
  then have "0 < logSize o'"
    using assms(3) by (cases "seg_entries s") (auto simp: seg_rep_def)
  moreover have "fst (recoverLog (logFile o')) = Offset (last (seg_entries s)) + 1"
    using recover_loop_entries [of "seg_entries s" 0 "logFile o'" "[]" 0] assms(3,4) False
    by (simp add: recoverLog_def seg_rep_def)
  moreover have "nat (sint (baseOffset s) - sint (StartOffset l)) = length (concat (map seg_entries ss))"
    "drop (length (concat (map seg_entries ss))) (log_entries l) = seg_entries s"
    using assms(2,6) by (simp_all add: log_entries_def)
  ultimately have "sint (recoverNextOffset o') = sint (nextOffset l)"
    using seglog.recs_from(1) [OF assms(1), of "baseOffset s" "seg_entries s" "[]"] False assms(2,6)
      assms(1) by (simp add: recoverNextOffset_def log_inv_def log_entries_def)
  then show ?thesis by simp
qed

lemma Open_log_dir:
  assumes "log_inv l" "list_all synced (segments l)"
  shows "\<exists>l'. Open dsk (log_dir l) = Inr l' \<and> log_inv l' \<and> log_healthy l'
    \<and> log_entries l' = log_entries l \<and> nextOffset l' = nextOffset l
    \<and> StartOffset l' = StartOffset l \<and> list_all synced (segments l') \<and> disk l' = dsk"
proof -
  let ?ss = "segments l" and ?b = "sint (StartOffset l)"
  let ?open = "\<lambda>s. openSegment (baseOffset s) (logFile s) (indexFile s)"
  let ?os = "map ?open ?ss"
  have ne: "?ss \<noteq> []" and inv: "segs_inv ?b ?ss" using assms(1) by (simp_all add: log_inv_def)
  have bases: "sorted (map (\<lambda>s. sint (baseOffset s)) ?ss)" "distinct (map baseOffset ?ss)"
    "\<forall>s \<in> set ?ss. 0 \<le> sint (baseOffset s)"
    using segs_inv_bases [OF inv] log_inv_StartOffset [OF assms(1)] by force+
  have "segmentBaseOffsets (log_dir l) = map baseOffset ?ss"
    using bases(1) seg_files_bases [OF bases(3)]
    by (simp add: segmentBaseOffsets_def log_dir_def sorted_sort_id sort_key_id_if_sorted comp_def)
  moreover have "open_segments (log_dir l) (map baseOffset ?ss) = Inr ?os"
    using seg_files_lookup [OF bases(2,3)]
    by (intro open_segments_files) (simp add: log_dir_def)
  ultimately have op: "Open dsk (log_dir l)
      = Inr \<lparr>segments = ?os, nextOffset = recoverNextOffset (last ?os), disk = dsk\<rparr>"
    using ne by (simp add: Open_def Let_def)
  obtain ss s t where act: "?ss = ss @ [s]" "seg_rep s (seg_entries s) t"
    "sint (baseOffset s) = ?b + int (length (concat (map seg_entries ss)))"
    using assms(1) by (rule log_inv_active)
  then have o: "seg_rep (?open s) (seg_entries s) []" "\<not> logErr (?open s)"
    "baseOffset (?open s) = baseOffset s"
    using openSegment_synced [OF act(2)] assms(2) by auto
  have nx: "recoverNextOffset (?open s) = nextOffset l"
    using recoverNextOffset_active [OF assms(1) act(1) o act(3)] .
  note re = segs_inv_reopen [OF inv assms(2)]
  have st: "baseOffset (?open (hd ?ss)) = baseOffset (hd ?ss)"
    using re inv ne by (cases ?ss) (auto simp: sint_eq_iff [symmetric] simp del: sint_eq_iff)
  have "last ?os = ?open s" using act(1) by simp
  moreover have "concat (map seg_entries ?os) = concat (map seg_entries ?ss)"
    using re by (simp only: map_map comp_def)
  ultimately show ?thesis
    unfolding op using nx st o(2) re ne assms(1)
    by (simp add: log_inv_def log_healthy_def log_entries_def StartOffset_def hd_map del: map_map)
qed

section \<open>Runs of appends\<close>

lemma createSegment_synced: "synced (createSegment b)"
proof -
  have "seg_entries (createSegment b) = []"
    by (simp add: seg_entries_def createSegment_def parse_entries.simps)
  then show ?thesis by (simp add: synced_def createSegment_def)
qed

lemma AppendWithOffset_synced:
  assumes "log_inv l" "list_all synced (segments l)" "AppendWithOffset l p stamp = (l', res)"
    and "length p < 2 ^ 32" "length (stamp (nextOffset l) p) = length p"
    and "list_all (\<lambda>io. indexShort io = None) (disk l)"
  shows "list_all synced (segments l')"
proof -
  define io where "io = (if disk l = [] then no_faults else hd (disk l))"
  define sz where "sz = entryHeaderSize + int (length p)"
  have ne: "segments l \<noteq> []" using assms(1) by (simp add: log_inv_def)
  have io: "indexShort io = None"
    using assms(6) by (cases "disk l") (simp_all add: io_def no_faults_def)
  show ?thesis
  proof (cases "roll io (segments l) (nextOffset l) sz")
    case None
    then have "segments l' = segments l"
      using assms(3) ne by (auto simp: AppendWithOffset_def Let_def simp flip: io_def sz_def)
    then show ?thesis using assms(2) by simp
  next
    case (Some segs)
    then have sy: "list_all synced segs"
      using assms(2) createSegment_synced by (auto simp: roll_def Let_def split: if_splits)
    obtain ss s t where a: "segs = ss @ [s]" "seg_rep s (seg_entries s) t"
      "logSize s = 0 \<or> logSize s + sz \<le> maxSegmentBytes"
      "sint (nextOffset l) = sint (baseOffset s) + int (length (seg_entries s))"
      using assms(1) Some by (rule roll_cases)
    obtain s2 e where sa: "append_entry io s (nextOffset l) (stamp (nextOffset l) p) sz = (s2, e)"
      by fastforce
    have "length (stamp (nextOffset l) p) < 2 ^ 32" "sz = 12 + int (length (stamp (nextOffset l) p))"
      using assms(4,5) by (simp_all add: sz_def entryHeaderSize_def)
    then have "synced s2" using append_entry_synced [OF a(2) _ a(4) _ _ a(3) io sa] sy a(1) by simp
    moreover have "segments l' = ss @ [s2]"
      using assms(3) AppendWithOffset_roll [OF ne io_def sz_def Some [unfolded a(1)], where stamp = stamp] sa
      by auto
    ultimately show ?thesis using sy a(1) by simp
  qed
qed

text \<open>A run of appends, and the records that were acknowledged, with their offsets.\<close>

fun appends :: "Log \<Rightarrow> bytes list \<Rightarrow> Log \<times> LogRecord list" where
  "appends l [] = (l, [])"
| "appends l (p # ps) =
     (case Append l p of (l1, res) \<Rightarrow>
        (case appends l1 ps of (l2, acked) \<Rightarrow>
           (l2, case res of Inl e \<Rightarrow> acked | Inr off \<Rightarrow> \<lparr>Offset = off, Payload = p\<rparr> # acked)))"

lemma disk_AppendWithOffset:
  "AppendWithOffset l p stamp = (l', res) \<Longrightarrow> disk l' = tl (disk l) \<or> disk l' = disk l"
  by (auto simp: AppendWithOffset_def Let_def split: if_splits option.splits prod.splits)

text \<open>A log whose directory is in step with it, on a disk that never tears an index entry.\<close>

definition durable :: "Log \<Rightarrow> bool" where
  "durable l \<longleftrightarrow> log_inv l \<and> list_all synced (segments l) \<and> list_all (\<lambda>io. indexShort io = None) (disk l)"

lemma Append_durable:
  assumes "durable l" "Append l p = (l', res)" "length p < 2 ^ 32" "sint (EndOffset l) < 2 ^ 63 - 1"
  shows "durable l' \<and> StartOffset l' = StartOffset l
    \<and> log_entries l' = log_entries l @ (case res of Inl e \<Rightarrow> [] | Inr off \<Rightarrow> [\<lparr>Offset = off, Payload = p\<rparr>])"
proof -
  have l: "log_inv l" "list_all synced (segments l)" "list_all (\<lambda>io. indexShort io = None) (disk l)"
    using assms(1) by (simp_all add: durable_def)
  have ap: "AppendWithOffset l p (\<lambda>_ p. p) = (l', res)" using assms(2) by (simp add: Append_def)
  note snd = AppendWithOffset_sound [OF l(1) ap assms(3) refl assms(4) [unfolded EndOffset_def]]
  note sy = AppendWithOffset_synced [OF l(1,2) ap assms(3) refl l(3)]
  have "list_all (\<lambda>io. indexShort io = None) (disk l')"
    using disk_AppendWithOffset [OF ap] l(3) by (cases "disk l") auto
  then show ?thesis using snd sy by (auto simp: durable_def split: sum.splits)
qed

lemma appends_sound:
  assumes "log_inv l" "list_all synced (segments l)" "list_all (\<lambda>io. indexShort io = None) (disk l)"
    and "\<forall>p \<in> set ps. length p < 2 ^ 32" "sint (nextOffset l) + int (length ps) < 2 ^ 63"
    and "appends l ps = (l', acked)"
  shows "log_inv l' \<and> list_all synced (segments l') \<and> StartOffset l' = StartOffset l
    \<and> log_entries l' = log_entries l @ acked"
  using assms
proof (induction ps arbitrary: l acked)
  case (Cons p ps)
  obtain l1 res where ap: "Append l p = (l1, res)" by fastforce
  obtain acked1 where rest: "appends l1 ps = (l', acked1)"
    "acked = (case res of Inl e \<Rightarrow> acked1 | Inr off \<Rightarrow> \<lparr>Offset = off, Payload = p\<rparr> # acked1)"
    using Cons.prems(6) ap by (auto split: prod.splits)
  have p: "length p < 2 ^ 32" "sint (EndOffset l) < 2 ^ 63 - 1" using Cons.prems(4,5) by (auto simp: EndOffset_def)
  have l1: "durable l1" "StartOffset l1 = StartOffset l"
    "log_entries l1 = log_entries l @ (case res of Inl e \<Rightarrow> [] | Inr off \<Rightarrow> [\<lparr>Offset = off, Payload = p\<rparr>])"
    using Append_durable [OF _ ap p] Cons.prems(1-3) by (simp_all add: durable_def)
  have "sint (nextOffset l1) = sint (StartOffset l) + int (length (log_entries l1))"
    "sint (nextOffset l) = sint (StartOffset l) + int (length (log_entries l))"
    using seglog.fin_recs [of l1] seglog.fin_recs [OF Cons.prems(1)] l1(1,2) by (simp_all add: durable_def EndOffset_def)
  then have "sint (nextOffset l1) + int (length ps) < 2 ^ 63"
    using l1(3) Cons.prems(5) by (cases res) auto
  then show ?case
    using Cons.IH [OF _ _ _ _ _ rest(1)] l1 Cons.prems(4) rest(2) by (auto simp: durable_def split: sum.splits)
qed simp

end
