(* ===== verification/Storage_Manager.thy ===== *)
theory Storage_Manager
  imports Storage_Recovery
begin

text \<open>
  The properties of the segmented log, and \<open>internal/storage/manager.go\<close>: the manager opens
  the log of a topic partition on first use, in a directory named after the partition, and
  hands out the same log afterwards.
\<close>

section \<open>The log\<close>

definition fresh_log :: "append_io list \<Rightarrow> Log" where
  "fresh_log dsk = \<lparr>segments = [createSegment 0], nextOffset = 0, disk = dsk\<rparr>"

lemma fresh_log_sel [simp]: "nextOffset (fresh_log dsk) = 0" "disk (fresh_log dsk) = dsk"
  by (simp_all add: fresh_log_def)

lemma Open_empty: "Open dsk [] = Inr (fresh_log dsk)"
  by (simp add: Open_def segmentBaseOffsets_def fresh_log_def)

lemma fresh_log_inv [inv_rules]:
  "log_inv (fresh_log dsk)" "log_healthy (fresh_log dsk)" "log_entries (fresh_log dsk) = []"
  "list_all synced (segments (fresh_log dsk))" "StartOffset (fresh_log dsk) = 0"
proof -
  have rep: "seg_rep (createSegment 0) [] []" by (rule seg_inv_createSegment) simp
  note e = seg_rep_entries [OF rep]
  show "log_inv (fresh_log dsk)"
    using seg_rep_inv [OF rep] e
    by (simp add: log_inv_def fresh_log_def log_entries_def StartOffset_def createSegment_def)
  show "log_entries (fresh_log dsk) = []" using e by (simp add: fresh_log_def log_entries_def)
  show "list_all synced (segments (fresh_log dsk))"
    by (simp add: fresh_log_def createSegment_synced)
  show "log_healthy (fresh_log dsk)" "StartOffset (fresh_log dsk) = 0"
    by (simp_all add: log_healthy_def fresh_log_def StartOffset_def createSegment_def)
qed

text \<open>
  C1. An append on a log in a valid state keeps it valid. If it reports an offset, that is the
  next offset, the next offset moves by one, and the log's records are the old ones followed
  by the stamped payload at that offset. If it reports an error, at whatever point the disk
  failed, the records and the next offset are what they were.
\<close>

theorem append_exact:
  assumes "log_inv l" "length p < 2 ^ 32" "length (stamp (nextOffset l) p) = length p"
    and "sint (nextOffset l) < 2 ^ 63 - 1"
  shows "case AppendWithOffset l p stamp of (l', res) \<Rightarrow>
    log_inv l' \<and> StartOffset l' = StartOffset l \<and>
    (case res of
       Inl e \<Rightarrow> log_entries l' = log_entries l \<and> nextOffset l' = nextOffset l
     | Inr off \<Rightarrow> off = nextOffset l \<and> nextOffset l' = off + 1
         \<and> log_entries l' = log_entries l @ [\<lparr>Offset = off, Payload = stamp off p\<rparr>])"
proof -
  obtain l' res where "AppendWithOffset l p stamp = (l', res)" by fastforce
  with AppendWithOffset_sound [OF assms(1) this assms(2-4)] show ?thesis
    by (auto split: sum.splits)
qed

definition torn_io :: append_io where
  "torn_io = \<lparr>flushFails = False, createFails = False, indexShort = None, logShort = Some 5\<rparr>"

theorem append_exact_witness:
  "log_entries (fst (AppendWithOffset (fresh_log [torn_io]) [1, 2, 3] (\<lambda>_ p. p))) = []
    \<and> log_entries (fst (AppendWithOffset (fresh_log []) [1, 2, 3] (\<lambda>off p. ucast off # tl p)))
      = [\<lparr>Offset = 0, Payload = [0, 2, 3]\<rparr>]"
proof -
  have "snd (AppendWithOffset (fresh_log [torn_io]) [1, 2, 3] (\<lambda>_ p. p)) = Inl ErrIO" by code_simp
  moreover have "snd (AppendWithOffset (fresh_log []) [1, 2, 3] (\<lambda>off p. ucast off # tl p)) = Inr 0"
    by code_simp
  ultimately show ?thesis
    using append_exact [OF fresh_log_inv(1), of "[1, 2, 3]" "\<lambda>_ p. p" "[torn_io]"]
      append_exact [OF fresh_log_inv(1), of "[1, 2, 3]" "\<lambda>off p. ucast off # tl p" "[]"]
    by (simp add: case_prod_beta fresh_log_inv)
qed


text \<open>The log after two appends: a concrete state for the theorems about reading.\<close>

definition two_records :: Log where
  "two_records = fst (appends (fresh_log []) [[7, 8], [9]])"

lemma two_records_props:
  "log_inv two_records" "log_healthy two_records" "list_all synced (segments two_records)"
  "StartOffset two_records = 0" "EndOffset two_records = 2"
  "log_entries two_records = [\<lparr>Offset = 0, Payload = [7, 8]\<rparr>, \<lparr>Offset = 1, Payload = [9]\<rparr>]"
proof -
  obtain l acked where ap: "appends (fresh_log []) [[7, 8], [9]] = (l, acked)" by fastforce
  have "snd (appends (fresh_log []) [[7, 8], [9]])
      = [\<lparr>Offset = 0, Payload = [7, 8]\<rparr>, \<lparr>Offset = 1, Payload = [9]\<rparr>]" by code_simp
  then have "acked = [\<lparr>Offset = 0, Payload = [7, 8]\<rparr>, \<lparr>Offset = 1, Payload = [9]\<rparr>]"
    unfolding ap by simp
  moreover have l: "l = two_records" using ap by (simp add: two_records_def)
  ultimately show "log_inv two_records" "list_all synced (segments two_records)"
    "StartOffset two_records = 0"
    "log_entries two_records = [\<lparr>Offset = 0, Payload = [7, 8]\<rparr>, \<lparr>Offset = 1, Payload = [9]\<rparr>]"
    using appends_sound [OF fresh_log_inv(1,4) _ _ _ ap] by (simp_all add: fresh_log_inv)
  show "log_healthy two_records" "EndOffset two_records = 2" by code_simp+
qed





text \<open>A log with an index entry: the second record starts 4112 bytes into the segment.\<close>

definition indexed_log :: Log where
  "indexed_log = fst (appends (fresh_log []) [replicate 4100 0, [1]])"


section \<open>The manager\<close>

text \<open>\<open>logKey\<close> prints the partition with \<open>%d\<close>; \<open>filepath.Join\<close> cleans the joined path.\<close>

definition logKey :: "string \<Rightarrow> int32 \<Rightarrow> string" where
  "logKey topic pt = topic @ CHR ''-'' # Itoa (sint pt)"

definition clean_step :: "bool \<Rightarrow> string list \<Rightarrow> string \<Rightarrow> string list" where
  "clean_step rooted st part =
     (if part = [] \<or> part = ''.'' then st
      else if part \<noteq> ''..'' then st @ [part]
      else if st \<noteq> [] \<and> last st \<noteq> ''..'' then butlast st
      else if rooted then st
      else st @ [part])"

text \<open>A cleaned path as its components, with whether it is absolute.\<close>

definition filepath_Join :: "string \<Rightarrow> string \<Rightarrow> bool \<times> string list" where
  "filepath_Join dir name =
     (let p = dir @ CHR ''/'' # name;
          rooted = (hd p = CHR ''/'')
      in (rooted, foldl (clean_step rooted) [] (Split CHR ''/'' p)))"

text \<open>
  The file system maps a directory to its files; a directory that does not exist is empty
  (\<open>Open\<close> creates it). The files of an open log are those of \<^const>\<open>log_dir\<close>, which
  \<open>Close\<close> leaves behind. \<open>io\<close> is the fault schedule of the next log to be opened.
\<close>

record Manager =
  dataDir :: string
  logs :: "(string, Log) gomap"
  fs :: "(bool \<times> string list, dir) gomap"
  io :: "append_io list"

definition NewManager :: "string \<Rightarrow> Manager" where
  "NewManager dir = \<lparr>dataDir = dir, logs = [], fs = [], io = []\<rparr>"

definition dir_of :: "Manager \<Rightarrow> string \<Rightarrow> dir" where
  "dir_of m key = (case map_of (fs m) (filepath_Join (dataDir m) key) of None \<Rightarrow> [] | Some d \<Rightarrow> d)"

definition Manager_Log :: "Manager \<Rightarrow> string \<Rightarrow> int32 \<Rightarrow> Manager \<times> (go_error + Log)" where
  "Manager_Log m topic pt =
     (let key = logKey topic pt
      in case map_of (logs m) key of
          Some log \<Rightarrow> (m, Inr log)
        | None \<Rightarrow>
            (case Open (io m) (dir_of m key) of
               Inl err \<Rightarrow> (m, Inl err)
             | Inr log \<Rightarrow> (m\<lparr>logs := mput key log (logs m)\<rparr>, Inr log)))"

text \<open>What a caller does through the returned pointer: the log of a key changes in place.\<close>

definition put_log :: "Manager \<Rightarrow> string \<Rightarrow> int32 \<Rightarrow> Log \<Rightarrow> Manager" where
  "put_log m topic pt log = m\<lparr>logs := mput (logKey topic pt) log (logs m)\<rparr>"

definition Manager_Close :: "Manager \<Rightarrow> Manager" where
  "Manager_Close m =
     m\<lparr>logs := [],
       fs := fold (\<lambda>(key, log). mput (filepath_Join (dataDir m) key) (log_dir log)) (logs m) (fs m)\<rparr>"

lemma dash_notin_digits: "CHR ''-'' \<notin> set (nat_digits n)" "CHR ''/'' \<notin> set (nat_digits n)"
  using nat_digits_chars [of "CHR ''-''" n] nat_digits_chars [of "CHR ''/''" n] by auto

lemma logKey_inj:
  assumes "0 \<le> sint pt" "0 \<le> sint pt'"
  shows "logKey topic pt = logKey topic' pt' \<longleftrightarrow> topic = topic' \<and> pt = pt'"
proof -
  have "rev (logKey topic pt) = rev (nat_digits (nat (sint pt))) @ CHR ''-'' # rev topic"
    if "0 \<le> sint pt" for topic pt
    using that by (simp add: logKey_def Itoa_def)
  then have "logKey topic pt = logKey topic' pt' \<longleftrightarrow>
      rev (nat_digits (nat (sint pt))) @ CHR ''-'' # rev topic
      = rev (nat_digits (nat (sint pt'))) @ CHR ''-'' # rev topic'"
    using assms by (metis rev_rev_ident)
  also have "\<dots> \<longleftrightarrow> topic = topic' \<and> nat (sint pt) = nat (sint pt')"
    using split_first [of "CHR ''-''" "rev (nat_digits (nat (sint pt)))"] dash_notin_digits
    by (auto simp: inj_nat_digits)
  finally show ?thesis using assms by (simp add: eq_nat_nat_iff)
qed

text \<open>A name without a slash is a new last component, below the directory.\<close>

lemma Join_name:
  assumes "CHR ''/'' \<notin> set name" "name \<notin> {[], ''.'', ''..''}"
  shows "filepath_Join dir name =
    (let rooted = (hd (dir @ ''/'') = CHR ''/'')
     in (rooted, foldl (clean_step rooted) [] (Split CHR ''/'' dir) @ [name]))"
proof -
  have "hd (dir @ CHR ''/'' # name) = hd (dir @ ''/'')" by (cases dir) simp_all
  then show ?thesis using assms
    by (simp add: filepath_Join_def Split_append Split_single clean_step_def Let_def)
qed

lemma Join_logKey_inj:
  assumes "CHR ''/'' \<notin> set topic" "CHR ''/'' \<notin> set topic'" "0 \<le> sint pt" "0 \<le> sint pt'"
    and "filepath_Join dir (logKey topic pt) = filepath_Join dir (logKey topic' pt')"
  shows "topic = topic' \<and> pt = pt'"
proof -
  have "CHR ''/'' \<notin> set (logKey t p) \<and> logKey t p \<notin> {[], ''.'', ''..''}"
    if "CHR ''/'' \<notin> set t" "0 \<le> sint p" for t p
  proof -
    have "CHR ''-'' \<in> set (logKey t p)" by (simp add: logKey_def)
    then have "logKey t p \<notin> {[], ''.'', ''..''}" by auto
    moreover have "CHR ''/'' \<notin> set (logKey t p)"
      using that dash_notin_digits by (simp add: logKey_def Itoa_def)
    ultimately show ?thesis by simp
  qed
  then have "logKey topic pt = logKey topic' pt'"
    using assms by (simp add: Join_name Let_def)
  then show ?thesis using logKey_inj [OF assms(3,4)] by simp
qed

text \<open>
  A topic name is not checked anywhere, and a name with a slash can lead into the directory
  of another topic: both topics then append to the same files through two logs.
\<close>

theorem topics_share_directory:
  "logKey ''x/../b'' 0 \<noteq> logKey ''b'' 0
    \<and> filepath_Join dir (logKey ''x/../b'' 0) = filepath_Join dir (logKey ''b'' 0)"
proof -
  have k: "logKey ''x/../b'' 0 = ''x/../b-0''" "logKey ''b'' 0 = ''b-0''" by code_simp+
  have sp: "Split CHR ''/'' ''x/../b-0'' = [''x'', ''..'', ''b-0'']" "Split CHR ''/'' ''b-0'' = [''b-0'']"
    by code_simp+
  have "hd (dir @ ''/x/../b-0'') = hd (dir @ ''/b-0'')" by (cases dir) simp_all
  then show ?thesis
    unfolding k by (simp add: filepath_Join_def Split_append sp clean_step_def Let_def)
qed

text \<open>
  The state of a manager whose logs are those of topics named without a slash: every open log
  is valid, its files are in step with it, and no two of them share a directory.
\<close>

definition manager_inv :: "Manager \<Rightarrow> bool" where
  "manager_inv m \<longleftrightarrow> distinct (mkeys (logs m))
     \<and> (\<forall>(key, log) \<in> set (logs m). log_inv log \<and> list_all synced (segments log)
          \<and> (\<exists>topic pt. key = logKey topic pt \<and> CHR ''/'' \<notin> set topic \<and> 0 \<le> sint pt))"

lemma manager_inv_key:
  "manager_inv m \<Longrightarrow> key \<in> set (mkeys (logs m)) \<Longrightarrow>
    \<exists>topic pt. key = logKey topic pt \<and> CHR ''/'' \<notin> set topic \<and> 0 \<le> sint pt"
  by (auto simp: manager_inv_def)

lemma manager_inv_put [inv_rules]:
  assumes "manager_inv m" "log_inv log" "list_all synced (segments log)"
    and "CHR ''/'' \<notin> set topic" "0 \<le> sint pt"
  shows "manager_inv (put_log m topic pt log)"
proof -
  have "set (mput (logKey topic pt) log (logs m)) \<subseteq> insert (logKey topic pt, log) (set (logs m))"
    by (rule set_mput)
  moreover have "\<forall>(key, log) \<in> insert (logKey topic pt, log) (set (logs m)).
      log_inv log \<and> list_all synced (segments log)
      \<and> (\<exists>topic pt. key = logKey topic pt \<and> CHR ''/'' \<notin> set topic \<and> 0 \<le> sint pt)"
    using assms unfolding manager_inv_def by blast
  ultimately have "\<forall>(key, log) \<in> set (logs (put_log m topic pt log)).
      log_inv log \<and> list_all synced (segments log)
      \<and> (\<exists>topic pt. key = logKey topic pt \<and> CHR ''/'' \<notin> set topic \<and> 0 \<le> sint pt)"
    unfolding put_log_def by (simp del: split_paired_Ball_Sigma) blast
  moreover have "distinct (mkeys (logs (put_log m topic pt log)))"
    using assms(1) by (simp add: manager_inv_def put_log_def)
  ultimately show ?thesis unfolding manager_inv_def by simp
qed

lemma fold_mput_lookup:
  assumes "distinct (map fst xs)" "inj_on f (set (map fst xs))" "(k, v) \<in> set xs"
  shows "map_of (fold (\<lambda>(k, v). mput (f k) (g v)) xs m) (f k) = Some (g v)"
  using assms
proof (induction xs arbitrary: m)
  case (Cons x xs)
  have other: "map_of (fold (\<lambda>(k, v). mput (f k) (g v)) ys m) (f k) = map_of m (f k)"
    if "f k \<notin> f ` fst ` set ys" for ys m
    using that by (induction ys arbitrary: m) (auto split: prod.splits)
  show ?case
  proof (cases "(k, v) \<in> set xs")
    case False
    then have "x = (k, v)" using Cons.prems(3) by auto
    moreover have "f k \<notin> f ` fst ` set xs"
      using Cons.prems(1,2) calculation by (auto simp: inj_on_def)
    ultimately show ?thesis using other by simp
  qed (use Cons in \<open>auto simp: inj_on_def\<close>)
qed simp



end
