(* ===== verification/RecordBatch.thy ===== *)
theory RecordBatch
  imports Wire
begin

text \<open>
  The v2 record batches of \<open>internal/protocol/recordbatch.go\<close> and the checks of
  \<open>validRecordBatch\<close> (\<open>internal/network/produce.go\<close>). A batch is written with base offset 0;
  the append stamps the real one into its first eight bytes, which the checksum leaves out.
\<close>

section \<open>Checksum (hash/crc32, Castagnoli)\<close>

fun crc_bits :: "nat \<Rightarrow> uint32 \<Rightarrow> uint32" where
  "crc_bits 0 c = c"
| "crc_bits (Suc n) c =
     crc_bits n (if bit c 0 then drop_bit 1 c XOR 0x82F63B78 else drop_bit 1 c)"

definition crc32_Checksum :: "bytes \<Rightarrow> uint32" where
  "crc32_Checksum bs = NOT (foldl (\<lambda>c b. crc_bits 8 (c XOR ucast b)) (NOT 0) bs)"

section \<open>Records and batches\<close>

definition recordBatchHeaderLen :: nat where
  "recordBatchHeaderLen = 61"

definition baseTimestamp :: int64 where
  "baseTimestamp = 1700000000000"

text \<open>A nil key is \<open>None\<close>; a nil value is written as an empty one.\<close>

record BatchRecord =
  Key :: "bytes option"
  Value :: bytes

record DecodedRecord =
  recOffset :: int64
  recKey :: "bytes option"
  recValue :: "bytes option"
  Timestamp :: int64

definition encodeRecord :: "BatchRecord \<Rightarrow> int64 \<Rightarrow> bytes" where
  "encodeRecord r offsetDelta =
     (let key = (case Key r of None \<Rightarrow> [] | Some k \<Rightarrow> k);
          body = WriteInt8 0 @ WriteVarint 0 @ WriteVarint (ucast offsetDelta)
            @ (case Key r of None \<Rightarrow> WriteVarint (-1) | Some k \<Rightarrow> WriteVarint (of_nat (length k)))
            @ key
            @ WriteVarint (of_nat (length (Value r))) @ Value r
            @ WriteVarint 0
      in WriteVarint (of_nat (length body)) @ body)"

text \<open>The bytes from position 21 on, which the checksum covers.\<close>

definition batch_tail :: "BatchRecord list \<Rightarrow> bytes" where
  "batch_tail records =
     be_put 2 (0 :: 16 word)
     @ be_put 4 (word_of_int (int (length records) - 1) :: uint32)
     @ be_put 8 baseTimestamp @ be_put 8 baseTimestamp
     @ be_put 8 (NOT 0 :: 64 word) @ be_put 2 (NOT 0 :: 16 word) @ be_put 4 (NOT 0 :: uint32)
     @ be_put 4 (of_nat (length records) :: uint32)
     @ concat (map (\<lambda>(i, r). encodeRecord r (of_nat i)) (enumerate 0 records))"

definition BuildRecordBatch :: "BatchRecord list \<Rightarrow> bytes" where
  "BuildRecordBatch records =
     (let tail = batch_tail records
      in be_put 8 (0 :: 64 word)
         @ be_put 4 (of_nat (9 + length tail) :: uint32)
         @ be_put 4 (NOT 0 :: uint32) @ [2]
         @ be_put 4 (crc32_Checksum tail)
         @ tail)"

definition readVarintBytes :: "bytes option decoder" where
  "readVarintBytes = dbind ReadVarint (\<lambda>n.
     if sint n < 0 then dreturn None
     else dbind (ReadFull (nat (sint n))) (\<lambda>buf. dreturn (Some buf)))"

definition decodeRecord :: "int64 \<Rightarrow> int64 \<Rightarrow> DecodedRecord decoder" where
  "decodeRecord baseOffset baseTS =
     dbind ReadVarint (\<lambda>_.
     dbind ReadInt8 (\<lambda>_.
     dbind ReadVarint (\<lambda>tsDelta.
     dbind ReadVarint (\<lambda>offsetDelta.
     dbind readVarintBytes (\<lambda>key.
     dbind readVarintBytes (\<lambda>value.
     dbind ReadVarint (\<lambda>_.
     dreturn \<lparr>recOffset = baseOffset + scast offsetDelta, recKey = key, recValue = value,
              Timestamp = baseTS + scast tsDelta\<rparr>)))))))"

text \<open>The slices \<open>batch[i:j]\<close> of the sources.\<close>

definition bslice :: "nat \<Rightarrow> nat \<Rightarrow> bytes \<Rightarrow> bytes" where
  "bslice i j bs = take (j - i) (drop i bs)"

definition decodeOneBatch :: "bytes \<Rightarrow> go_error + DecodedRecord list" where
  "decodeOneBatch batch =
     (if length batch < recordBatchHeaderLen then Inl ErrBatchHeader
      else if batch ! 16 \<noteq> 2 then Inl (ErrBatchMagic (batch ! 16))
      else
        (let baseOffset = be_get (bslice 0 8 batch);
             baseTS = be_get (bslice 27 35 batch);
             recordCount = be_get (bslice 57 61 batch) :: int32
         in map_sum id fst (dmake (sint recordCount) (decodeRecord baseOffset baseTS)
              (drop recordBatchHeaderLen batch))))"

function DecodeRecordBatches :: "bytes \<Rightarrow> go_error + DecodedRecord list" where
  "DecodeRecordBatches raw =
     (if 12 \<le> length raw then
        (let batchLen = unat (be_get (bslice 8 12 raw) :: uint32);
             total = 12 + batchLen
         in if total < recordBatchHeaderLen \<or> length raw < total then Inr []
            else case decodeOneBatch (take total raw) of
                Inl err \<Rightarrow> Inl err
              | Inr records \<Rightarrow>
                  (case DecodeRecordBatches (drop total raw) of
                     Inl err \<Rightarrow> Inl err
                   | Inr out \<Rightarrow> Inr (records @ out)))
      else Inr [])"
  by pat_completeness auto
termination
  by (relation "measure length") auto

declare DecodeRecordBatches.simps [simp del]

text \<open>The check of a produced batch; a null byte field has length 0.\<close>

definition validRecordBatch :: "bytes \<Rightarrow> bool" where
  "validRecordBatch batch =
     (if length batch < 61 then False
      else if batch ! 16 \<noteq> 2 then False
      else (be_get (bslice 17 21 batch) :: uint32) = crc32_Checksum (drop 21 batch))"

text \<open>What the append does to a batch: \<open>PutUint64(batch[0:8], offset)\<close>.\<close>

definition stampOffset :: "int64 \<Rightarrow> bytes \<Rightarrow> bytes" where
  "stampOffset offset batch = be_put 8 offset @ drop 8 batch"

section \<open>Reading back\<close>

definition record_ok :: "BatchRecord \<Rightarrow> bool" where
  "record_ok r \<longleftrightarrow> (\<forall>k. Key r = Some k \<longrightarrow> length k < 2 ^ 31) \<and> length (Value r) < 2 ^ 31"

definition decoded :: "int64 \<Rightarrow> nat \<times> BatchRecord \<Rightarrow> DecodedRecord" where
  "decoded base ir = \<lparr>recOffset = base + of_nat (fst ir), recKey = Key (snd ir),
     recValue = Some (Value (snd ir)), Timestamp = baseTimestamp\<rparr>"

lemma readVarintBytes_Some [codec_rt]:
  "length k < 2 ^ 31 \<Longrightarrow>
    readVarintBytes (WriteVarint (of_nat (length k)) @ k @ rest) = Inr (Some k, rest)"
  by (simp add: readVarintBytes_def codec_rt sint_length_32)

lemma readVarintBytes_None [codec_rt]:
  "readVarintBytes (WriteVarint (-1) @ rest) = Inr (None, rest)"
  by (simp add: readVarintBytes_def codec_rt)

lemma scast_ucast_of_nat:
  assumes "i < 2 ^ 31"
  shows "(scast (ucast (of_nat i :: int64) :: int32) :: int64) = of_nat i"
proof -
  have "(ucast (of_nat i :: int64) :: int32) = of_nat i"
    using ucast_of_sint [of "of_nat i" "int i"] sint_of_int_64 [of "int i"] assms by simp
  moreover have "sint (of_nat i :: int32) = int i"
    using sint_of_int_32 [of "int i"] assms by simp
  ultimately show ?thesis by (simp only: scast_eq) simp
qed

lemma decodeRecord_encode:
  assumes "record_ok r" "i < 2 ^ 31"
  shows "decodeRecord base baseTimestamp (encodeRecord r (of_nat i) @ rest)
    = Inr (decoded base (i, r), rest)"
  using assms scast_ucast_of_nat [OF assms(2)]
  by (cases "Key r") (simp_all add: decodeRecord_def encodeRecord_def decoded_def record_ok_def
      codec_rt WriteInt8_def ReadInt8_def Let_def)

lemma bslice_append:
  "length xs = n \<Longrightarrow> n \<le> i \<Longrightarrow> bslice i j (xs @ ys) = bslice (i - n) (j - n) ys"
  "length xs = n \<Longrightarrow> j \<le> n \<Longrightarrow> bslice i j (xs @ ys) = bslice i j xs"
  by (auto simp: bslice_def take_drop)

lemma length_batch_tail: "length (batch_tail records)
    = 40 + length (concat (map (\<lambda>(i, r). encodeRecord r (of_nat i)) (enumerate 0 records)))"
  by (simp add: batch_tail_def)

lemma stamped_batch:
  "stampOffset base (BuildRecordBatch records)
    = be_put 8 base @ be_put 4 (of_nat (9 + length (batch_tail records)) :: uint32)
      @ be_put 4 (NOT 0 :: uint32) @ [2] @ be_put 4 (crc32_Checksum (batch_tail records))
      @ batch_tail records"
  by (simp add: stampOffset_def BuildRecordBatch_def Let_def)

lemma length_stamped [simp]: "8 \<le> length batch \<Longrightarrow> length (stampOffset base batch) = length batch"
  by (simp add: stampOffset_def)

lemma length_BuildRecordBatch: "length (BuildRecordBatch records) = 21 + length (batch_tail records)"
  by (simp add: BuildRecordBatch_def Let_def)

lemma stamped_fields:
  fixes base :: int64
  assumes "b = stampOffset base (BuildRecordBatch records)"
  shows "length b = 21 + length (batch_tail records)" "b ! 16 = 2" "be_get (bslice 0 8 b) = base"
    "be_get (bslice 8 12 b) = (of_nat (9 + length (batch_tail records)) :: uint32)"
    "be_get (bslice 17 21 b) = crc32_Checksum (batch_tail records)"
    "drop 21 b = batch_tail records" "be_get (bslice 27 35 b) = baseTimestamp"
    "be_get (bslice 57 61 b) = (of_nat (length records) :: int32)"
    "drop 61 b = concat (map (\<lambda>(i, r). encodeRecord r (of_nat i)) (enumerate 0 records))"
proof -
  note b = assms [unfolded stamped_batch]
  show "length b = 21 + length (batch_tail records)" "b ! 16 = 2" "drop 21 b = batch_tail records"
    by (simp_all add: b nth_append)
  show "be_get (bslice 0 8 b) = base" "be_get (bslice 17 21 b) = crc32_Checksum (batch_tail records)"
    "be_get (bslice 8 12 b) = (of_nat (9 + length (batch_tail records)) :: uint32)"
    by (simp_all add: b bslice_append, simp_all add: bslice_def)
  show "be_get (bslice 27 35 b) = baseTimestamp"
    "be_get (bslice 57 61 b) = (of_nat (length records) :: int32)"
    "drop 61 b = concat (map (\<lambda>(i, r). encodeRecord r (of_nat i)) (enumerate 0 records))"
    by (simp_all add: b batch_tail_def bslice_append, simp_all add: bslice_def)
qed

lemma stamped_total:
  assumes "9 + length (batch_tail records) < 2 ^ 32"
  shows "12 + unat (be_get (bslice 8 12 (stampOffset base (BuildRecordBatch records))) :: uint32)
    = length (stampOffset base (BuildRecordBatch records))"
proof -
  have "unat (of_nat (9 + length (batch_tail records)) :: uint32) = 9 + length (batch_tail records)"
    using assms by (simp only: unat_of_nat) simp
  then show ?thesis by (simp only: stamped_fields [OF refl])
qed

lemma decodeOneBatch_built:
  assumes "list_all record_ok records" "length records < 2 ^ 31"
  shows "decodeOneBatch (stampOffset base (BuildRecordBatch records))
    = Inr (map (decoded base) (enumerate 0 records))"
proof -
  let ?xs = "enumerate 0 records"
  note f = stamped_fields [OF refl, of base records]
  have "i < 2 ^ 31 \<and> record_ok r" if "(i, r) \<in> set ?xs" for i r
    using that assms by (auto simp: in_set_enumerate_eq list_all_iff)
  then have "dtimes (length ?xs) (decodeRecord base baseTimestamp)
      (concat (map (\<lambda>(i, r). encodeRecord r (of_nat i)) ?xs) @ [])
      = Inr (map (decoded base) ?xs, [])"
    by (intro dtimes_map) (auto simp: decodeRecord_encode)
  moreover have "sint (of_nat (length records) :: int32) = int (length records)"
    using sint_of_int_32 [of "int (length records)"] assms(2) by simp
  moreover have "\<not> length (stampOffset base (BuildRecordBatch records)) < recordBatchHeaderLen"
    unfolding f(1) by (simp add: recordBatchHeaderLen_def length_batch_tail)
  ultimately show ?thesis
    by (simp add: decodeOneBatch_def f recordBatchHeaderLen_def dmake_def Let_def)
qed

lemma Decode_step:
  assumes "list_all record_ok records" "length records < 2 ^ 31"
    and "9 + length (batch_tail records) < 2 ^ 32"
  shows "DecodeRecordBatches (stampOffset base (BuildRecordBatch records) @ rest)
    = (case DecodeRecordBatches rest of
         Inl err \<Rightarrow> Inl err
       | Inr out \<Rightarrow> Inr (map (decoded base) (enumerate 0 records) @ out))"
proof -
  let ?b = "stampOffset base (BuildRecordBatch records)"
  note f = stamped_fields [OF refl, of base records]
  have len: "61 \<le> length ?b" unfolding f(1) by (simp add: length_batch_tail)
  have "bslice 8 12 (?b @ rest) = bslice 8 12 ?b" using len by (intro bslice_append(2)) auto
  then have "12 + unat (be_get (bslice 8 12 (?b @ rest)) :: uint32) = length ?b"
    using stamped_total [OF assms(3)] by simp
  then show ?thesis
    using decodeOneBatch_built [OF assms(1,2)] len
    by (subst DecodeRecordBatches.simps) (simp add: recordBatchHeaderLen_def)
qed

lemma Decode_torn:
  assumes "9 + length (batch_tail records) < 2 ^ 32" "k < length (BuildRecordBatch records)"
  shows "DecodeRecordBatches (take k (stampOffset base (BuildRecordBatch records))) = Inr []"
proof (cases "12 \<le> k")
  case True
  let ?b = "stampOffset base (BuildRecordBatch records)"
  note f = stamped_fields [OF refl, of base records]
  have len: "length ?b = length (BuildRecordBatch records)" by (simp add: f length_BuildRecordBatch)
  have "bslice 8 12 (take k ?b) = bslice 8 12 ?b"
    using bslice_append(2) [of "take k ?b" k 12 8 "drop k ?b"] True assms(2) len by simp
  then have "12 + unat (be_get (bslice 8 12 (take k ?b)) :: uint32) = length ?b"
    using stamped_total [OF assms(1)] by simp
  then show ?thesis
    using assms(2) len by (subst DecodeRecordBatches.simps) simp
qed (subst DecodeRecordBatches.simps, simp)

section \<open>Properties\<close>

definition batch_ok :: "BatchRecord list \<Rightarrow> bool" where
  "batch_ok records \<longleftrightarrow> list_all record_ok records \<and> length records < 2 ^ 31
     \<and> 9 + length (batch_tail records) < 2 ^ 32"

text \<open>
  C32. A sequence of batches, each stamped with a base offset and followed by a batch that was
  cut off at any byte, is decoded to exactly the records that were built into the whole
  batches: keys (null keys as null), values, timestamps, and the offset of each record as the
  base offset of its batch plus its position. The cut-off batch is left out.
\<close>

theorem batches_roundtrip:
  assumes "\<forall>(base, records) \<in> set bs. batch_ok records" "batch_ok torn"
    and "k < length (BuildRecordBatch torn)"
  shows "DecodeRecordBatches
      (concat (map (\<lambda>(base, records). stampOffset base (BuildRecordBatch records)) bs)
       @ take k (stampOffset last_base (BuildRecordBatch torn)))
    = Inr (concat (map (\<lambda>(base, records). map (decoded base) (enumerate 0 records)) bs))"
  using assms(1)
proof (induction bs)
  case Nil
  then show ?case using assms(2,3) Decode_torn by (simp add: batch_ok_def)
next
  case (Cons b bs)
  then show ?case by (cases b) (simp add: Decode_step batch_ok_def)
qed

theorem batches_roundtrip_witness:
  "DecodeRecordBatches (stampOffset 7 (BuildRecordBatch
      [\<lparr>Key = None, Value = [1]\<rparr>, \<lparr>Key = Some [], Value = [2, 3]\<rparr>]))
    = Inr [\<lparr>recOffset = 7, recKey = None, recValue = Some [1], Timestamp = 1700000000000\<rparr>,
           \<lparr>recOffset = 8, recKey = Some [], recValue = Some [2, 3], Timestamp = 1700000000000\<rparr>]"
proof -
  let ?rs = "[\<lparr>Key = None, Value = [1]\<rparr>, \<lparr>Key = Some [], Value = [2, 3 :: byte]\<rparr>]"
  have "length (batch_tail ?rs) = 57" "length (batch_tail []) = 40" by code_simp+
  then have "batch_ok ?rs" "batch_ok []" by (auto simp: batch_ok_def record_ok_def)
  then show ?thesis
    using batches_roundtrip [of "[(7, ?rs)]" "[]" 0 0]
    by (simp add: length_BuildRecordBatch decoded_def baseTimestamp_def)
qed

lemma valid_stampOffset: "validRecordBatch (stampOffset offset batch) = validRecordBatch batch"
proof (cases "length batch < 61")
  case False
  then have "length (take 8 batch) = 8" by simp
  then obtain xs ys where "batch = xs @ ys" "length xs = 8"
    using append_take_drop_id [of 8 batch] by metis
  then show ?thesis
    by (simp add: validRecordBatch_def stampOffset_def bslice_append nth_append)
qed (auto simp: validRecordBatch_def stampOffset_def)

lemma valid_BuildRecordBatch: "validRecordBatch (BuildRecordBatch records)"
proof -
  have "stampOffset 0 (BuildRecordBatch records) = BuildRecordBatch records"
    by (simp add: stamped_batch) (simp add: BuildRecordBatch_def Let_def)
  then show ?thesis
    using stamped_fields [OF refl, of 0 records] by (simp add: validRecordBatch_def length_batch_tail)
qed

text \<open>
  Stamping the base offset does not invalidate a batch: the checksum covers no byte that
  an append changes. So every batch the broker accepts is still valid when it is fetched,
  and every batch of the codec is accepted.
\<close>

theorem stamp_valid:
  "validRecordBatch (stampOffset offset batch) = validRecordBatch batch
    \<and> validRecordBatch (BuildRecordBatch records)"
  by (simp add: valid_stampOffset valid_BuildRecordBatch)

text \<open>
  The check of a produced batch does not look at the record count: a batch with a negative
  count is accepted, and decoding it panics in \<open>make\<close>.
\<close>

theorem negative_count_panics:
  assumes "validRecordBatch batch" "sint (be_get (bslice 57 61 batch) :: int32) < 0"
  shows "decodeOneBatch batch = Inl Panic"
  using assms by (auto simp: validRecordBatch_def decodeOneBatch_def recordBatchHeaderLen_def
      dmake_def Let_def split: if_splits)

end
