(* ===== verification/Producer.thy ===== *)
theory Producer
  imports Storage_Manager RecordBatch "HOL-Library.Product_Lexorder"
begin

text \<open>
  The producer manager of \<open>internal/producer\<close>: producer ids and the sequence numbers by which
  a retried batch is recognised. Sequence numbers are 32-bit words and wrap around as in the
  sources.
\<close>

section \<open>Manager (manager.go)\<close>

datatype Decision = AppendBatchNow | Duplicate | OutOfOrder

record Check =
  decision :: Decision
  CachedOffset :: int64

record seqKey =
  pid :: int64
  topic :: string
  partition_of :: int32

record seqState =
  lastSequence :: int32
  lastBaseOffset :: int64
  lastRecordCount :: int32

record ProducerManager =
  nextPID :: int64
  seqs :: "(seqKey, seqState) gomap"

definition NewProducerManager :: ProducerManager where
  "NewProducerManager = \<lparr>nextPID = 0, seqs = []\<rparr>"

definition InitProducerID :: "ProducerManager \<Rightarrow> ProducerManager \<times> int64 \<times> int16" where
  "InitProducerID m = (let m = m\<lparr>nextPID := nextPID m + 1\<rparr> in (m, nextPID m, 0))"

definition checkSequenceLocked ::
    "ProducerManager \<Rightarrow> int64 \<Rightarrow> string \<Rightarrow> int32 \<Rightarrow> int32 \<Rightarrow> Check" where
  "checkSequenceLocked m pd tp pt baseSeq =
     (case map_of (seqs m) \<lparr>pid = pd, topic = tp, partition_of = pt\<rparr> of
        None \<Rightarrow>
          (if baseSeq = 0 then \<lparr>decision = AppendBatchNow, CachedOffset = 0\<rparr>
           else \<lparr>decision = OutOfOrder, CachedOffset = 0\<rparr>)
      | Some state \<Rightarrow>
          (let lastBaseSeq = lastSequence state - lastRecordCount state + 1
           in if baseSeq = lastBaseSeq then
                \<lparr>decision = Duplicate, CachedOffset = lastBaseOffset state\<rparr>
              else if baseSeq = lastSequence state + 1 then
                \<lparr>decision = AppendBatchNow, CachedOffset = 0\<rparr>
              else if sint baseSeq \<le> sint (lastSequence state) then
                \<lparr>decision = Duplicate, CachedOffset = lastBaseOffset state\<rparr>
              else \<lparr>decision = OutOfOrder, CachedOffset = 0\<rparr>))"

definition committedLocked ::
    "ProducerManager \<Rightarrow> int64 \<Rightarrow> string \<Rightarrow> int32 \<Rightarrow> int32 \<Rightarrow> int32 \<Rightarrow> int64 \<Rightarrow> ProducerManager" where
  "committedLocked m pd tp pt baseSeq recordCount baseOff =
     m\<lparr>seqs := mput \<lparr>pid = pd, topic = tp, partition_of = pt\<rparr>
        \<lparr>lastSequence = baseSeq + recordCount - 1, lastBaseOffset = baseOff,
         lastRecordCount = recordCount\<rparr> (seqs m)\<rparr>"

definition CheckSequence ::
    "ProducerManager \<Rightarrow> int64 \<Rightarrow> string \<Rightarrow> int32 \<Rightarrow> int32 \<Rightarrow> int32 \<Rightarrow> Check" where
  "CheckSequence m pd tp pt baseSeq recordCount = checkSequenceLocked m pd tp pt baseSeq"

definition Committed ::
    "ProducerManager \<Rightarrow> int64 \<Rightarrow> string \<Rightarrow> int32 \<Rightarrow> int32 \<Rightarrow> int32 \<Rightarrow> int64 \<Rightarrow> ProducerManager" where
  "Committed = committedLocked"

text \<open>The callback \<open>appendBatch\<close> changes the log: it is a function on the log's state.\<close>

definition AppendBatch ::
    "ProducerManager \<Rightarrow> int64 \<Rightarrow> string \<Rightarrow> int32 \<Rightarrow> int32 \<Rightarrow> int32
     \<Rightarrow> ('l \<Rightarrow> 'l \<times> (go_error + int64)) \<Rightarrow> 'l \<Rightarrow> ProducerManager \<times> 'l \<times> (go_error + Check)" where
  "AppendBatch m pd tp pt baseSeq recordCount appendBatch l =
     (let check = checkSequenceLocked m pd tp pt baseSeq
      in if decision check \<noteq> AppendBatchNow then (m, l, Inr check)
         else case appendBatch l of
             (l', Inl err) \<Rightarrow> (m, l', Inl err)
           | (l', Inr baseOff) \<Rightarrow>
               (committedLocked m pd tp pt baseSeq recordCount baseOff, l',
                Inr \<lparr>decision = AppendBatchNow, CachedOffset = baseOff\<rparr>))"

section \<open>Snapshot (snapshot.go)\<close>

record ProducerPartition =
  Topic :: string
  Partition :: int32
  LastSequence :: int32
  LastOffset :: int64

record ProducerSnapshot =
  ProducerID :: int64
  Epoch :: int16
  Partitions :: "ProducerPartition list"

definition snapshot_row :: "seqKey \<times> seqState \<Rightarrow> ProducerPartition" where
  "snapshot_row kv =
     \<lparr>Topic = topic (fst kv), Partition = partition_of (fst kv),
      LastSequence = lastSequence (snd kv), LastOffset = lastBaseOffset (snd kv)\<rparr>"

definition Snapshot :: "ProducerManager \<Rightarrow> ProducerSnapshot list" where
  "Snapshot m =
     (let pids = sort_key sint (remdups (map (pid \<circ> fst) (seqs m)))
      in map (\<lambda>p. \<lparr>ProducerID = p, Epoch = 0,
           Partitions = sort_key (\<lambda>row. (Topic row, sint (Partition row)))
             (map snapshot_row (filter (\<lambda>kv. pid (fst kv) = p) (seqs m)))\<rparr>) pids)"

section \<open>Sequences\<close>

lemma check_duplicate:
  "map_of (seqs m) \<lparr>pid = pd, topic = tp, partition_of = pt\<rparr>
     = Some \<lparr>lastSequence = baseSeq + n - 1, lastBaseOffset = off, lastRecordCount = n\<rparr> \<Longrightarrow>
   checkSequenceLocked m pd tp pt baseSeq = \<lparr>decision = Duplicate, CachedOffset = off\<rparr>"
  by (simp add: checkSequenceLocked_def)

lemma check_next:
  "map_of (seqs m) \<lparr>pid = pd, topic = tp, partition_of = pt\<rparr>
     = Some \<lparr>lastSequence = baseSeq + n - 1, lastBaseOffset = off, lastRecordCount = n\<rparr> \<Longrightarrow>
   n \<noteq> 0 \<Longrightarrow> decision (checkSequenceLocked m pd tp pt (baseSeq + n)) = AppendBatchNow"
  by (simp add: checkSequenceLocked_def)

lemma AppendBatch_cases:
  assumes "AppendBatch m pd tp pt baseSeq n app l = (m', l', res)"
  obtains (skip) "m' = m" "l' = l" "res = Inr (checkSequenceLocked m pd tp pt baseSeq)"
      "decision (checkSequenceLocked m pd tp pt baseSeq) \<noteq> AppendBatchNow"
    | (err) e where "m' = m" "app l = (l', Inl e)" "res = Inl e"
      "decision (checkSequenceLocked m pd tp pt baseSeq) = AppendBatchNow"
    | (wrote) off where "m' = committedLocked m pd tp pt baseSeq n off" "app l = (l', Inr off)"
      "res = Inr \<lparr>decision = AppendBatchNow, CachedOffset = off\<rparr>"
      "decision (checkSequenceLocked m pd tp pt baseSeq) = AppendBatchNow"
  using assms by (auto simp: AppendBatch_def Let_def split: if_splits prod.splits sum.splits)

section \<open>Exactly once\<close>

text \<open>
  A producer that numbers its batches one after the other and sends batch k again and again
  until it has an acknowledgement for it; acknowledgements may get lost, appends may fail,
  and other producers, or the same producer on other partitions, append in between. The
  state is the manager, the log, the offsets acknowledged so far and the number of batches
  that the others appended.
\<close>

definition baseSeq_of :: "(nat \<Rightarrow> bytes \<times> int32) \<Rightarrow> nat \<Rightarrow> int32" where
  "baseSeq_of batch k = (\<Sum>i<k. snd (batch i))"

definition send ::
    "(bytes \<Rightarrow> 'l \<Rightarrow> 'l \<times> (go_error + int64)) \<Rightarrow> (nat \<Rightarrow> bytes \<times> int32) \<Rightarrow> seqKey
     \<Rightarrow> ProducerManager \<Rightarrow> 'l \<Rightarrow> nat \<Rightarrow> ProducerManager \<times> 'l \<times> (go_error + Check)" where
  "send app batch key m l k =
     AppendBatch m (pid key) (topic key) (partition_of key) (baseSeq_of batch k) (snd (batch k))
       (app (fst (batch k))) l"

inductive producer_run ::
    "(bytes \<Rightarrow> 'l \<Rightarrow> 'l \<times> (go_error + int64)) \<Rightarrow> ('l \<Rightarrow> bytes \<Rightarrow> bool)
     \<Rightarrow> (nat \<Rightarrow> bytes \<times> int32) \<Rightarrow> seqKey \<Rightarrow> 'l
     \<Rightarrow> ProducerManager \<Rightarrow> 'l \<Rightarrow> int64 list \<Rightarrow> nat \<Rightarrow> bool"
  for app room batch key l0 where
  start: "map_of (seqs m) key = None \<Longrightarrow> producer_run app room batch key l0 m l0 [] 0"
| acked: "producer_run app room batch key l0 m l acks n \<Longrightarrow> room l (fst (batch (length acks))) \<Longrightarrow>
    send app batch key m l (length acks) = (m', l', Inr c) \<Longrightarrow> decision c \<noteq> OutOfOrder \<Longrightarrow>
    producer_run app room batch key l0 m' l' (acks @ [CachedOffset c]) n"
| lost: "producer_run app room batch key l0 m l acks n \<Longrightarrow> room l (fst (batch (length acks))) \<Longrightarrow>
    send app batch key m l (length acks) = (m', l', res) \<Longrightarrow>
    producer_run app room batch key l0 m' l' acks n"
| other: "producer_run app room batch key l0 m l acks n \<Longrightarrow> room l b \<Longrightarrow> key' \<noteq> key \<Longrightarrow>
    AppendBatch m (pid key') (topic key') (partition_of key') s cnt (app b) l = (m', l', res) \<Longrightarrow>
    producer_run app room batch key l0 m' l' acks
      (case res of Inl e \<Rightarrow> n | Inr c \<Rightarrow> if decision c = AppendBatchNow then Suc n else n)"

text \<open>What a run relies on: an append adds one record for the batch or nothing.\<close>

locale batch_sink =
  fixes app :: "bytes \<Rightarrow> 'l \<Rightarrow> 'l \<times> (go_error + int64)"
    and room :: "'l \<Rightarrow> bytes \<Rightarrow> bool"
    and recs :: "'l \<Rightarrow> 'r list"
    and mk :: "int64 \<Rightarrow> bytes \<Rightarrow> 'r"
    and inv :: "'l \<Rightarrow> bool"
  assumes app_ok: "inv l \<Longrightarrow> room l b \<Longrightarrow> app b l = (l', Inr off) \<Longrightarrow>
      inv l' \<and> recs l' = recs l @ [mk off b]"
    and app_err: "inv l \<Longrightarrow> room l b \<Longrightarrow> app b l = (l', Inl e) \<Longrightarrow> inv l' \<and> recs l' = recs l"
begin

definition written :: "(nat \<Rightarrow> bytes \<times> int32) \<Rightarrow> int64 list \<Rightarrow> 'r list" where
  "written batch ws = map (\<lambda>k. mk (ws ! k) (fst (batch k))) [0..<length ws]"

definition seq_state :: "(nat \<Rightarrow> bytes \<times> int32) \<Rightarrow> int64 list \<Rightarrow> seqState option" where
  "seq_state batch ws =
     (if ws = [] then None
      else let k = length ws - 1
           in Some \<lparr>lastSequence = baseSeq_of batch k + snd (batch k) - 1, lastBaseOffset = last ws,
                    lastRecordCount = snd (batch k)\<rparr>)"

definition run_inv where
  "run_inv batch key l0 m l acks n ws \<longleftrightarrow> inv l
     \<and> (length ws = length acks \<or> length ws = Suc (length acks)) \<and> acks = take (length acks) ws
     \<and> map_of (seqs m) key = seq_state batch ws
     \<and> (\<exists>added. recs l = recs l0 @ added \<and> subseq (written batch ws) added
          \<and> length added = length ws + n)"

lemma written_snoc: "written batch (ws @ [off]) = written batch ws @ [mk off (fst (batch (length ws)))]"
  by (auto simp: written_def nth_append)

lemma decision_next:
  assumes "map_of (seqs m) key = seq_state batch ws" "\<forall>k. snd (batch k) \<noteq> 0"
  shows "decision (checkSequenceLocked m (pid key) (topic key) (partition_of key)
    (baseSeq_of batch (length ws))) = AppendBatchNow"
proof (cases ws rule: rev_cases)
  case Nil
  then show ?thesis using assms(1)
    by (cases key) (simp add: checkSequenceLocked_def seq_state_def baseSeq_of_def)
next
  case (snoc vs w)
  then have "map_of (seqs m) \<lparr>pid = pid key, topic = topic key, partition_of = partition_of key\<rparr>
      = Some \<lparr>lastSequence = baseSeq_of batch (length vs) + snd (batch (length vs)) - 1,
          lastBaseOffset = w, lastRecordCount = snd (batch (length vs))\<rparr>"
    using assms(1) by (cases key) (simp add: seq_state_def Let_def)
  from check_next [OF this] show ?thesis using assms(2) snoc by (simp add: baseSeq_of_def)
qed

lemma decision_again:
  assumes "map_of (seqs m) key = seq_state batch (ws @ [off])"
  shows "checkSequenceLocked m (pid key) (topic key) (partition_of key)
    (baseSeq_of batch (length ws)) = \<lparr>decision = Duplicate, CachedOffset = off\<rparr>"
  using assms check_duplicate [of m "pid key" "topic key" "partition_of key"
      "baseSeq_of batch (length ws)" "snd (batch (length ws))" off]
  by (cases key) (simp add: seq_state_def Let_def)

lemma send_new:
  assumes "run_inv batch key l0 m l acks n ws" "length ws = length acks" "\<forall>k. snd (batch k) \<noteq> 0"
    and "room l (fst (batch (length acks)))" "send app batch key m l (length acks) = (m', l', res)"
  shows "(\<exists>e. res = Inl e \<and> run_inv batch key l0 m' l' acks n ws)
    \<or> (\<exists>off. res = Inr \<lparr>decision = AppendBatchNow, CachedOffset = off\<rparr>
        \<and> run_inv batch key l0 m' l' acks n (ws @ [off]))"
proof -
  let ?b = "fst (batch (length acks))"
  have inv: "inv l" "acks = take (length acks) ws" "map_of (seqs m) key = seq_state batch ws"
    using assms(1) by (simp_all add: run_inv_def)
  obtain added where ad: "recs l = recs l0 @ added" "subseq (written batch ws) added"
    "length added = length ws + n"
    using assms(1) by (auto simp: run_inv_def)
  have dn: "decision (checkSequenceLocked m (pid key) (topic key) (partition_of key)
      (baseSeq_of batch (length acks))) = AppendBatchNow"
    using decision_next [OF inv(3) assms(3)] assms(2) by simp
  from assms(5) show ?thesis unfolding send_def
  proof (cases rule: AppendBatch_cases)
    case (err e)
    then have "inv l'" "recs l' = recs l" using app_err [OF inv(1) assms(4)] by blast+
    then show ?thesis using err assms(1) by (simp add: run_inv_def)
  next
    case (wrote off)
    then have l': "inv l'" "recs l' = recs l @ [mk off ?b]"
      using app_ok [OF inv(1) assms(4)] by blast+
    have "map_of (seqs m') key = seq_state batch (ws @ [off])"
      using wrote assms(2) by (cases key) (simp add: committedLocked_def seq_state_def Let_def)
    moreover have "\<exists>added. recs l' = recs l0 @ added \<and> subseq (written batch (ws @ [off])) added
        \<and> length added = length (ws @ [off]) + n"
      using ad l'(2) assms(2) by (intro exI [of _ "added @ [mk off ?b]"]) (simp add: written_snoc)
    ultimately show ?thesis using wrote l'(1) inv(2) assms(2) by (simp add: run_inv_def)
  qed (use dn in simp)
qed

lemma send_again:
  assumes "run_inv batch key l0 m l acks n (ws @ [off])" "length ws = length acks"
    and "send app batch key m l (length acks) = (m', l', res)"
  shows "m' = m \<and> l' = l \<and> res = Inr \<lparr>decision = Duplicate, CachedOffset = off\<rparr>"
  using assms decision_again [of m key batch ws off]
  by (simp add: run_inv_def send_def AppendBatch_def Let_def)

lemma send_step:
  assumes "run_inv batch key l0 m l acks n ws" "\<forall>k. snd (batch k) \<noteq> 0"
    and "room l (fst (batch (length acks)))" "send app batch key m l (length acks) = (m', l', res)"
  shows "\<exists>ws'. run_inv batch key l0 m' l' acks n ws'
    \<and> (\<forall>c. res = Inr c \<longrightarrow> length ws' = Suc (length acks) \<and> last ws' = CachedOffset c)"
proof (cases "length ws = length acks")
  case True
  from send_new [OF assms(1) True assms(2-4)] True show ?thesis by (elim disjE exE) auto
next
  case False
  then have len: "length ws = Suc (length acks)" using assms(1) by (simp add: run_inv_def)
  then obtain vs w where ws: "ws = vs @ [w]" "length vs = length acks" by (cases ws rule: rev_cases) auto
  then show ?thesis using send_again [OF assms(1) [unfolded ws(1)] ws(2) assms(4)] assms(1) by auto
qed

lemma other_step:
  assumes "run_inv batch key l0 m l acks n ws" "room l b" "key' \<noteq> key"
    and "AppendBatch m (pid key') (topic key') (partition_of key') s cnt (app b) l = (m', l', res)"
  shows "run_inv batch key l0 m' l' acks
    (case res of Inl e \<Rightarrow> n | Inr c \<Rightarrow> if decision c = AppendBatchNow then Suc n else n) ws"
  using assms(4)
proof (cases rule: AppendBatch_cases)
  case (err e)
  then show ?thesis
    using app_err [of l b l' e] assms(1,2) by (simp add: run_inv_def)
next
  case (wrote off)
  then have l': "inv l'" "recs l' = recs l @ [mk off b]"
    using app_ok [of l b l' off] assms(1,2) by (auto simp: run_inv_def)
  have "map_of (seqs m') key = map_of (seqs m) key"
    using wrote assms(3) by (cases key; cases key') (auto simp: committedLocked_def)
  moreover obtain added where "recs l = recs l0 @ added" "subseq (written batch ws) added"
    "length added = length ws + n"
    using assms(1) by (auto simp: run_inv_def)
  then have "recs l' = recs l0 @ added @ [mk off b]" "subseq (written batch ws) (added @ [mk off b])"
    "length (added @ [mk off b]) = length ws + Suc n"
    using l'(2) by (simp_all add: list_emb_prefix)
  ultimately show ?thesis using wrote assms(1) l'(1) unfolding run_inv_def by auto
qed (use assms(1) in simp)

lemma run_exactly_once:
  assumes "producer_run app room batch key l0 m l acks n" "inv l0" "\<forall>k. snd (batch k) \<noteq> 0"
  shows "\<exists>ws. run_inv batch key l0 m l acks n ws"
  using assms(1)
proof induction
  case (start m)
  then show ?case using assms(2) by (intro exI [of _ "[]"]) (simp add: run_inv_def seq_state_def written_def)
next
  case (acked m l acks n m' l' c)
  then obtain ws where "run_inv batch key l0 m' l' acks n ws" "length ws = Suc (length acks)"
    "last ws = CachedOffset c"
    using send_step [OF _ assms(3)] by metis
  then have "run_inv batch key l0 m' l' (acks @ [CachedOffset c]) n ws"
    by (cases ws rule: rev_cases) (auto simp: run_inv_def)
  then show ?case ..
next
  case (lost m l acks n m' l' res)
  then show ?case using send_step [OF _ assms(3)] by metis
next
  case (other m l acks n b key' s cnt m' l' res)
  then show ?case using other_step by metis
qed

end

text \<open>The sink of the broker: the partition's log, with the offset stamped into the batch.\<close>

definition append_stamped :: "bytes \<Rightarrow> Log \<Rightarrow> Log \<times> (go_error + int64)" where
  "append_stamped b l = AppendWithOffset l b stampOffset"

definition log_room :: "Log \<Rightarrow> bytes \<Rightarrow> bool" where
  "log_room l b \<longleftrightarrow> 8 \<le> length b \<and> length b < 2 ^ 32 \<and> sint (nextOffset l) < 2 ^ 63 - 1"

definition stamped_record :: "int64 \<Rightarrow> bytes \<Rightarrow> LogRecord" where
  "stamped_record off b = \<lparr>Offset = off, Payload = stampOffset off b\<rparr>"

interpretation log_sink: batch_sink append_stamped log_room log_entries stamped_record log_inv
proof
  fix l b l' off e
  assume a: "log_inv l" "log_room l b"
  then have len: "length b < 2 ^ 32" "length (stampOffset (nextOffset l) b) = length b"
    "sint (nextOffset l) < 2 ^ 63 - 1"
    by (simp_all add: log_room_def)
  note sound = AppendWithOffset_sound [OF a(1), of b stampOffset, OF _ len]
  show "log_inv l' \<and> log_entries l' = log_entries l @ [stamped_record off b]"
    if "append_stamped b l = (l', Inr off)"
    using sound [of l' "Inr off"] that by (simp add: append_stamped_def stamped_record_def)
  show "log_inv l' \<and> log_entries l' = log_entries l" if "append_stamped b l = (l', Inl e)"
    using sound [of l' "Inl e"] that by (simp add: append_stamped_def)
qed

section \<open>Properties\<close>


text \<open>A producer whose first acknowledgement is lost.\<close>

definition demo_batch :: "nat \<Rightarrow> bytes \<times> int32" where
  "demo_batch k = ([0, 0, 0, 0, 0, 0, 0, 0, of_nat k], 1)"

definition demo_key :: seqKey where
  "demo_key = \<lparr>pid = 1, topic = ''t'', partition_of = 0\<rparr>"

lemma demo_run:
  "\<exists>m l acks. producer_run append_stamped log_room demo_batch demo_key (fresh_log []) m l acks 0
    \<and> acks = [0] \<and> map Offset (log_entries l) = [0]"
proof -
  let ?s1 = "send append_stamped demo_batch demo_key NewProducerManager (fresh_log []) 0"
  let ?s2 = "send append_stamped demo_batch demo_key (fst ?s1) (fst (snd ?s1)) 0"
  have "nextOffset (fst (snd ?s1)) = 1" by code_simp
  then have room: "log_room (fresh_log []) (fst (demo_batch 0))"
    "log_room (fst (snd ?s1)) (fst (demo_batch 0))"
    by (simp_all add: log_room_def demo_batch_def)
  have "producer_run append_stamped log_room demo_batch demo_key (fresh_log [])
      NewProducerManager (fresh_log []) [] 0"
    by (rule producer_run.start) (simp add: NewProducerManager_def)
  then have "producer_run append_stamped log_room demo_batch demo_key (fresh_log [])
      (fst ?s1) (fst (snd ?s1)) [] 0"
    by (rule producer_run.lost [where res = "snd (snd ?s1)"]) (simp_all add: room)
  moreover have "snd (snd ?s2) = Inr \<lparr>decision = Duplicate, CachedOffset = 0\<rparr>" by code_simp
  ultimately have "producer_run append_stamped log_room demo_batch demo_key (fresh_log [])
      (fst ?s2) (fst (snd ?s2)) ([] @ [CachedOffset \<lparr>decision = Duplicate, CachedOffset = 0\<rparr>]) 0"
    using room(2) by (intro producer_run.acked) (simp_all add: prod_eq_iff)
  moreover have "map Offset (log_entries (fst (snd ?s2))) = [0]" by code_simp
  ultimately show ?thesis by (auto intro!: exI)
qed


text \<open>
  A batch is written only when it continues the sequence: if the log changes or an offset
  is newly assigned, the batch is the first of its producer and partition with sequence
  number 0, or it starts right after the last one committed. A gap is refused and leaves
  manager and log alone, and so is a repetition; no other producer or partition is affected
  in any case.
\<close>

theorem append_in_sequence:
  assumes "AppendBatch m pd tp pt baseSeq n app l = (m', l', res)"
  shows "(m' \<noteq> m \<or> l' \<noteq> l \<longrightarrow>
      (case map_of (seqs m) \<lparr>pid = pd, topic = tp, partition_of = pt\<rparr> of
         None \<Rightarrow> baseSeq = 0
       | Some st \<Rightarrow> baseSeq = lastSequence st + 1))
    \<and> (case res of Inr c \<Rightarrow> decision c = OutOfOrder \<longrightarrow> m' = m \<and> l' = l | Inl e \<Rightarrow> m' = m)
    \<and> (\<forall>k. k \<noteq> \<lparr>pid = pd, topic = tp, partition_of = pt\<rparr> \<longrightarrow> map_of (seqs m') k = map_of (seqs m) k)"
proof -
  let ?k = "\<lparr>pid = pd, topic = tp, partition_of = pt\<rparr>"
  have "case map_of (seqs m) ?k of None \<Rightarrow> baseSeq = 0 | Some st \<Rightarrow> baseSeq = lastSequence st + 1"
    if "decision (checkSequenceLocked m pd tp pt baseSeq) = AppendBatchNow"
    using that by (auto simp: checkSequenceLocked_def Let_def split: option.splits if_splits)
  note sq = this
  show ?thesis
    using assms by (cases rule: AppendBatch_cases) (auto simp: committedLocked_def dest: sq)
qed

theorem append_in_sequence_witness:
  "case AppendBatch NewProducerManager 1 ''t'' 0 5 1 (append_stamped (fst (demo_batch 0))) (fresh_log [])
     of (m', l', res) \<Rightarrow> m' = NewProducerManager \<and> l' = fresh_log []
       \<and> res = Inr \<lparr>decision = OutOfOrder, CachedOffset = 0\<rparr>"
proof -
  obtain m' l' res where ab: "AppendBatch NewProducerManager 1 ''t'' 0 5 1
      (append_stamped (fst (demo_batch 0))) (fresh_log []) = (m', l', res)" by (metis prod_cases3)
  moreover have "res = Inr \<lparr>decision = OutOfOrder, CachedOffset = 0\<rparr>"
    using ab by (simp add: AppendBatch_def checkSequenceLocked_def NewProducerManager_def)
  ultimately show ?thesis using append_in_sequence [OF ab] by simp
qed

fun init_n :: "nat \<Rightarrow> ProducerManager \<Rightarrow> int64 list" where
  "init_n 0 m = []"
| "init_n (Suc n) m = (case InitProducerID m of (m', p, _) \<Rightarrow> p # init_n n m')"

lemma init_n_ids:
  "init_n n m = map (\<lambda>i. nextPID m + of_nat i) [1..<Suc n]"
proof (induction n arbitrary: m)
  case (Suc n)
  have "[1..<Suc (Suc n)] = 1 # map Suc [1..<Suc n]" by (simp add: upt_conv_Cons map_Suc_upt)
  then show ?case by (simp add: InitProducerID_def Suc algebra_simps del: upt_Suc)
qed simp

text \<open>
  Producer ids are handed out once: as long as fewer than \<open>2^63\<close> were given out, the next
  ids are positive and pairwise different, whatever happens to the sequences in between.
\<close>

theorem producer_ids_unique:
  assumes "0 \<le> sint (nextPID m)" "sint (nextPID m) + int n < 2 ^ 63"
  shows "distinct (init_n n m) \<and> (\<forall>p \<in> set (init_n n m). sint (nextPID m) < sint p)"
proof -
  have val: "sint (nextPID m + of_nat i) = sint (nextPID m) + int i" if "i \<le> n" for i
  proof -
    have "sint (of_nat i :: int64) = int i"
      using sint_of_int_64 [of "int i"] that assms by simp
    then show ?thesis using sint_add_64 [of "nextPID m" "of_nat i"] that assms by simp
  qed
  have "inj_on (\<lambda>i. nextPID m + of_nat i) (set [1..<Suc n])"
    using val by (auto simp: inj_on_def simp del: upt_Suc) (metis add_left_cancel int_int_eq less_Suc_eq_le)
  moreover have "\<forall>i \<in> set [1..<Suc n]. sint (nextPID m) < sint (nextPID m + of_nat i)"
    using val by (auto simp del: upt_Suc)
  ultimately show ?thesis by (simp add: init_n_ids distinct_map del: upt_Suc)
qed

theorem producer_ids_unique_witness: "init_n 3 NewProducerManager = [1, 2, 3] \<and> distinct (init_n 3 NewProducerManager)"
  using producer_ids_unique [of NewProducerManager 3]
  by (simp add: NewProducerManager_def init_n_ids upt_rec)

text \<open>
  The snapshot lists every sequence state exactly once, under its producer id; the
  producers come in increasing order without repetition, and the rows of each by topic and
  partition.
\<close>

theorem snapshot_complete:
  "mset (concat (map (\<lambda>s. map (Pair (ProducerID s)) (Partitions s)) (Snapshot m)))
      = mset (map (\<lambda>kv. (pid (fst kv), snapshot_row kv)) (seqs m))
    \<and> sorted (map (sint \<circ> ProducerID) (Snapshot m)) \<and> distinct (map ProducerID (Snapshot m))
    \<and> list_all (\<lambda>s. sorted (map (\<lambda>row. (Topic row, sint (Partition row))) (Partitions s))) (Snapshot m)"
proof (intro conjI)
  define pids where "pids = sort_key sint (remdups (map (pid \<circ> fst) (seqs m)))"
  have ids: "map ProducerID (Snapshot m) = pids" by (simp add: Snapshot_def pids_def comp_def)
  show "distinct (map ProducerID (Snapshot m))" unfolding ids by (simp add: pids_def)
  show "sorted (map (sint \<circ> ProducerID) (Snapshot m))"
    unfolding map_map [symmetric] ids by (simp add: pids_def)
  show "list_all (\<lambda>s. sorted (map (\<lambda>row. (Topic row, sint (Partition row))) (Partitions s))) (Snapshot m)"
    by (simp add: Snapshot_def list_all_iff)
  let ?f = "\<lambda>kv. (pid (fst kv), snapshot_row kv)" and ?g = "\<lambda>p. filter (\<lambda>kv. pid (fst kv) = p) (seqs m)"
  have row: "mset (map (Pair p) (sort_key k (map snapshot_row (?g p)))) = mset (map ?f (?g p))"
    for p and k :: "ProducerPartition \<Rightarrow> string \<times> int"
    by (simp add: mset_map image_mset.compositionality comp_def) (auto intro!: image_mset_cong)
  have cong: "mset (concat (map f ps)) = mset (concat (map g ps))"
    if "\<And>p. mset (f p) = mset (g p)" for f g :: "int64 \<Rightarrow> (int64 \<times> ProducerPartition) list" and ps
    using that by (induction ps) auto
  have "map (\<lambda>s. map (Pair (ProducerID s)) (Partitions s)) (Snapshot m)
      = map (\<lambda>p. map (Pair p) (sort_key (\<lambda>row. (Topic row, sint (Partition row)))
          (map snapshot_row (?g p)))) pids"
    by (simp add: Snapshot_def pids_def Let_def)
  then have "mset (concat (map (\<lambda>s. map (Pair (ProducerID s)) (Partitions s)) (Snapshot m)))
      = mset (concat (map (\<lambda>p. map ?f (?g p)) pids))"
    by (simp only:) (rule cong, rule row)
  also have "\<dots> = image_mset ?f (mset (concat (map ?g pids)))"
    by (simp add: mset_map [symmetric] map_concat comp_def del: mset_map)
  also have "mset (concat (map ?g pids)) = mset (seqs m)"
    by (rule mset_group_by) (auto simp: pids_def)
  finally show "mset (concat (map (\<lambda>s. map (Pair (ProducerID s)) (Partitions s)) (Snapshot m)))
      = mset (map ?f (seqs m))" by simp
qed

end
