(* ===== verification/Assignor.thy ===== *)
theory Assignor
  imports Wire "HOL-Library.Signed_Division"
begin

text \<open>
  The partition assignors of \<open>internal/assignor\<close> and the encoding of an assignment
  (\<open>codec.go\<close>). Partition counts and partition ids are 32-bit words.
\<close>

section \<open>Data and helpers (assignor.go)\<close>

record TopicPartitions =
  Topic :: string
  Partitions :: "int32 list"

record Subscription =
  MemberID :: string
  Topics :: "string list"

type_synonym assignments = "(string, TopicPartitions list) gomap"

text \<open>\<open>assignments[memberID]\<close>: the zero value of a missing entry is the nil slice.\<close>

definition entry_of :: "assignments \<Rightarrow> string \<Rightarrow> TopicPartitions list" where
  "entry_of asg m = (case map_of asg m of None \<Rightarrow> [] | Some tps \<Rightarrow> tps)"

definition sortedTopics :: "(string, int32) gomap \<Rightarrow> string list" where
  "sortedTopics partitionCounts = sort (mkeys partitionCounts)"

definition sortedMembers :: "Subscription list \<Rightarrow> string list" where
  "sortedMembers subs = sort (map MemberID subs)"

fun subscribes_in :: "string list \<Rightarrow> string \<Rightarrow> bool" where
  "subscribes_in [] topic = False"
| "subscribes_in (subscribedTopic # ts) topic =
     (if subscribedTopic = topic then True else subscribes_in ts topic)"

definition subscribesTo :: "Subscription \<Rightarrow> string \<Rightarrow> bool" where
  "subscribesTo sub topic = subscribes_in (Topics sub) topic"

definition subscribedMembers :: "Subscription list \<Rightarrow> string \<Rightarrow> string list" where
  "subscribedMembers subs topic =
     sort (map MemberID (filter (\<lambda>sub. subscribesTo sub topic) subs))"

definition contiguousPartitions :: "int32 \<Rightarrow> int32 \<Rightarrow> int32 list" where
  "contiguousPartitions start fin = map (\<lambda>i. start + of_nat i) [0..<nat (sint fin - sint start)]"

definition appendPartition :: "TopicPartitions list \<Rightarrow> string \<Rightarrow> int32 \<Rightarrow> TopicPartitions list" where
  "appendPartition as topic pt =
     (if as \<noteq> [] \<and> Topic (last as) = topic then
        butlast as @ [(last as)\<lparr>Partitions := Partitions (last as) @ [pt]\<rparr>]
      else as @ [\<lparr>Topic = topic, Partitions = [pt]\<rparr>])"

text \<open>\<open>partitionCounts[topic]\<close>: 0 for a missing topic.\<close>

definition count_of :: "(string, int32) gomap \<Rightarrow> string \<Rightarrow> int32" where
  "count_of partitionCounts topic =
     (case map_of partitionCounts topic of None \<Rightarrow> 0 | Some c \<Rightarrow> c)"

section \<open>Range\<close>

text \<open>The inner loop: member number \<open>i\<close> is next, the partitions below \<open>cursor\<close> are given out.\<close>

fun range_members ::
    "string \<Rightarrow> int32 \<Rightarrow> int32 \<Rightarrow> nat \<Rightarrow> int32 \<Rightarrow> string list \<Rightarrow> assignments \<Rightarrow> assignments" where
  "range_members topic perMember extra i cursor [] asg = asg"
| "range_members topic perMember extra i cursor (memberID # ms) asg =
     (let count = (if sint (of_nat i :: int32) < sint extra then perMember + 1 else perMember)
      in if count = 0 then range_members topic perMember extra (Suc i) cursor ms asg
         else range_members topic perMember extra (Suc i) (cursor + count) ms
           (mput memberID (entry_of asg memberID
              @ [\<lparr>Topic = topic, Partitions = contiguousPartitions cursor (cursor + count)\<rparr>]) asg))"

definition range_topic ::
    "Subscription list \<Rightarrow> (string, int32) gomap \<Rightarrow> string \<Rightarrow> assignments \<Rightarrow> assignments" where
  "range_topic subs partitionCounts topic asg =
     (let members = subscribedMembers subs topic
      in if members = [] then asg
         else
           (let partitionCount = count_of partitionCounts topic;
                n = sint (of_nat (length members) :: int32);
                perMember = word_of_int (sint partitionCount sdiv n);
                extra = word_of_int (sint partitionCount smod n)
            in range_members topic perMember extra 0 0 members asg))"

definition Range :: "Subscription list \<Rightarrow> (string, int32) gomap \<Rightarrow> assignments" where
  "Range subs partitionCounts =
     fold (range_topic subs partitionCounts) (sortedTopics partitionCounts) []"

section \<open>RoundRobin\<close>

text \<open>The partitions in the order of the two nested loops.\<close>

definition flat_partitions :: "(string, int32) gomap \<Rightarrow> (string \<times> int32) list" where
  "flat_partitions partitionCounts =
     concat (map (\<lambda>topic. map (Pair topic) (contiguousPartitions 0 (count_of partitionCounts topic)))
       (sortedTopics partitionCounts))"

fun deal :: "string list \<Rightarrow> nat \<Rightarrow> (string \<times> int32) list \<Rightarrow> assignments \<Rightarrow> assignments" where
  "deal members i [] asg = asg"
| "deal members i ((topic, pt) # tps) asg =
     (let memberID = members ! (i mod length members)
      in deal members (Suc i) tps
           (mput memberID (appendPartition (entry_of asg memberID) topic pt) asg))"

definition RoundRobin :: "Subscription list \<Rightarrow> (string, int32) gomap \<Rightarrow> assignments" where
  "RoundRobin subs partitionCounts =
     (let members = sortedMembers subs
      in if members = [] then [] else deal members 0 (flat_partitions partitionCounts) [])"

section \<open>Encoding (codec.go)\<close>

definition write_topic_partitions :: "TopicPartitions \<Rightarrow> bytes" where
  "write_topic_partitions a = WriteString (Topic a) @ WriteArray WriteInt32 (Partitions a)"

definition EncodeAssignment :: "TopicPartitions list \<Rightarrow> bytes" where
  "EncodeAssignment as = WriteInt16 0 @ WriteArray write_topic_partitions as @ WriteInt32 (-1)"

definition read_topic_partitions :: "TopicPartitions decoder" where
  "read_topic_partitions =
     dbind ReadString (\<lambda>topicName.
     dbind (ReadArray ReadInt32) (\<lambda>partitions.
     dreturn \<lparr>Topic = topicName, Partitions = partitions\<rparr>))"

definition DecodeAssignment :: "bytes \<Rightarrow> go_error + TopicPartitions list" where
  "DecodeAssignment b =
     (if length b = 0 then Inr []
      else map_sum id fst (dbind ReadInt16 (\<lambda>_. ReadArray read_topic_partitions) b))"

interpretation topic_partitions_codec:
  codec write_topic_partitions read_topic_partitions
    "\<lambda>a. length (Topic a) < 2 ^ 15 \<and> length (Partitions a) < 2 ^ 31"
  by unfold_locales (simp add: write_topic_partitions_def read_topic_partitions_def codec_rt)

text \<open>
  An assignment is read back from its encoding, for topic names below 32768 bytes.
\<close>

theorem assignment_roundtrip:
  assumes "\<forall>a \<in> set as. length (Topic a) < 2 ^ 15 \<and> length (Partitions a) < 2 ^ 31"
    and "length as < 2 ^ 31"
  shows "DecodeAssignment (EncodeAssignment as) = Inr as"
proof -
  have "list_all (\<lambda>a. length (Topic a) < 2 ^ 15 \<and> length (Partitions a) < 2 ^ 31) as"
    using assms(1) by (simp add: list_all_iff)
  then have "ReadArray read_topic_partitions (WriteArray write_topic_partitions as @ WriteInt32 (-1))
      = Inr (as, WriteInt32 (-1))"
    using assms(2) by (rule topic_partitions_codec.array_enc)
  then show ?thesis by (simp add: DecodeAssignment_def EncodeAssignment_def codec_rt)
qed

theorem assignment_roundtrip_witness:
  "DecodeAssignment (EncodeAssignment [\<lparr>Topic = ''orders'', Partitions = [0, 2]\<rparr>])
    = Inr [\<lparr>Topic = ''orders'', Partitions = [0, 2]\<rparr>]"
  by (rule assignment_roundtrip) simp_all

section \<open>Round robin deals every partition once\<close>

definition owned :: "assignments \<Rightarrow> string \<Rightarrow> (string \<times> int32) list" where
  "owned asg m = concat (map (\<lambda>tp. map (Pair (Topic tp)) (Partitions tp)) (entry_of asg m))"

lemma entry_of_mput [simp]: "entry_of (mput k v asg) m = (if m = k then v else entry_of asg m)"
  by (simp add: entry_of_def)

lemma owned_appendPartition:
  "concat (map (\<lambda>tp. map (Pair (Topic tp)) (Partitions tp)) (appendPartition as topic pt))
    = concat (map (\<lambda>tp. map (Pair (Topic tp)) (Partitions tp)) as) @ [(topic, pt)]"
  by (cases as rule: rev_cases) (auto simp: appendPartition_def)

lemma owned_deal:
  assumes "distinct members" "k < length members"
  shows "owned (deal members i tps asg) (members ! k)
    = owned asg (members ! k)
      @ map (\<lambda>j. tps ! j) (filter (\<lambda>j. (i + j) mod length members = k) [0..<length tps])"
proof (induction tps arbitrary: i asg)
  case (Cons tp tps)
  obtain topic pt where tp: "tp = (topic, pt)" by fastforce
  have ne: "i mod length members < length members" using assms(2) by (intro mod_less_divisor) auto
  have "members ! k = members ! (i mod length members) \<longleftrightarrow> k = i mod length members"
    using nth_eq_iff_index_eq [OF assms(1,2) ne] .
  then show ?case
    using Cons.IH [of "Suc i"] unfolding tp
    by (auto simp: owned_def owned_appendPartition Let_def upt_conv_Cons map_Suc_upt [symmetric]
        filter_map comp_def simp del: upt_Suc)
qed simp

lemma set_contiguous:
  assumes "0 \<le> sint a"
  shows "set (contiguousPartitions a b) = {p. sint a \<le> sint p \<and> sint p < sint b}"
    "distinct (contiguousPartitions a b)"
proof -
  have val: "sint (a + of_nat i) = sint a + int i" if "int i < sint b - sint a" for i
  proof -
    have lt: "sint a + int i < 2 ^ 31" using that sint_range_32(2) [of b] by simp
    have "a + of_nat i = word_of_int (sint a + int i)" by simp
    then show ?thesis using sint_of_int_32 [of "sint a + int i"] lt assms by simp
  qed
  show "distinct (contiguousPartitions a b)"
    using val by (auto simp: contiguousPartitions_def distinct_map inj_on_def)
      (metis add_left_cancel int_int_eq zless_nat_eq_int_zless)
  show "set (contiguousPartitions a b) = {p. sint a \<le> sint p \<and> sint p < sint b}" (is "?l = ?r")
  proof
    show "?l \<subseteq> ?r" using val by (auto simp: contiguousPartitions_def)
    show "?r \<subseteq> ?l"
    proof
      fix p assume "p \<in> ?r"
      moreover have p: "p = a + of_nat (nat (sint p - sint a))" using calculation by simp
      ultimately show "p \<in> ?l"
        unfolding contiguousPartitions_def set_map
        by (intro image_eqI [where x = "nat (sint p - sint a)"]) auto
    qed
  qed
qed

lemma distinct_concat_Pair:
  "distinct ts \<Longrightarrow> \<forall>t. distinct (f t) \<Longrightarrow> distinct (concat (map (\<lambda>t. map (Pair t) (f t)) ts))"
  by (induction ts) (auto simp: distinct_map inj_on_def)

lemma flat_partitions_props:
  assumes "distinct (mkeys counts)"
  shows "distinct (flat_partitions counts)"
    "set (flat_partitions counts)
      = {(t, p). \<exists>c. map_of counts t = Some c \<and> 0 \<le> sint p \<and> sint p < sint c}"
proof -
  have ts: "set (sortedTopics counts) = dom (map_of counts)" "distinct (sortedTopics counts)"
    using assms by (simp_all add: sortedTopics_def dom_map_of_conv_image_fst)
  show "set (flat_partitions counts)
      = {(t, p). \<exists>c. map_of counts t = Some c \<and> 0 \<le> sint p \<and> sint p < sint c}"
    using ts(1) set_contiguous(1) [of 0]
    by (auto simp: flat_partitions_def count_of_def split: option.splits)
  show "distinct (flat_partitions counts)"
    unfolding flat_partitions_def using ts(2) set_contiguous(2) [of 0]
    by (intro distinct_concat_Pair) simp_all
qed

lemma RoundRobin_deals:
  assumes "distinct (map MemberID subs)" "subs \<noteq> []"
  shows "k < length subs \<Longrightarrow> owned (RoundRobin subs counts) (sortedMembers subs ! k)
      = map (nth (flat_partitions counts)) (filter (\<lambda>j. j mod length subs = k) [0..<length (flat_partitions counts)])"
    and "mset (concat (map (owned (RoundRobin subs counts)) (sortedMembers subs))) = mset (flat_partitions counts)"
proof -
  let ?ms = "sortedMembers subs" and ?fl = "flat_partitions counts" and ?n = "length subs"
  let ?js = "\<lambda>k. filter (\<lambda>j. j mod ?n = k) [0..<length ?fl]"
  have ms: "distinct ?ms" "length ?ms = ?n" using assms(1) by (simp_all add: sortedMembers_def)
  then have ne: "?ms \<noteq> []" using assms(2) by auto
  have own: "owned (RoundRobin subs counts) (?ms ! k) = map (nth ?fl) (?js k)" if "k < ?n" for k
    using owned_deal [OF ms(1), of k 0 ?fl "[]"] that ms ne
    by (simp add: RoundRobin_def owned_def entry_of_def)
  then show "k < ?n \<Longrightarrow> owned (RoundRobin subs counts) (?ms ! k) = map (nth ?fl) (?js k)" .
  have "map (owned (RoundRobin subs counts)) ?ms = map (\<lambda>k. map (nth ?fl) (?js k)) [0..<?n]"
    using own ms(2) by (intro nth_equalityI) simp_all
  then have "concat (map (owned (RoundRobin subs counts)) ?ms)
      = map (nth ?fl) (concat (map ?js [0..<?n]))"
    by (simp add: map_concat comp_def)
  moreover have "mset (concat (map ?js [0..<?n])) = mset [0..<length ?fl]"
    using assms(2) by (intro mset_group_by) auto
  ultimately have "mset (concat (map (owned (RoundRobin subs counts)) ?ms))
      = mset (map (nth ?fl) [0..<length ?fl])"
    by (simp only: mset_map)
  then show "mset (concat (map (owned (RoundRobin subs counts)) ?ms)) = mset ?fl"
    by (simp only: map_nth)
qed

text \<open>
  C35. Round robin deals every partition of every topic to exactly one member, and the numbers
  of partitions of two members differ by at most one: with L partitions and n members, the
  first \<open>L mod n\<close> members in order have \<open>L div n + 1\<close>, the others \<open>L div n\<close>.
\<close>

theorem round_robin_fair:
  assumes "distinct (map MemberID subs)" "subs \<noteq> []" "distinct (mkeys counts)"
  shows "distinct (concat (map (owned (RoundRobin subs counts)) (sortedMembers subs)))
    \<and> set (concat (map (owned (RoundRobin subs counts)) (sortedMembers subs)))
        = {(t, p). \<exists>c. map_of counts t = Some c \<and> 0 \<le> sint p \<and> sint p < sint c}
    \<and> (\<forall>k < length subs. length (owned (RoundRobin subs counts) (sortedMembers subs ! k))
        = length (flat_partitions counts) div length subs
          + (if k < length (flat_partitions counts) mod length subs then 1 else 0))"
proof -
  let ?ms = "sortedMembers subs" and ?fl = "flat_partitions counts" and ?n = "length subs"
  note deals = RoundRobin_deals [OF assms(1,2), where counts = counts]
  note fl = flat_partitions_props [OF assms(3)]
  have "distinct (concat (map (owned (RoundRobin subs counts)) ?ms))"
    using mset_eq_imp_distinct_iff [OF deals(2)] fl(1) by simp
  moreover have "set (concat (map (owned (RoundRobin subs counts)) ?ms)) = set ?fl"
    using deals(2) by (rule mset_eq_setD)
  moreover have "length (owned (RoundRobin subs counts) (?ms ! k))
      = length ?fl div ?n + (if k < length ?fl mod ?n then 1 else 0)" if "k < ?n" for k
    by (simp only: deals(1) [OF that] length_map length_filter_mod [OF that])
  ultimately show ?thesis using fl(2) by blast
qed

theorem round_robin_fair_witness:
  "length (owned (RoundRobin [\<lparr>MemberID = ''m2'', Topics = [''t'']\<rparr>, \<lparr>MemberID = ''m1'', Topics = [''t'']\<rparr>]
      [(''t'', 3)]) ''m1'') = 2"
proof -
  let ?subs = "[\<lparr>MemberID = ''m2'', Topics = [''t'']\<rparr>, \<lparr>MemberID = ''m1'', Topics = [''t'']\<rparr>]"
  have "sortedMembers ?subs = [''m1'', ''m2'']" "length (flat_partitions [(''t'', 3)]) = 3" by code_simp+
  moreover have "length ?subs = 2" by simp
  moreover have "distinct (map MemberID ?subs)" "distinct (mkeys [(''t'', 3)])" by simp_all
  ultimately show ?thesis
    using round_robin_fair [of ?subs "[(''t'', 3)]"] by (simp only:) (force dest: spec [of _ 0])
qed

section \<open>Range splits every topic\<close>

definition assigned :: "assignments \<Rightarrow> string \<Rightarrow> string \<Rightarrow> int32 list" where
  "assigned asg m t = concat (map Partitions (filter (\<lambda>tp. Topic tp = t) (entry_of asg m)))"

lemma assigned_mput [simp]:
  "assigned (mput k (entry_of asg k @ [\<lparr>Topic = topic, Partitions = ps\<rparr>]) asg) m t
    = (if m = k \<and> t = topic then assigned asg m t @ ps else assigned asg m t)"
  by (simp add: assigned_def)

lemma range_members_other:
  "t \<noteq> topic \<or> m \<notin> set ms \<Longrightarrow>
    assigned (range_members topic q e i cur ms asg) m t = assigned asg m t"
  by (induction topic q e i cur ms asg rule: range_members.induct) (auto simp: Let_def)

text \<open>The shares of the members, in their order.\<close>

definition share_size :: "int32 \<Rightarrow> int32 \<Rightarrow> nat \<Rightarrow> int32" where
  "share_size q e i = (if sint (of_nat i :: int32) < sint e then q + 1 else q)"

fun shares :: "int32 \<Rightarrow> int32 \<Rightarrow> nat \<Rightarrow> int32 \<Rightarrow> nat \<Rightarrow> int32 list list" where
  "shares q e i cur 0 = []"
| "shares q e i cur (Suc n) =
     contiguousPartitions cur (cur + share_size q e i) # shares q e (Suc i) (cur + share_size q e i) n"

lemma range_members_shares:
  assumes "distinct ms" "\<forall>m \<in> set ms. assigned asg m topic = []"
  shows "map (\<lambda>m. assigned (range_members topic q e i cur ms asg) m topic) ms
    = shares q e i cur (length ms)"
  using assms
proof (induction topic q e i cur ms asg rule: range_members.induct)
  case (2 topic q e i cur m ms asg)
  let ?c = "share_size q e i"
  show ?case
  proof (cases "?c = 0")
    case True
    then have "range_members topic q e i cur (m # ms) asg
        = range_members topic q e (Suc i) cur ms asg" by (simp add: share_size_def Let_def)
    then show ?thesis
      using 2 True range_members_other [of topic topic m ms]
      by (simp add: share_size_def contiguousPartitions_def)
  next
    case False
    let ?asg = "mput m (entry_of asg m
      @ [\<lparr>Topic = topic, Partitions = contiguousPartitions cur (cur + ?c)\<rparr>]) asg"
    have step: "range_members topic q e i cur (m # ms) asg
        = range_members topic q e (Suc i) (cur + ?c) ms ?asg"
      using False by (simp add: share_size_def Let_def)
    have "map (\<lambda>m. assigned (range_members topic q e (Suc i) (cur + ?c) ms ?asg) m topic) ms
        = shares q e (Suc i) (cur + ?c) (length ms)"
      by (rule "2.IH"(2)) (use 2 False in \<open>auto simp: share_size_def\<close>)
    then show ?thesis
      unfolding step using 2 range_members_other [of topic topic m ms] by simp
  qed
qed simp

lemma contiguous_upto:
  "0 \<le> sint a \<Longrightarrow> contiguousPartitions a b = map word_of_int [sint a..sint b - 1]"
  by (rule nth_equalityI) (simp_all add: contiguousPartitions_def nth_upto)

lemma shares_concat:
  assumes "0 \<le> sint q" "0 \<le> sint cur" "i + n < 2 ^ 31"
    and "sint cur + (\<Sum>j<n. sint q + (if int (i + j) < sint e then 1 else 0)) < 2 ^ 31"
  shows "concat (shares q e i cur n) = map word_of_int
      [sint cur..sint cur + (\<Sum>j<n. sint q + (if int (i + j) < sint e then 1 else 0)) - 1]
    \<and> (\<forall>k<n. int (length (shares q e i cur n ! k)) = sint q + (if int (i + k) < sint e then 1 else 0))"
  using assms
proof (induction n arbitrary: i cur)
  case (Suc n)
  define c where "c = sint q + (if int i < sint e then 1 else 0)"
  define r where "r = (\<Sum>j<n. sint q + (if int (Suc i + j) < sint e then 1 else 0))"
  have sum: "(\<Sum>j<Suc n. sint q + (if int (i + j) < sint e then 1 else 0)) = c + r"
    by (simp add: sum.lessThan_Suc_shift c_def r_def algebra_simps del: sum.lessThan_Suc)
  have pos: "0 \<le> r" "0 \<le> c" using Suc.prems(1) by (auto simp: r_def c_def intro!: sum_nonneg)
  have lt: "sint cur + c < 2 ^ 31" using Suc.prems(4) [unfolded sum] pos by linarith
  have sz: "sint (share_size q e i) = c"
  proof -
    have "sint (of_nat i :: int32) = int i"
      using sint_of_int_32 [of "int i"] Suc.prems(3) by simp
    moreover have "share_size q e i = word_of_int c"
      using calculation by (simp add: share_size_def c_def)
    ultimately show ?thesis using sint_of_int_32 [of c] pos lt Suc.prems(2) by simp
  qed
  have "cur + share_size q e i = word_of_int (sint cur + c)" by (simp flip: sz)
  then have cur: "sint (cur + share_size q e i) = sint cur + c"
    using sint_of_int_32 [of "sint cur + c"] pos lt Suc.prems(2) by simp
  have IH: "concat (shares q e (Suc i) (cur + share_size q e i) n)
      = map word_of_int [sint cur + c..sint cur + c + r - 1]
    \<and> (\<forall>k<n. int (length (shares q e (Suc i) (cur + share_size q e i) n ! k))
        = sint q + (if int (Suc i + k) < sint e then 1 else 0))"
    using Suc.IH [of "cur + share_size q e i" "Suc i", folded r_def, unfolded cur]
      Suc.prems(1-3) Suc.prems(4) [unfolded sum] pos
    by (simp add: add.assoc)
  have "[sint cur..sint cur + c - 1] @ [sint cur + c..sint cur + c + r - 1]
      = [sint cur..sint cur + c + r - 1]"
    using pos upto_split1 [of "sint cur" "sint cur + c" "sint cur + c + r - 1"]
      upto_split2 [of "sint cur" "sint cur + c - 1" "sint cur + c + r - 1"]
    by (cases "c = 0") auto
  then have "concat (shares q e i cur (Suc n)) = map word_of_int [sint cur..sint cur + (c + r) - 1]"
    using IH Suc.prems(2) by (simp add: contiguous_upto cur add.assoc flip: map_append)
  moreover have "int (length (shares q e i cur (Suc n) ! k))
      = sint q + (if int (i + k) < sint e then 1 else 0)" if "k < Suc n" for k
    using that IH Suc.prems(2) pos(2)
    by (cases k) (auto simp: contiguous_upto cur c_def)
  ultimately show ?case unfolding sum by blast
qed simp

lemma sdiv_smod_nonneg:
  "0 \<le> (a :: int) \<Longrightarrow> 0 < b \<Longrightarrow> a sdiv b = a div b \<and> a smod b = a mod b"
  by (cases "a = 0") (auto simp: signed_divide_int_def signed_modulo_int_def)

lemma range_topic_shares:
  assumes "distinct (map MemberID subs)" "length subs < 2 ^ 31" "subscribedMembers subs topic \<noteq> []"
    and "0 \<le> sint (count_of counts topic)" "\<forall>m. assigned asg m topic = []"
  shows "concat (map (\<lambda>m. assigned (range_topic subs counts topic asg) m topic) (subscribedMembers subs topic))
      = map word_of_int [0..sint (count_of counts topic) - 1]"
    and "k < length (subscribedMembers subs topic) \<Longrightarrow>
      int (length (assigned (range_topic subs counts topic asg) (subscribedMembers subs topic ! k) topic))
      = sint (count_of counts topic) div int (length (subscribedMembers subs topic))
        + (if int k < sint (count_of counts topic) mod int (length (subscribedMembers subs topic))
           then 1 else 0)"
proof -
  let ?ms = "subscribedMembers subs topic" and ?c = "sint (count_of counts topic)"
  let ?n = "length ?ms"
  define q e where "q = (word_of_int (?c div int ?n) :: int32)" and "e = (word_of_int (?c mod int ?n) :: int32)"
  have "?n \<le> length subs" by (simp add: subscribedMembers_def)
  then have n: "0 < ?n" "?n < 2 ^ 31" using assms(2,3) by auto
  have d: "distinct ?ms"
    using assms(1) by (simp add: subscribedMembers_def distinct_map inj_on_def)
  have c: "?c < 2 ^ 31" by (rule sint_range_32)
  have qi: "sint q = ?c div int ?n" "0 \<le> sint q"
  proof -
    have "?c div int ?n \<le> ?c div 1" using assms(4) n(1) by (intro zdiv_mono2) (simp_all add: Suc_le_eq)
    then have "?c div int ?n \<le> ?c" by simp
    moreover have "0 \<le> ?c div int ?n" using assms(4) n(1) by (intro div_int_pos_iff [THEN iffD2]) simp
    ultimately show "sint q = ?c div int ?n" "0 \<le> sint q"
      unfolding q_def using sint_of_int_32 [of "?c div int ?n"] c by auto
  qed
  have md: "0 \<le> ?c mod int ?n" "?c mod int ?n < int ?n"
    using n(1) pos_mod_sign [of "int ?n" ?c] pos_mod_bound [of "int ?n" ?c] by linarith+
  have small: "sint (word_of_int x :: int32) = x" if "0 \<le> x" "x < int ?n" for x
    using that n(2) by (intro sint_of_int_32) auto
  have ei: "sint e = ?c mod int ?n" unfolding e_def using md by (rule small)
  have "sint (of_nat ?n :: int32) = int ?n" using sint_of_int_32 [of "int ?n"] n by simp
  then have rt: "range_topic subs counts topic asg = range_members topic q e 0 0 ?ms asg"
    using assms(3) sdiv_smod_nonneg [OF assms(4), of "int ?n"] n(1)
    by (simp add: range_topic_def Let_def q_def e_def)
  have "(\<Sum>j<?n. if int j < ?c mod int ?n then 1 else 0) = ?c mod int ?n"
  proof -
    have "{j. j < ?n \<and> int j < ?c mod int ?n} = {..<nat (?c mod int ?n)}"
      using md by auto
    then show ?thesis using md by (simp add: sum.If_cases Int_def)
  qed
  then have total: "(\<Sum>j<?n. sint q + (if int (0 + j) < sint e then 1 else 0)) = ?c"
    by (simp add: qi ei sum.distrib)
  have "map (\<lambda>m. assigned (range_topic subs counts topic asg) m topic) ?ms = shares q e 0 0 ?n"
    unfolding rt using d assms(5) by (intro range_members_shares) simp_all
  moreover note shares_concat [of q 0 0 ?n e, unfolded total] 
  ultimately show "concat (map (\<lambda>m. assigned (range_topic subs counts topic asg) m topic) ?ms)
      = map word_of_int [0..?c - 1]"
    "k < ?n \<Longrightarrow> int (length (assigned (range_topic subs counts topic asg) (?ms ! k) topic))
      = ?c div int ?n + (if int k < ?c mod int ?n then 1 else 0)"
    using qi ei n c by (simp_all flip: nth_map [of k ?ms "\<lambda>m. assigned (range_topic subs counts topic asg) m topic"])
qed

lemma range_topic_other:
  "t \<noteq> topic \<or> m \<notin> set (subscribedMembers subs topic) \<Longrightarrow>
    assigned (range_topic subs counts topic asg) m t = assigned asg m t"
  by (simp add: range_topic_def Let_def range_members_other)

lemma fold_range_other:
  "t \<notin> set ts \<Longrightarrow> assigned (fold (range_topic subs counts) ts asg) m t = assigned asg m t"
  by (induction ts arbitrary: asg) (auto simp: range_topic_other)

lemma Range_topic:
  assumes "distinct (mkeys counts)" "t \<in> set (mkeys counts)"
  obtains asg where "\<forall>m. assigned asg m t = []"
    "\<forall>m. assigned (Range subs counts) m t = assigned (range_topic subs counts t asg) m t"
proof -
  have "t \<in> set (sortedTopics counts)" "distinct (sortedTopics counts)"
    using assms by (simp_all add: sortedTopics_def)
  then obtain us vs where ts: "sortedTopics counts = us @ t # vs" "t \<notin> set us" "t \<notin> set vs"
    by (metis distinct.simps(2) distinct_append not_distinct_conv_prefix split_list_first distinct_append disjoint_iff list.set_intros(1))
  let ?asg = "fold (range_topic subs counts) us []"
  have "\<forall>m. assigned ?asg m t = []" using fold_range_other [OF ts(2)] by (simp add: assigned_def entry_of_def)
  moreover have "\<forall>m. assigned (Range subs counts) m t = assigned (range_topic subs counts t ?asg) m t"
    using fold_range_other [OF ts(3)] by (simp add: Range_def ts(1))
  ultimately show ?thesis by (rule that)
qed

text \<open>
  C36. The range assignor splits the partitions of every topic with a subscriber among its
  subscribers, in the order of their ids, as consecutive blocks that together are exactly the
  partitions 0 to count - 1; two blocks differ in size by at most one, the larger ones first.
  A member that did not subscribe to the topic gets none of it.
\<close>

theorem range_splits:
  assumes "distinct (map MemberID subs)" "length subs < 2 ^ 31" "distinct (mkeys counts)"
    and "map_of counts t = Some c" "0 \<le> sint c"
  shows "(subscribedMembers subs t \<noteq> [] \<longrightarrow>
      concat (map (\<lambda>m. assigned (Range subs counts) m t) (subscribedMembers subs t))
        = map word_of_int [0..sint c - 1])
    \<and> (\<forall>k < length (subscribedMembers subs t).
        int (length (assigned (Range subs counts) (subscribedMembers subs t ! k) t))
        = sint c div int (length (subscribedMembers subs t))
          + (if int k < sint c mod int (length (subscribedMembers subs t)) then 1 else 0))
    \<and> (\<forall>m. m \<notin> set (subscribedMembers subs t) \<longrightarrow> assigned (Range subs counts) m t = [])"
proof -
  have "t \<in> set (mkeys counts)" using assms(4) by (metis domI dom_map_of_conv_image_fst list.set_map)
  then obtain asg where asg: "\<forall>m. assigned asg m t = []"
    "\<forall>m. assigned (Range subs counts) m t = assigned (range_topic subs counts t asg) m t"
    using Range_topic [OF assms(3)] by metis
  have c: "count_of counts t = c" using assms(4) by (simp add: count_of_def)
  show ?thesis
    using range_topic_shares [OF assms(1,2), of t counts asg] range_topic_other [of t t _ subs counts asg]
      asg assms(5) by (cases "subscribedMembers subs t = []") (simp_all add: c)
qed

theorem range_splits_witness:
  "concat (map (\<lambda>m. assigned (Range [\<lparr>MemberID = ''b'', Topics = [''t'']\<rparr>, \<lparr>MemberID = ''a'', Topics = [''t'']\<rparr>]
      [(''t'', 5)]) m ''t'') [''a'', ''b'']) = [0, 1, 2, 3, 4]"
proof -
  let ?subs = "[\<lparr>MemberID = ''b'', Topics = [''t'']\<rparr>, \<lparr>MemberID = ''a'', Topics = [''t'']\<rparr>]"
  have "subscribedMembers ?subs ''t'' = [''a'', ''b'']" by code_simp
  moreover have "map word_of_int [0..sint (5 :: int32) - 1] = [0, 1, 2, 3, 4 :: int32]" by code_simp
  ultimately show ?thesis using range_splits [of ?subs "[(''t'', 5)]" "''t''" 5] by simp
qed

section \<open>One topic\<close>

text \<open>With a single topic every member has at most one entry, and both strategies cover the topic.\<close>

definition single :: "string \<Rightarrow> assignments \<Rightarrow> bool" where
  "single t asg \<longleftrightarrow> (\<forall>m. entry_of asg m = [] \<or> (\<exists>ps. entry_of asg m = [\<lparr>Topic = t, Partitions = ps\<rparr>]))"

lemma single_deal:
  "single t asg \<Longrightarrow> \<forall>x \<in> set tps. fst x = t \<Longrightarrow> single t (deal members i tps asg)"
proof (induction members i tps asg rule: deal.induct)
  case (2 members i topic pt tps asg)
  let ?m = "members ! (i mod length members)"
  have "entry_of asg ?m = [] \<or> (\<exists>ps. entry_of asg ?m = [\<lparr>Topic = t, Partitions = ps\<rparr>])"
    using 2(2) by (simp add: single_def)
  then have "\<exists>ps. appendPartition (entry_of asg ?m) topic pt = [\<lparr>Topic = t, Partitions = ps\<rparr>]"
    by (elim disjE exE) (use 2(3) in \<open>simp_all add: appendPartition_def\<close>)
  then have "single t (mput ?m (appendPartition (entry_of asg ?m) topic pt) asg)"
    using 2(2) by (auto simp: single_def)
  then show ?case using 2(1) [OF refl] 2(3) by (simp add: Let_def)
qed simp

lemma single_range_members:
  "single t asg \<Longrightarrow> distinct ms \<Longrightarrow> \<forall>m \<in> set ms. entry_of asg m = [] \<Longrightarrow> single t (range_members t q e i cur ms asg)"
proof (induction t q e i cur ms asg rule: range_members.induct)
  case (2 t q e i cur m ms asg)
  let ?c = "if sint (of_nat i :: int32) < sint e then q + 1 else q"
  show ?case
  proof (cases "?c = 0")
    case True
    then show ?thesis using "2.IH"(1) [OF refl] "2.prems" by (simp add: Let_def)
  next
    case False
    have "single t (mput m (entry_of asg m @ [\<lparr>Topic = t, Partitions = contiguousPartitions cur (cur + ?c)\<rparr>]) asg)"
      using "2.prems" by (auto simp: single_def)
    moreover have "\<forall>k \<in> set ms. k \<noteq> m" using "2.prems"(2) by auto
    ultimately show ?thesis using False "2.IH"(2) [OF refl] "2.prems"(2,3) by (simp add: Let_def)
  qed
qed simp

lemma single_owned: "single t asg \<Longrightarrow> owned asg m = map (Pair t) (assigned asg m t)"
  by (auto simp: single_def owned_def assigned_def dest!: spec [of _ m])

lemma mset_concat_perm: "mset xs = mset ys \<Longrightarrow> mset (concat (map f xs)) = mset (concat (map f ys))"
proof -
  assume "mset xs = mset ys"
  then have "sum_mset (image_mset (mset \<circ> f) (mset xs)) = sum_mset (image_mset (mset \<circ> f) (mset ys))" by simp
  then show ?thesis by (simp add: mset_concat comp_def flip: sum_mset_sum_list)
qed

lemma one_topic_plan:
  assumes "distinct (map MemberID subs)" "subs \<noteq> []" "length subs < 2 ^ 31" "\<forall>s \<in> set subs. subscribesTo s t" "0 \<le> sint n"
    and "asg \<in> {Range subs [(t, n)], RoundRobin subs [(t, n)]}"
  shows "single t asg" "mset (concat (map (\<lambda>m. assigned asg m t) (map MemberID subs))) = mset (contiguousPartitions 0 n)"
proof -
  have subsd: "subscribedMembers subs t = sort (map MemberID subs)"
    using assms(4) by (simp add: subscribedMembers_def filter_id_conv)
  have flat: "flat_partitions [(t, n)] = map (Pair t) (contiguousPartitions 0 n)"
    by (simp add: flat_partitions_def sortedTopics_def count_of_def)
  have range: "Range subs [(t, n)] = range_topic subs [(t, n)] t []" by (simp add: Range_def sortedTopics_def)
  have s0: "single t []" by (simp add: single_def entry_of_def)
  show single: "single t asg"
    using assms(6)
  proof
    assume "asg \<in> {RoundRobin subs [(t, n)]}"
    then show ?thesis using single_deal [OF s0] s0 by (simp add: RoundRobin_def Let_def flat)
  next
    assume "asg = Range subs [(t, n)]"
    then show ?thesis
      using single_range_members [OF s0] assms(1) s0 by (simp add: range range_topic_def subsd Let_def entry_of_def)
  qed
  have "mset (concat (map (\<lambda>m. assigned asg m t) (sort (map MemberID subs)))) = mset (contiguousPartitions 0 n)"
    using assms(6)
  proof
    assume a: "asg = Range subs [(t, n)]"
    have "sort (map MemberID subs) \<noteq> []" using assms(2) by (metis Nil_is_map_conv set_empty set_sort)
    moreover have "count_of [(t, n)] t = n" by (simp add: count_of_def)
    ultimately show ?thesis
      using range_topic_shares(1) [OF assms(1,3), of t "[(t, n)]" "[]"] assms(2,5)
      by (simp add: a range subsd contiguous_upto assigned_def entry_of_def)
  next
    assume "asg \<in> {RoundRobin subs [(t, n)]}"
    moreover have "owned asg = (\<lambda>m. map (Pair t) (assigned asg m t))" using single_owned [OF single] by blast
    ultimately have "image_mset (Pair t) (mset (concat (map (\<lambda>m. assigned asg m t) (sort (map MemberID subs)))))
        = image_mset (Pair t) (mset (contiguousPartitions 0 n))"
      using RoundRobin_deals(2) [OF assms(1,2), of "[(t, n)]"]
      by (simp add: flat sortedMembers_def map_concat comp_def flip: mset_map)
    from arg_cong [OF this, of "image_mset snd"] show ?thesis
      by (simp add: image_mset.compositionality comp_def del: mset_map)
  qed
  then show "mset (concat (map (\<lambda>m. assigned asg m t) (map MemberID subs))) = mset (contiguousPartitions 0 n)"
    using mset_concat_perm [of "sort (map MemberID subs)" "map MemberID subs" "\<lambda>m. assigned asg m t"] by (simp only: mset_sort)
qed

end
