(* ===== verification/Topics.thy ===== *)
theory Topics
  imports Wire
begin

text \<open>
  Topics (\<open>internal/topic\<close>): the assignment of replicas to the partitions of a new topic and
  the registry. Slices are values here, so the copies that \<open>cloneTopic\<close> makes, to keep
  callers from sharing memory with the registry, are the identity.
\<close>

section \<open>Replica assignment (assign.go)\<close>

definition AssignReplicas :: "int32 \<Rightarrow> int32 list \<Rightarrow> int \<Rightarrow> int32 list list" where
  "AssignReplicas cnt brokerIDs rf =
     (if sint cnt \<le> 0 \<or> brokerIDs = [] \<or> rf \<le> 0 then []
      else map (\<lambda>p. let start = p mod length brokerIDs
                    in map (\<lambda>replica. brokerIDs ! ((start + replica) mod length brokerIDs)) [0..<nat rf])
             [0..<nat (sint cnt)])"

section \<open>Registry (registry.go)\<close>

record Partition =
  ID :: int32
  Leader :: int32
  Replicas :: "int32 list"
  ISR :: "int32 list"

record Topic =
  Name :: string
  PartitionList :: "Partition list"

type_synonym Registry = "(string, Topic) gomap"

datatype registry_error = ErrTopicExists | ErrTopicNotFound

definition cloneTopic :: "Topic \<Rightarrow> Topic" where
  "cloneTopic t = t\<lparr>PartitionList := map (\<lambda>p. p\<lparr>Replicas := Replicas p, ISR := ISR p\<rparr>) (PartitionList t)\<rparr>"

definition NewRegistry :: Registry where
  "NewRegistry = []"

definition Registry_All :: "Registry \<Rightarrow> Topic list" where
  "Registry_All r = map (cloneTopic \<circ> snd) r"

definition Registry_Get :: "Registry \<Rightarrow> string \<Rightarrow> Topic option" where
  "Registry_Get r name = map_option cloneTopic (map_of r name)"

definition Registry_Add :: "Registry \<Rightarrow> Topic \<Rightarrow> Registry" where
  "Registry_Add r t = mput (Name t) (cloneTopic t) r"

definition Registry_Upsert :: "Registry \<Rightarrow> Topic \<Rightarrow> Registry" where
  "Registry_Upsert r t = mput (Name t) (cloneTopic t) r"

definition Registry_Create :: "Registry \<Rightarrow> Topic \<Rightarrow> Registry \<times> registry_error option" where
  "Registry_Create r t =
     (case map_of r (Name t) of
        Some _ \<Rightarrow> (r, Some ErrTopicExists)
      | None \<Rightarrow> (mput (Name t) (cloneTopic t) r, None))"

definition Registry_Delete :: "Registry \<Rightarrow> string \<Rightarrow> Registry \<times> registry_error option" where
  "Registry_Delete r name =
     (case map_of r name of
        None \<Rightarrow> (r, Some ErrTopicNotFound)
      | Some _ \<Rightarrow> (mdel name r, None))"

section \<open>Properties\<close>

lemma cloneTopic_id [simp]: "cloneTopic t = t"
  by (simp add: cloneTopic_def)

lemma Registry_Get_simps [simp]:
  "Registry_Get (Registry_Upsert r t) name = (if name = Name t then Some t else Registry_Get r name)"
  "Registry_Get (Registry_Add r t) name = (if name = Name t then Some t else Registry_Get r name)"
  "Registry_Get (mdel n r) name = (if name = n then None else Registry_Get r name)"
  by (simp_all add: Registry_Get_def Registry_Upsert_def Registry_Add_def)

lemma mod_add_inj: "(a + x) mod n = (a + y) mod n \<Longrightarrow> x < n \<Longrightarrow> y < n \<Longrightarrow> x = (y :: nat)"
proof (induction x y rule: linorder_wlog)
  case (le x y)
  then have "n dvd (a + y) - (a + x)" by (metis mod_eq_dvd_iff_nat nat_add_left_cancel_le)
  then have "n dvd y - x" by simp
  then show ?case using le by (auto dest: dvd_imp_le)
qed auto

lemma replica_row:
  assumes "distinct ids" "0 < rf" "rf \<le> int (length ids)"
  defines "row p \<equiv> map (\<lambda>r. ids ! ((p mod length ids + r) mod length ids)) [0..<nat rf]"
  shows "int (length (row p)) = rf \<and> distinct (row p) \<and> set (row p) \<subseteq> set ids"
proof -
  let ?n = "length ids"
  have n: "0 < ?n" using assms(2,3) by linarith
  have "inj_on (\<lambda>r. ids ! ((p mod ?n + r) mod ?n)) {0..<nat rf}"
  proof (rule inj_onI)
    fix x y assume xy: "x \<in> {0..<nat rf}" "y \<in> {0..<nat rf}"
      "ids ! ((p mod ?n + x) mod ?n) = ids ! ((p mod ?n + y) mod ?n)"
    then have "(p mod ?n + x) mod ?n = (p mod ?n + y) mod ?n"
      using assms(1) n by (simp add: nth_eq_iff_index_eq)
    then show "x = y" using xy assms(3) by (auto intro: mod_add_inj)
  qed
  then show ?thesis using assms(2) n by (auto simp: row_def distinct_map)
qed

lemma AssignReplicas_rows:
  assumes "distinct ids" "0 < sint cnt" "0 < rf" "rf \<le> int (length ids)"
  shows "length (AssignReplicas cnt ids rf) = nat (sint cnt)"
    and "rs \<in> set (AssignReplicas cnt ids rf) \<Longrightarrow> int (length rs) = rf \<and> distinct rs \<and> set rs \<subseteq> set ids"
proof -
  have "ids \<noteq> []" using assms(3,4) by auto
  then show "length (AssignReplicas cnt ids rf) = nat (sint cnt)"
    "rs \<in> set (AssignReplicas cnt ids rf) \<Longrightarrow> int (length rs) = rf \<and> distinct rs \<and> set rs \<subseteq> set ids"
    using assms replica_row [OF assms(1,3,4)] by (auto simp: AssignReplicas_def Let_def)
qed

text \<open>
  C37. The replicas of the partitions of a topic: every partition has as many replicas as
  asked, all different brokers of the cluster; the leader (the first replica) rotates over
  the brokers, so that the numbers of partitions two brokers lead differ by at most one.
\<close>

theorem replicas_spread:
  assumes "distinct brokerIDs" "0 < sint cnt" "0 < rf" "rf \<le> int (length brokerIDs)"
  shows "length (AssignReplicas cnt brokerIDs rf) = nat (sint cnt)
    \<and> (\<forall>rs \<in> set (AssignReplicas cnt brokerIDs rf).
        int (length rs) = rf \<and> distinct rs \<and> set rs \<subseteq> set brokerIDs)
    \<and> (\<forall>k < length brokerIDs.
        length (filter (\<lambda>rs. hd rs = brokerIDs ! k) (AssignReplicas cnt brokerIDs rf))
        = nat (sint cnt) div length brokerIDs
          + (if k < nat (sint cnt) mod length brokerIDs then 1 else 0))"
proof -
  let ?n = "length brokerIDs" and ?c = "nat (sint cnt)"
  define row where "row p = map (\<lambda>r. brokerIDs ! ((p mod ?n + r) mod ?n)) [0..<nat rf]" for p
  have n: "0 < ?n" using assms(3,4) by linarith
  then have asg: "AssignReplicas cnt brokerIDs rf = map row [0..<?c]"
    using assms by (auto simp: AssignReplicas_def row_def Let_def)
  have hd: "hd (row p) = brokerIDs ! (p mod ?n)" for p
    using assms(3) by (simp add: row_def hd_map upt_conv_Cons)
  have "length (filter (\<lambda>rs. hd rs = brokerIDs ! k) (map row [0..<?c]))
      = ?c div ?n + (if k < ?c mod ?n then 1 else 0)" if "k < ?n" for k
  proof -
    have "(hd (row p) = brokerIDs ! k) = (p mod ?n = k)" for p
      using assms(1) n that by (simp add: hd nth_eq_iff_index_eq)
    then show ?thesis by (simp add: filter_map comp_def length_filter_mod [OF that])
  qed
  then show ?thesis using AssignReplicas_rows [OF assms] by (simp add: asg)
qed

theorem replicas_spread_witness:
  "length (AssignReplicas 4 [1, 2, 3] 2) = 4
    \<and> length (filter (\<lambda>rs. hd rs = 1) (AssignReplicas 4 [1, 2, 3] 2)) = 2"
  using replicas_spread [of "[1, 2, 3]" 4 2] by (auto dest: spec [of _ 0])

text \<open>
  The registry is a map from names to topics: a topic is created only under a name that
  is free, and refused otherwise without a change; what was created or upserted is returned
  until it is replaced or deleted; deleting a missing topic is an error; and no operation
  touches another name.
\<close>

theorem registry_contract:
  "(case Registry_Create r t of
      (r', None) \<Rightarrow> Registry_Get r (Name t) = None
        \<and> (\<forall>n. Registry_Get r' n = (if n = Name t then Some t else Registry_Get r n))
    | (r', Some e) \<Rightarrow> e = ErrTopicExists \<and> r' = r \<and> Registry_Get r (Name t) \<noteq> None)
   \<and> (case Registry_Delete r name of
      (r', None) \<Rightarrow> Registry_Get r name \<noteq> None
        \<and> (\<forall>n. Registry_Get r' n = (if n = name then None else Registry_Get r n))
    | (r', Some e) \<Rightarrow> e = ErrTopicNotFound \<and> r' = r \<and> Registry_Get r name = None)
   \<and> (\<forall>n. Registry_Get (Registry_Upsert r t) n = (if n = Name t then Some t else Registry_Get r n))"
  by (auto simp: Registry_Create_def Registry_Delete_def Registry_Get_def Registry_Upsert_def
      split: option.splits)

end
