(* ===== verification/Membership.thy ===== *)
theory Membership
  imports Wire
begin

text \<open>
  Cluster membership and liveness: \<open>internal/cluster/membership.go\<close>, \<open>liveness.go\<close> and
  \<open>brokerclient.go\<close>. A peer on the network is a function from a request frame to a response
  frame or an error.
\<close>

section \<open>Strings (strings, net)\<close>

text \<open>\<open>strings.TrimSpace\<close> on the ASCII strings of the command line.\<close>

definition is_space :: "char \<Rightarrow> bool" where
  "is_space c = (c = CHR '' '' \<or> (9 \<le> (of_char c :: nat) \<and> (of_char c :: nat) \<le> 13))"

definition TrimSpace :: "string \<Rightarrow> string" where
  "TrimSpace s = rev (dropWhile is_space (rev (dropWhile is_space s)))"

text \<open>\<open>strings.Cut\<close> at the first and \<open>strings.LastIndex\<close>-style cut at the last separator.\<close>

definition Cut :: "char \<Rightarrow> string \<Rightarrow> (string \<times> string) option" where
  "Cut sep s =
     (if sep \<in> set s then Some (takeWhile (\<lambda>c. c \<noteq> sep) s, tl (dropWhile (\<lambda>c. c \<noteq> sep) s))
      else None)"

definition CutLast :: "char \<Rightarrow> string \<Rightarrow> (string \<times> string) option" where
  "CutLast sep s = map_option (\<lambda>(b, a). (rev a, rev b)) (Cut sep (rev s))"

text \<open>
  \<open>net.SplitHostPort\<close>: the port follows the last colon; a host in square brackets may hold
  colons, and the bracket has to close right before the port's colon; brackets are an error
  anywhere else.
\<close>

definition SplitHostPort :: "string \<Rightarrow> (string \<times> string) option" where
  "SplitHostPort hostport =
     (case CutLast CHR '':'' hostport of
        None \<Rightarrow> None
      | Some (before, port) \<Rightarrow>
          (if hostport \<noteq> [] \<and> hd hostport = CHR ''['' then
             (case Cut CHR '']'' hostport of
                None \<Rightarrow> None
              | Some (inside, after) \<Rightarrow>
                  if after \<noteq> CHR '':'' # port \<or> CHR ''['' \<in> set (tl hostport) \<or> CHR '']'' \<in> set after
                  then None else Some (tl inside, port))
           else if CHR '':'' \<in> set before \<or> CHR ''['' \<in> set hostport \<or> CHR '']'' \<in> set hostport
             then None
           else Some (before, port)))"

section \<open>Membership (membership.go)\<close>

record Broker =
  BrokerID :: int32
  Host :: string
  Port :: int32

record Membership =
  self :: int32
  brokers :: "Broker list"

definition parseBroker :: "string \<Rightarrow> go_error + Broker" where
  "parseBroker token =
     (case Cut CHR ''@'' token of
        None \<Rightarrow> Inl ErrMalformedPeer
      | Some (idPart, hostPort) \<Rightarrow>
          (if idPart = [] \<or> hostPort = [] then Inl ErrMalformedPeer
           else case ParseInt 32 idPart of
               None \<Rightarrow> Inl ErrMalformedPeer
             | Some i \<Rightarrow>
                 (case SplitHostPort hostPort of
                    None \<Rightarrow> Inl ErrMalformedPeer
                  | Some (host, portPart) \<Rightarrow>
                      (case ParseInt 32 portPart of
                         None \<Rightarrow> Inl ErrMalformedPeer
                       | Some port \<Rightarrow>
                           Inr \<lparr>BrokerID = word_of_int i, Host = host, Port = word_of_int port\<rparr>))))"

fun parse_tokens :: "string list \<Rightarrow> go_error + Broker list" where
  "parse_tokens [] = Inr []"
| "parse_tokens (token # tokens) =
     (case parseBroker (TrimSpace token) of
        Inl err \<Rightarrow> Inl err
      | Inr broker \<Rightarrow>
          (case parse_tokens tokens of Inl err \<Rightarrow> Inl err | Inr bs \<Rightarrow> Inr (broker # bs)))"

definition ParseMembership :: "string \<Rightarrow> int32 \<Rightarrow> string \<Rightarrow> int32 \<Rightarrow> go_error + Membership" where
  "ParseMembership peers selfID selfHost selfPort =
     (if TrimSpace peers = [] then
        Inr \<lparr>self = selfID, brokers = [\<lparr>BrokerID = selfID, Host = selfHost, Port = selfPort\<rparr>]\<rparr>
      else case parse_tokens (Split CHR '','' peers) of
          Inl err \<Rightarrow> Inl err
        | Inr bs \<Rightarrow>
            (if selfID \<notin> BrokerID ` set bs then Inl ErrPeersWithoutSelf
             else Inr \<lparr>self = selfID, brokers = sort_key (sint \<circ> BrokerID) bs\<rparr>))"

definition Membership_All :: "Membership \<Rightarrow> Broker list" where
  "Membership_All m = brokers m"

definition Membership_Get :: "Membership \<Rightarrow> int32 \<Rightarrow> Broker option" where
  "Membership_Get m i = List.find (\<lambda>b. BrokerID b = i) (brokers m)"

definition Membership_Self :: "Membership \<Rightarrow> Broker" where
  "Membership_Self m =
     (case Membership_Get m (self m) of
        Some b \<Rightarrow> b
      | None \<Rightarrow> \<lparr>BrokerID = 0, Host = [], Port = 0\<rparr>)"

section \<open>Requests to a peer (brokerclient.go)\<close>

type_synonym transport = "Broker \<Rightarrow> bytes \<Rightarrow> go_error + bytes"

definition BrokerClient_Send ::
    "transport \<Rightarrow> Broker \<Rightarrow> RequestHeader \<Rightarrow> bytes \<Rightarrow> go_error + bytes" where
  "BrokerClient_Send net target header body =
     (case net target (WriteRequestHeader header @ body) of
        Inl err \<Rightarrow> Inl err
      | Inr respPayload \<Rightarrow>
          (case ReadResponseHeader respPayload of
             Inl err \<Rightarrow> Inl err
           | Inr (correlationID, _) \<Rightarrow>
               (if correlationID \<noteq> CorrelationID header then Inl (ErrCorrelationID correlationID)
                else Inr (drop 4 respPayload))))"

section \<open>Liveness (liveness.go)\<close>

definition InternalPingKey :: int16 where
  "InternalPingKey = 1001"

text \<open>
  The callbacks run after the lock is released; the model returns which one fires. Durations
  are in nanoseconds; they only pace the loop of \<open>Run\<close>.
\<close>

record LivenessMonitor =
  lmSelf :: int32
  lmMembership :: Membership
  lmInterval :: int
  failAfter :: int
  alive :: "(int32, bool) gomap"
  misses :: "(int32, int) gomap"

datatype liveness_event = Down int32 | Up int32

definition NewLivenessMonitor :: "Membership \<Rightarrow> int32 \<Rightarrow> int \<Rightarrow> int \<Rightarrow> LivenessMonitor" where
  "NewLivenessMonitor m slf interval fa =
     \<lparr>lmSelf = slf, lmMembership = m,
      lmInterval = (if interval \<le> 0 then 500000000 else interval),
      failAfter = (if fa \<le> 0 then 1 else fa),
      alive = fold (\<lambda>b. mput (BrokerID b) True) (Membership_All m) [(slf, True)],
      misses = []\<rparr>"

definition alive_of :: "LivenessMonitor \<Rightarrow> int32 \<Rightarrow> bool" where
  "alive_of lm i = (case map_of (alive lm) i of None \<Rightarrow> False | Some b \<Rightarrow> b)"

definition misses_of :: "LivenessMonitor \<Rightarrow> int32 \<Rightarrow> int" where
  "misses_of lm i = (case map_of (misses lm) i of None \<Rightarrow> 0 | Some n \<Rightarrow> n)"

definition Alive :: "LivenessMonitor \<Rightarrow> int32 \<Rightarrow> bool" where
  "Alive lm i = (if i = lmSelf lm then True else alive_of lm i)"

definition ControllerID :: "LivenessMonitor \<Rightarrow> int32" where
  "ControllerID lm =
     fold (\<lambda>b c. if alive_of lm (BrokerID b) \<and> sint c < sint (BrokerID b) then BrokerID b else c)
       (Membership_All (lmMembership lm)) (-1)"

definition recordMiss :: "LivenessMonitor \<Rightarrow> int32 \<Rightarrow> LivenessMonitor \<times> liveness_event option" where
  "recordMiss lm i =
     (let n = misses_of lm i + 1;
          lm = lm\<lparr>misses := mput i n (misses lm)\<rparr>
      in if failAfter lm \<le> n \<and> alive_of lm i
         then (lm\<lparr>alive := mput i False (alive lm)\<rparr>, Some (Down i))
         else (lm, None))"

definition recordSuccess :: "LivenessMonitor \<Rightarrow> int32 \<Rightarrow> LivenessMonitor \<times> liveness_event option" where
  "recordSuccess lm i =
     (let wasAlive = alive_of lm i;
          lm = lm\<lparr>misses := mput i 0 (misses lm), alive := mput i True (alive lm)\<rparr>
      in (lm, if \<not> wasAlive then Some (Up i) else None))"

definition ping :: "transport \<Rightarrow> Broker \<Rightarrow> go_error option" where
  "ping net b =
     (let header = \<lparr>APIKey = InternalPingKey, APIVersion = 0, CorrelationID = 1, ClientID = None\<rparr>
      in case net b (WriteRequestHeader header) of
          Inl err \<Rightarrow> Some err
        | Inr respPayload \<Rightarrow>
            (case ReadResponseHeader respPayload of
               Inl err \<Rightarrow> Some err
             | Inr (correlationID, _) \<Rightarrow>
                 if correlationID \<noteq> CorrelationID header then Some (ErrCorrelationID correlationID)
                 else None))"

text \<open>One peer of a round, given whether its ping was answered; then the whole round.\<close>

definition check_peer :: "(Broker \<Rightarrow> bool) \<Rightarrow> Broker \<Rightarrow> LivenessMonitor \<Rightarrow> LivenessMonitor \<times> liveness_event list" where
  "check_peer answers b lm =
     (if BrokerID b = lmSelf lm then (lm, [])
      else case (if answers b then recordSuccess lm (BrokerID b) else recordMiss lm (BrokerID b)) of
          (lm', None) \<Rightarrow> (lm', [])
        | (lm', Some ev) \<Rightarrow> (lm', [ev]))"

definition checkPeers :: "transport \<Rightarrow> LivenessMonitor \<Rightarrow> LivenessMonitor \<times> liveness_event list" where
  "checkPeers net lm =
     fold (\<lambda>b (lm, evs). case check_peer (\<lambda>b. ping net b = None) b lm of (lm', e) \<Rightarrow> (lm', evs @ e))
       (Membership_All (lmMembership lm)) (lm, [])"

section \<open>Rounds of pings\<close>

text \<open>What a round does to what the monitor knows of one peer.\<close>

definition peer_state :: "LivenessMonitor \<Rightarrow> int32 \<Rightarrow> bool \<times> int" where
  "peer_state lm i = (alive_of lm i, misses_of lm i)"

definition peer_step :: "int \<Rightarrow> bool \<Rightarrow> bool \<times> int \<Rightarrow> bool \<times> int" where
  "peer_step fa answered st =
     (if answered then (True, 0) else (fst st \<and> snd st + 1 < fa, snd st + 1))"

definition static :: "LivenessMonitor \<Rightarrow> int32 \<times> Membership \<times> int" where
  "static lm = (lmSelf lm, lmMembership lm, failAfter lm)"

lemma recordMiss_state:
  "peer_state (fst (recordMiss lm i)) j
    = (if j = i then peer_step (failAfter lm) False (peer_state lm i) else peer_state lm j)"
  "static (fst (recordMiss lm i)) = static lm"
  by (auto simp: recordMiss_def peer_state_def peer_step_def alive_of_def misses_of_def static_def Let_def)

lemma recordSuccess_state:
  "peer_state (fst (recordSuccess lm i)) j
    = (if j = i then peer_step (failAfter lm) True (peer_state lm i) else peer_state lm j)"
  "static (fst (recordSuccess lm i)) = static lm"
  by (auto simp: recordSuccess_def peer_state_def peer_step_def alive_of_def misses_of_def static_def Let_def)

lemma check_peer_state:
  "fst (check_peer answers b lm) = (if BrokerID b = lmSelf lm then lm
     else if answers b then fst (recordSuccess lm (BrokerID b)) else fst (recordMiss lm (BrokerID b)))"
  by (auto simp: check_peer_def split: prod.splits option.splits)

lemma check_peer_step:
  "static (fst (check_peer answers b lm)) = static lm"
  "peer_state (fst (check_peer answers b lm)) i = (if i = BrokerID b \<and> i \<noteq> lmSelf lm
      then peer_step (failAfter lm) (answers b) (peer_state lm i) else peer_state lm i)"
  by (auto simp: check_peer_state recordMiss_state recordSuccess_state)

lemma fst_round_fold:
  "fst (fold (\<lambda>b (lm, evs). case check_peer answers b lm of (lm', e) \<Rightarrow> (lm', evs @ e)) bs (lm, evs))
    = fold (\<lambda>b lm. fst (check_peer answers b lm)) bs lm"
  by (induction bs arbitrary: lm evs) (simp_all split: prod.splits)

lemma round_step:
  assumes "distinct (map BrokerID bs)"
  shows "static (fold (\<lambda>b lm. fst (check_peer answers b lm)) bs lm) = static lm
    \<and> peer_state (fold (\<lambda>b lm. fst (check_peer answers b lm)) bs lm) i
      = (case List.find (\<lambda>b. BrokerID b = i) bs of
           Some b \<Rightarrow> if i = lmSelf lm then peer_state lm i
             else peer_step (failAfter lm) (answers b) (peer_state lm i)
         | None \<Rightarrow> peer_state lm i)"
  using assms
proof (induction bs arbitrary: lm)
  case (Cons b bs)
  let ?lm = "fst (check_peer answers b lm)"
  have st: "lmSelf ?lm = lmSelf lm" "failAfter ?lm = failAfter lm"
    using check_peer_step(1) [of answers b lm] by (simp_all add: static_def)
  have "List.find (\<lambda>x. BrokerID x = BrokerID b) bs = None"
    using Cons.prems by (auto simp: find_None_iff) (metis image_eqI)
  then show ?case
    using Cons.IH [of ?lm] Cons.prems st check_peer_step(1) [of answers b lm]
    by (auto simp: check_peer_step(2) split: option.splits)
qed simp

definition run_rounds :: "transport list \<Rightarrow> LivenessMonitor \<Rightarrow> LivenessMonitor" where
  "run_rounds nets lm = fold (\<lambda>net lm. fst (checkPeers net lm)) nets lm"

lemma run_rounds_state:
  assumes "distinct (map BrokerID (brokers (lmMembership lm)))" "b \<in> set (brokers (lmMembership lm))"
  shows "static (run_rounds nets lm) = static lm
    \<and> peer_state (run_rounds nets lm) (BrokerID b) =
      (if BrokerID b = lmSelf lm then peer_state lm (BrokerID b)
       else fold (\<lambda>net. peer_step (failAfter lm) (ping net b = None)) nets (peer_state lm (BrokerID b)))"
  using assms
proof (induction nets arbitrary: lm)
  case (Cons net nets)
  let ?lm = "fst (checkPeers net lm)"
  have r: "?lm = fold (\<lambda>b lm. fst (check_peer (\<lambda>b. ping net b = None) b lm)) (brokers (lmMembership lm)) lm"
    by (simp add: checkPeers_def fst_round_fold Membership_All_def)
  have f: "List.find (\<lambda>x. BrokerID x = BrokerID b) (brokers (lmMembership lm)) = Some b"
    using Cons.prems by (auto simp: find_Some_iff in_set_conv_nth distinct_conv_nth)
  note step = round_step [OF Cons.prems(1), of "\<lambda>b. ping net b = None" lm "BrokerID b", folded r, unfolded f]
  have "lmSelf ?lm = lmSelf lm" "lmMembership ?lm = lmMembership lm" "failAfter ?lm = failAfter lm"
    using step by (simp_all add: static_def)
  then show ?case
    using Cons.IH [of ?lm] Cons.prems step
    by (cases "BrokerID b = lmSelf lm") (simp_all add: run_rounds_def)
qed (simp add: run_rounds_def)

definition trailing_misses :: "bool list \<Rightarrow> int" where
  "trailing_misses answered = int (length (takeWhile Not (rev answered)))"

lemma trailing_misses_nonneg: "0 \<le> trailing_misses rs"
  by (simp add: trailing_misses_def)

lemma fold_peer_step:
  "1 \<le> fa \<Longrightarrow> fold (peer_step fa) rs (True, 0) = (trailing_misses rs < fa, trailing_misses rs)"
  by (induction rs rule: rev_induct) (auto simp: peer_step_def trailing_misses_def)

lemma fold_mput_True:
  "map_of (fold (\<lambda>b. mput (f b) True) bs m) i = (if i \<in> f ` set bs then Some True else map_of m i)"
  by (induction bs arbitrary: m) auto

lemma New_state:
  "static (NewLivenessMonitor m slf iv fa) = (slf, m, if fa \<le> 0 then 1 else fa)"
  "i = slf \<or> i \<in> BrokerID ` set (brokers m) \<Longrightarrow> peer_state (NewLivenessMonitor m slf iv fa) i = (True, 0)"
  by (auto simp: NewLivenessMonitor_def static_def peer_state_def alive_of_def misses_of_def
      Membership_All_def fold_mput_True)

lemma rounds_from_new:
  fixes m :: Membership
  assumes "distinct (map BrokerID (brokers m))" "b \<in> set (brokers m)" "1 \<le> fa"
  shows "alive_of (run_rounds nets (NewLivenessMonitor m slf iv fa)) (BrokerID b)
    \<longleftrightarrow> BrokerID b = slf \<or> trailing_misses (map (\<lambda>net. ping net b = None) nets) < fa"
proof -
  let ?lm = "NewLivenessMonitor m slf iv fa"
  have st: "lmSelf ?lm = slf" "lmMembership ?lm = m" "failAfter ?lm = fa"
    using assms(3) New_state(1) [of m slf iv fa] by (simp_all add: static_def)
  have "peer_state ?lm (BrokerID b) = (True, 0)" using assms(2) by (intro New_state(2)) simp
  moreover have "fold (\<lambda>net. peer_step fa (ping net b = None)) nets st0
      = fold (peer_step fa) (map (\<lambda>net. ping net b = None) nets) st0" for st0
    by (simp add: fold_map comp_def)
  ultimately have "fst (peer_state (run_rounds nets ?lm) (BrokerID b))
      \<longleftrightarrow> BrokerID b = slf \<or> trailing_misses (map (\<lambda>net. ping net b = None) nets) < fa"
    using run_rounds_state [of ?lm b nets] assms fold_peer_step [OF assms(3)]
    by (cases "BrokerID b = slf") (simp_all add: st)
  then show ?thesis by (simp add: peer_state_def)
qed

text \<open>
  C33. Failure detection. After any number of rounds of pings, a broker of the cluster is
  considered alive exactly when it is the monitor itself or the number of pings it missed
  since its last answer is below \<open>failAfter\<close>; so one answer revives it and only
  \<open>failAfter\<close> misses in a row bring it down. The callback for a peer fires exactly
  when its state changes, \<open>onDown\<close> on a miss and \<open>onUp\<close> on an answer.
\<close>

theorem failure_detection:
  fixes m :: Membership
  assumes "distinct (map BrokerID (brokers m))" "b \<in> set (brokers m)" "1 \<le> fa"
  shows "(Alive (run_rounds nets (NewLivenessMonitor m slf iv fa)) (BrokerID b)
      \<longleftrightarrow> BrokerID b = slf \<or> trailing_misses (map (\<lambda>net. ping net b = None) nets) < fa)
    \<and> snd (recordMiss lm i)
      = (if alive_of lm i \<and> \<not> alive_of (fst (recordMiss lm i)) i then Some (Down i) else None)
    \<and> snd (recordSuccess lm i)
      = (if \<not> alive_of lm i \<and> alive_of (fst (recordSuccess lm i)) i then Some (Up i) else None)"
proof (intro conjI)
  have "static (run_rounds nets (NewLivenessMonitor m slf iv fa)) = static (NewLivenessMonitor m slf iv fa)"
    using run_rounds_state [of "NewLivenessMonitor m slf iv fa" b nets] assms New_state(1) [of m slf iv fa]
    by (simp add: static_def)
  then have "lmSelf (run_rounds nets (NewLivenessMonitor m slf iv fa)) = slf"
    using New_state(1) [of m slf iv fa] by (simp add: static_def)
  then show "Alive (run_rounds nets (NewLivenessMonitor m slf iv fa)) (BrokerID b)
      \<longleftrightarrow> BrokerID b = slf \<or> trailing_misses (map (\<lambda>net. ping net b = None) nets) < fa"
    using rounds_from_new [OF assms] by (simp add: Alive_def)
qed (auto simp: recordMiss_def recordSuccess_def alive_of_def Let_def)

definition three_brokers :: Membership where
  "three_brokers = \<lparr>self = 1, brokers = [\<lparr>BrokerID = 1, Host = ''a'', Port = 1\<rparr>,
     \<lparr>BrokerID = 2, Host = ''b'', Port = 1\<rparr>, \<lparr>BrokerID = 3, Host = ''c'', Port = 1\<rparr>]\<rparr>"

theorem failure_detection_witness:
  "\<not> Alive (run_rounds [\<lambda>_ _. Inl ErrIO, \<lambda>_ _. Inl ErrIO] (NewLivenessMonitor three_brokers 1 1 2)) 3"
  using failure_detection [of three_brokers "\<lparr>BrokerID = 3, Host = ''c'', Port = 1\<rparr>" 2
      "[\<lambda>_ _. Inl ErrIO, \<lambda>_ _. Inl ErrIO]" 1 1]
  by (simp add: three_brokers_def trailing_misses_def ping_def)

lemma fold_highest:
  fixes ok :: "Broker \<Rightarrow> bool" and c :: int32
  defines "f \<equiv> \<lambda>b c. if ok b \<and> sint c < sint (BrokerID b) then BrokerID b else c"
  shows "(fold f bs c = c \<or> (\<exists>b \<in> set bs. ok b \<and> fold f bs c = BrokerID b))
      \<and> sint c \<le> sint (fold f bs c) \<and> (\<forall>b \<in> set bs. ok b \<longrightarrow> sint (BrokerID b) \<le> sint (fold f bs c))"
proof (induction bs arbitrary: c)
  case (Cons b bs)
  have step: "sint c \<le> sint (f b c)" "ok b \<longrightarrow> sint (BrokerID b) \<le> sint (f b c)"
    "f b c = c \<or> ok b \<and> f b c = BrokerID b" by (auto simp: f_def)
  have IH: "sint (f b c) \<le> sint (fold f bs (f b c))" using Cons.IH by blast
  have "sint c \<le> sint (fold f bs (f b c))" "ok b \<longrightarrow> sint (BrokerID b) \<le> sint (fold f bs (f b c))"
    using step(1,2) IH order_trans by blast+
  then show ?case using Cons.IH [of "f b c"] step(3) by auto
qed simp

text \<open>
  C34. The controller that a broker elects is a member it considers alive, and no member it
  considers alive has a higher id; as a broker is always alive for itself, there is one.
  Two brokers that see the same members alive elect the same controller.
\<close>

theorem controller_highest_alive:
  fixes m :: Membership
  assumes "distinct (map BrokerID (brokers m))" "slf \<in> BrokerID ` set (brokers m)" "1 \<le> fa"
    and "\<forall>b \<in> set (brokers m). 0 \<le> sint (BrokerID b)"
    and "lm = run_rounds nets (NewLivenessMonitor m slf iv fa)"
  shows "ControllerID lm \<in> BrokerID ` set (brokers m) \<and> alive_of lm (ControllerID lm)
    \<and> (\<forall>b \<in> set (brokers m). alive_of lm (BrokerID b) \<longrightarrow> sint (BrokerID b) \<le> sint (ControllerID lm))"
proof -
  let ?f = "\<lambda>b c. if alive_of lm (BrokerID b) \<and> sint c < sint (BrokerID b) then BrokerID b else c"
  obtain s where s: "s \<in> set (brokers m)" "BrokerID s = slf" using assms(2) by auto
  have "static lm = static (NewLivenessMonitor m slf iv fa)"
    using run_rounds_state [of "NewLivenessMonitor m slf iv fa" s nets] assms s New_state(1) [of m slf iv fa]
    by (simp add: static_def)
  then have c: "ControllerID lm = fold ?f (brokers m) (-1)"
    using New_state(1) [of m slf iv fa] by (simp add: ControllerID_def static_def Membership_All_def)
  have up: "alive_of lm slf" using rounds_from_new [OF assms(1) s(1) assms(3), of nets slf iv] s assms(5) by simp
  have top: "\<forall>b \<in> set (brokers m). alive_of lm (BrokerID b) \<longrightarrow> sint (BrokerID b) \<le> sint (ControllerID lm)"
    and at: "ControllerID lm = -1 \<or> (\<exists>b \<in> set (brokers m). alive_of lm (BrokerID b) \<and> ControllerID lm = BrokerID b)"
    using fold_highest [of "\<lambda>b. alive_of lm (BrokerID b)" "brokers m" "-1"] unfolding c by blast+
  have "0 \<le> sint (ControllerID lm)" using top s up assms(4) by (metis order_trans)
  then have "ControllerID lm \<noteq> -1" by auto
  then show ?thesis using at top by auto
qed

theorem controller_highest_alive_witness:
  "ControllerID (run_rounds [\<lambda>_ _. Inl ErrIO] (NewLivenessMonitor three_brokers 1 1 1)) \<in> {1, 2, 3}"
  using controller_highest_alive [of three_brokers 1 1 _ "[\<lambda>_ _. Inl ErrIO]" 1]
  by (simp add: three_brokers_def)

section \<open>The peers flag\<close>

definition peer_string :: "Broker \<Rightarrow> string" where
  "peer_string b = Itoa (sint (BrokerID b)) @ CHR ''@'' # Host b @ CHR '':'' # Itoa (sint (Port b))"

definition plain_host :: "string \<Rightarrow> bool" where
  "plain_host h \<longleftrightarrow> set h \<inter> {CHR '','', CHR '':'', CHR ''['', CHR '']''} = {}"

fun join :: "string list \<Rightarrow> string" where
  "join [] = []"
| "join [t] = t"
| "join (t # ts) = t @ CHR '','' # join ts"

lemma Split_join: "ts \<noteq> [] \<Longrightarrow> \<forall>t \<in> set ts. CHR '','' \<notin> set t \<Longrightarrow> Split CHR '','' (join ts) = ts"
  by (induction ts rule: join.induct) (simp_all add: Split_append Split_single)

lemma Cut_first: "sep \<notin> set a \<Longrightarrow> Cut sep (a @ sep # b) = Some (a, b)"
  by (simp add: Cut_def takeWhile_append dropWhile_append)

lemma CutLast_last: "sep \<notin> set b \<Longrightarrow> CutLast sep (a @ sep # b) = Some (a, b)"
  using Cut_first [of sep "rev b" "rev a"] by (simp add: CutLast_def)

lemma Itoa_plain:
  "\<forall>c \<in> set (Itoa i). \<not> is_space c \<and> c \<notin> {CHR '','', CHR '':'', CHR ''@'', CHR ''['', CHR '']''}"
  using Itoa_chars [of _ i] by (fastforce simp: is_space_def)

lemma TrimSpace_id: "s \<noteq> [] \<Longrightarrow> \<not> is_space (hd s) \<Longrightarrow> \<not> is_space (last s) \<Longrightarrow> TrimSpace s = s"
proof -
  assume a: "s \<noteq> []" "\<not> is_space (hd s)" "\<not> is_space (last s)"
  then have "dropWhile is_space s = s" by (cases s) simp_all
  moreover have "dropWhile is_space (rev s) = rev s" using a by (cases s rule: rev_cases) simp_all
  ultimately show ?thesis by (simp add: TrimSpace_def)
qed

lemma parseBroker_peer_string:
  assumes "plain_host (Host b)"
  shows "parseBroker (TrimSpace (peer_string b)) = Inr b" "CHR '','' \<notin> set (peer_string b)"
    "\<not> is_space (hd (peer_string b))" "\<not> is_space (last (peer_string b))" "peer_string b \<noteq> []"
proof -
  let ?i = "Itoa (sint (BrokerID b))" and ?p = "Itoa (sint (Port b))"
  let ?hp = "Host b @ CHR '':'' # ?p"
  note ip = Itoa_plain [of "sint (BrokerID b)"] and pp = Itoa_plain [of "sint (Port b)"]
  have ends: "hd (peer_string b) \<in> set ?i" "last (peer_string b) \<in> set ?p"
    by (simp_all add: peer_string_def)
  then show sp: "\<not> is_space (hd (peer_string b))" "\<not> is_space (last (peer_string b))" "peer_string b \<noteq> []"
    using ip pp by (auto simp: peer_string_def)
  show "CHR '','' \<notin> set (peer_string b)"
    using ip pp assms by (auto simp: peer_string_def plain_host_def)
  have "Cut CHR ''@'' (peer_string b) = Some (?i, ?hp)"
    unfolding peer_string_def using ip by (intro Cut_first) auto
  moreover have "SplitHostPort ?hp = Some (Host b, ?p)"
  proof -
    have "CutLast CHR '':'' ?hp = Some (Host b, ?p)" using pp by (intro CutLast_last) auto
    moreover have "hd ?hp \<noteq> CHR ''[''" using assms by (cases "Host b") (auto simp: plain_host_def)
    ultimately show ?thesis
      using pp assms by (auto simp: SplitHostPort_def plain_host_def)
  qed
  moreover have "ParseInt 32 ?i = Some (sint (BrokerID b))" "ParseInt 32 ?p = Some (sint (Port b))"
    using sint_range_32 by (auto intro!: ParseInt_Itoa)
  ultimately show "parseBroker (TrimSpace (peer_string b)) = Inr b"
    by (simp add: TrimSpace_id [OF sp(3,1,2)] parseBroker_def)
qed

lemma parse_tokens_peers:
  "\<forall>b \<in> set bs. plain_host (Host b) \<Longrightarrow> parse_tokens (map peer_string bs) = Inr bs"
  by (induction bs) (simp_all add: parseBroker_peer_string)

text \<open>
  The peers flag is read back: a list of brokers written as \<open>id@host:port\<close> and joined by
  commas, in any order, is parsed to the same brokers in the order of their ids, provided
  that it names the broker itself; if it does not, parsing fails.
\<close>

theorem peers_roundtrip:
  assumes "bs \<noteq> []" "\<forall>b \<in> set bs. plain_host (Host b)"
  shows "ParseMembership (join (map peer_string bs)) slf h p =
    (if slf \<in> BrokerID ` set bs then Inr \<lparr>self = slf, brokers = sort_key (sint \<circ> BrokerID) bs\<rparr>
     else Inl ErrPeersWithoutSelf)"
proof -
  obtain b cs where b: "bs = b # cs" using assms(1) by (cases bs) auto
  have "hd (join (map peer_string bs)) = hd (peer_string b)" "join (map peer_string bs) \<noteq> []"
    using parseBroker_peer_string(5) [of b] assms(2) b by (cases cs; simp)+
  then have "\<not> is_space (hd (join (map peer_string bs)))"
    using parseBroker_peer_string(3) [of b] assms(2) b by simp
  then have "TrimSpace (join (map peer_string bs)) \<noteq> []"
    using \<open>join (map peer_string bs) \<noteq> []\<close>
    by (cases "join (map peer_string bs)") (auto simp: TrimSpace_def dropWhile_eq_Nil_conv)
  moreover have "Split CHR '','' (join (map peer_string bs)) = map peer_string bs"
    using assms parseBroker_peer_string(2) by (intro Split_join) auto
  ultimately show ?thesis
    using parse_tokens_peers [OF assms(2)] by (simp add: ParseMembership_def)
qed

theorem peers_roundtrip_witness:
  "ParseMembership (join (map peer_string [\<lparr>BrokerID = 2, Host = ''b'', Port = 9093\<rparr>,
      \<lparr>BrokerID = 1, Host = ''a'', Port = 9092\<rparr>])) 1 ''a'' 9092
    = Inr \<lparr>self = 1, brokers = [\<lparr>BrokerID = 1, Host = ''a'', Port = 9092\<rparr>,
        \<lparr>BrokerID = 2, Host = ''b'', Port = 9093\<rparr>]\<rparr>"
  by (subst peers_roundtrip) (simp_all add: plain_host_def)

end
