(* ===== verification/MetadataLog.thy ===== *)
theory MetadataLog
  imports Storage_Manager Membership Topics
begin

text \<open>
  The metadata log of \<open>internal/cluster/metadatalog.go\<close>, its follower
  (\<open>metadatafollower.go\<close>) and the answer of the controller
  (\<open>internal/network/fetch_metadata_log.go\<close>). A metadata log is a segmented log whose
  payloads encode changes of topics.
\<close>

section \<open>Records and their encoding\<close>

datatype RecordType = TopicUpsert | TopicDelete

record Record =
  Type :: RecordType
  RecordTopic :: string
  RecordPartitions :: "Partition list"

definition type_code :: "RecordType \<Rightarrow> int8" where
  "type_code t = (case t of TopicUpsert \<Rightarrow> 0 | TopicDelete \<Rightarrow> 1)"

definition writeMetadataIDs :: "int32 list \<Rightarrow> bytes" where
  "writeMetadataIDs ids = WriteArray WriteInt32 ids"

definition readMetadataIDs :: "int32 list decoder" where
  "readMetadataIDs = ReadArray ReadInt32"

definition write_partition :: "Partition \<Rightarrow> bytes" where
  "write_partition p =
     WriteInt32 (ID p) @ WriteInt32 (Leader p) @ writeMetadataIDs (Replicas p) @ writeMetadataIDs (ISR p)"

definition read_partition :: "Partition decoder" where
  "read_partition =
     dbind ReadInt32 (\<lambda>partitionID.
     dbind ReadInt32 (\<lambda>leader.
     dbind readMetadataIDs (\<lambda>replicas.
     dbind readMetadataIDs (\<lambda>isr.
     dreturn \<lparr>ID = partitionID, Leader = leader, Replicas = replicas, ISR = isr\<rparr>))))"

definition encodeMetadataRecord :: "Record \<Rightarrow> bytes" where
  "encodeMetadataRecord r =
     WriteInt8 (type_code (Type r)) @ WriteString (RecordTopic r)
     @ (if Type r = TopicUpsert then WriteArray write_partition (RecordPartitions r) else [])"

definition decode_record :: "Record decoder" where
  "decode_record =
     dbind ReadInt8 (\<lambda>typeValue.
     if typeValue \<noteq> type_code TopicUpsert \<and> typeValue \<noteq> type_code TopicDelete
     then dfail (ErrRecordType typeValue)
     else dbind ReadString (\<lambda>topicName.
       if typeValue \<noteq> type_code TopicUpsert
       then dreturn \<lparr>Type = TopicDelete, RecordTopic = topicName, RecordPartitions = []\<rparr>
       else dbind (ReadArray read_partition) (\<lambda>partitions.
         dreturn \<lparr>Type = TopicUpsert, RecordTopic = topicName, RecordPartitions = partitions\<rparr>)))"

definition decodeMetadataRecord :: "bytes \<Rightarrow> go_error + Record" where
  "decodeMetadataRecord payload = map_sum id fst (decode_record payload)"

section \<open>The log\<close>

definition OpenMetadataLog :: "append_io list \<Rightarrow> dir \<Rightarrow> go_error + Log" where
  "OpenMetadataLog dsk dr = Open dsk dr"

definition MetadataLog_Append :: "Log \<Rightarrow> Record \<Rightarrow> Log \<times> (go_error + int64)" where
  "MetadataLog_Append ml record = Append ml (encodeMetadataRecord record)"

definition AppendRaw :: "Log \<Rightarrow> bytes \<Rightarrow> Log \<times> (go_error + int64)" where
  "AppendRaw ml payload = Append ml payload"

text \<open>\<open>None\<close> would mean that the loop does not end.\<close>

definition ReadRawFrom :: "Log \<Rightarrow> int64 \<Rightarrow> (go_error + bytes list) option" where
  "ReadRawFrom ml offset =
     scan_log (\<lambda>o'. Read ml o' (-1)) (\<lambda>r payloads. Inr (payloads @ [Payload r])) offset []"

definition ReadFrom :: "Log \<Rightarrow> int64 \<Rightarrow> (go_error + Record list) option" where
  "ReadFrom ml offset =
     map_option (\<lambda>raw. case raw of
         Inl err \<Rightarrow> Inl err
       | Inr payloads \<Rightarrow>
           foldE (\<lambda>payload records. case decodeMetadataRecord payload of
               Inl err \<Rightarrow> Inl err | Inr r \<Rightarrow> Inr (records @ [r])) payloads [])
     (ReadRawFrom ml offset)"

definition ReplayAll :: "Log \<Rightarrow> (go_error + Record list) option" where
  "ReplayAll ml = ReadFrom ml 0"

section \<open>Controller and follower\<close>

definition InternalFetchMetadataLogKey :: int16 where
  "InternalFetchMetadataLogKey = 1002"

definition handleFetchMetadataLog :: "Log option \<Rightarrow> bytes \<Rightarrow> (go_error + bytes) option" where
  "handleFetchMetadataLog metadataLog body =
     (case metadataLog of
        None \<Rightarrow> Some (Inr (WriteArrayLen 0))
      | Some ml \<Rightarrow>
          (case ReadInt64 body of
             Inl err \<Rightarrow> Some (Inl err)
           | Inr (fromOffset, _) \<Rightarrow>
               map_option (map_sum id (WriteArray WriteBytes)) (ReadRawFrom ml fromOffset)))"

record MetadataFollower =
  metadataLog :: Log
  membership :: Membership
  selfID :: int32

text \<open>
  The loop over the records of a response; \<open>apply\<close> is the callback. A null payload is
  appended as an empty one.
\<close>

fun apply_records ::
    "(Record \<Rightarrow> 's \<Rightarrow> 's) \<Rightarrow> nat \<Rightarrow> bytes \<Rightarrow> Log \<Rightarrow> 's \<Rightarrow> Log \<times> 's" where
  "apply_records app 0 bs ml st = (ml, st)"
| "apply_records app (Suc n) bs ml st =
     (case ReadBytes bs of
        Inl err \<Rightarrow> (ml, st)
      | Inr (p, rest) \<Rightarrow>
          (let payload = (case p of None \<Rightarrow> [] | Some b \<Rightarrow> b)
           in case AppendRaw ml payload of
               (ml', Inl err) \<Rightarrow> (ml', st)
             | (ml', Inr _) \<Rightarrow>
                 (case decodeMetadataRecord payload of
                    Inl err \<Rightarrow> (ml', st)
                  | Inr r \<Rightarrow> apply_records app n rest ml' (app r st))))"

definition MetadataFollower_fetchOnce ::
    "transport \<Rightarrow> int32 option \<Rightarrow> (Record \<Rightarrow> 's \<Rightarrow> 's) \<Rightarrow> MetadataFollower \<Rightarrow> 's \<Rightarrow> MetadataFollower \<times> 's" where
  "MetadataFollower_fetchOnce net controller app f st =
     (let controllerID = (case controller of None \<Rightarrow> selfID f | Some c \<Rightarrow> c)
      in if controllerID = selfID f then (f, st)
         else case Membership_Get (membership f) controllerID of
             None \<Rightarrow> (f, st)
           | Some target \<Rightarrow>
               (case BrokerClient_Send net target
                    \<lparr>APIKey = InternalFetchMetadataLogKey, APIVersion = 0, CorrelationID = 1, ClientID = None\<rparr>
                    (WriteInt64 (EndOffset (metadataLog f))) of
                  Inl err \<Rightarrow> (f, st)
                | Inr response \<Rightarrow>
                    (case ReadArrayLen response of
                       Inl err \<Rightarrow> (f, st)
                     | Inr (cnt, rest) \<Rightarrow>
                         (case apply_records app (nat cnt) rest (metadataLog f) st of
                            (ml, st') \<Rightarrow> (f\<lparr>metadataLog := ml\<rparr>, st')))))"

section \<open>Encoding\<close>

definition partition_ok :: "Partition \<Rightarrow> bool" where
  "partition_ok p \<longleftrightarrow> length (Replicas p) < 2 ^ 31 \<and> length (ISR p) < 2 ^ 31"

definition record_valid :: "Record \<Rightarrow> bool" where
  "record_valid r \<longleftrightarrow> length (RecordTopic r) < 2 ^ 15 \<and> length (RecordPartitions r) < 2 ^ 31
     \<and> list_all partition_ok (RecordPartitions r) \<and> (Type r = TopicDelete \<longrightarrow> RecordPartitions r = [])
     \<and> length (encodeMetadataRecord r) < 2 ^ 31"

interpretation partition_codec: codec write_partition read_partition partition_ok
  by unfold_locales
    (simp add: write_partition_def read_partition_def writeMetadataIDs_def readMetadataIDs_def
      partition_ok_def codec_rt)

interpretation record_codec: codec encodeMetadataRecord decode_record record_valid
proof
  fix r rest
  assume ok: "record_valid r"
  show "decode_record (encodeMetadataRecord r @ rest) = Inr (r, rest)"
  proof (cases "Type r")
    case TopicUpsert
    have "ReadArray read_partition (WriteArray write_partition (RecordPartitions r) @ rest)
        = Inr (RecordPartitions r, rest)"
      using ok by (intro partition_codec.array_enc) (simp_all add: record_valid_def)
    then show ?thesis
      using TopicUpsert ok
      by (cases r) (simp add: decode_record_def encodeMetadataRecord_def record_valid_def type_code_def
          codec_rt ReadInt8_def WriteInt8_def)
  next
    case TopicDelete
    then show ?thesis
      using ok
      by (cases r) (simp add: decode_record_def encodeMetadataRecord_def record_valid_def type_code_def
          codec_rt ReadInt8_def WriteInt8_def)
  qed
qed

lemma decode_encode [codec_rt]:
  "record_valid r \<Longrightarrow> decodeMetadataRecord (encodeMetadataRecord r) = Inr r"
  using record_codec.dec_enc [of r "[]"] by (simp add: decodeMetadataRecord_def)

section \<open>Reading the log\<close>

lemma foldE_snoc: "foldE (\<lambda>x acc. Inr (acc @ [g x])) xs acc = Inr (acc @ map g xs)"
  by (induction xs arbitrary: acc) simp_all

lemma foldE_decode:
  "\<forall>r \<in> set rs. record_valid r \<Longrightarrow>
    foldE (\<lambda>payload records. case decodeMetadataRecord payload of
      Inl err \<Rightarrow> Inl err | Inr r \<Rightarrow> Inr (records @ [r])) (map encodeMetadataRecord rs) acc = Inr (acc @ rs)"
  by (induction rs arbitrary: acc) (simp_all add: codec_rt)

lemma ReadRawFrom_spec:
  assumes "log_inv ml" "log_healthy ml" "sint (StartOffset ml) \<le> sint off" "sint off \<le> sint (EndOffset ml)"
  shows "ReadRawFrom ml off
    = Some (Inr (map Payload (drop (nat (sint off - sint (StartOffset ml))) (log_entries ml))))"
  using seglog.scan_all [OF assms, of "-1" "\<lambda>r payloads. Inr (payloads @ [Payload r])" "[]"]
  by (simp add: ReadRawFrom_def foldE_snoc)

text \<open>The sequence of records that a metadata log holds.\<close>

definition holds :: "Log \<Rightarrow> Record list \<Rightarrow> bool" where
  "holds ml rs \<longleftrightarrow> log_inv ml \<and> log_healthy ml \<and> StartOffset ml = 0 \<and> list_all record_valid rs
     \<and> map Payload (log_entries ml) = map encodeMetadataRecord rs"

lemma holds_end: "holds ml rs \<Longrightarrow> sint (EndOffset ml) = int (length rs)"
  using seglog.fin_recs [of ml] by (simp add: holds_def) (metis length_map)

lemma ReadRawFrom_holds:
  assumes "holds ml rs" "k \<le> length rs" "sint off = int k"
  shows "ReadRawFrom ml off = Some (Inr (map encodeMetadataRecord (drop k rs)))"
  using ReadRawFrom_spec [of ml off] assms holds_end [OF assms(1)]
  by (simp add: holds_def flip: drop_map)

lemma ReplayAll_holds: "holds ml rs \<Longrightarrow> ReplayAll ml = Some (Inr rs)"
  using ReadRawFrom_holds [of ml rs 0 0] foldE_decode [of rs "[]"]
  by (simp add: ReplayAll_def ReadFrom_def holds_def list_all_iff)

lemma Append_holds:
  assumes "holds ml rs" "record_valid r" "int (length rs) < 2 ^ 63 - 1"
    and "Append ml (encodeMetadataRecord r) = (ml', Inr off)"
  shows "holds ml' (rs @ [r]) \<and> off = EndOffset ml \<and> disk ml' = tl (disk ml)"
proof -
  have inv: "log_inv ml" using assms(1) by (simp add: holds_def)
  have "length (encodeMetadataRecord r) < 2 ^ 32" using assms(2) by (simp add: record_valid_def)
  then have "log_inv ml' \<and> off = EndOffset ml \<and> StartOffset ml' = StartOffset ml
      \<and> log_entries ml' = log_entries ml @ [\<lparr>Offset = off, Payload = encodeMetadataRecord r\<rparr>]"
    using seglog.append_ok [OF inv assms(4)] holds_end [OF assms(1)] assms(3) by simp
  then show ?thesis using assms(1,2) Append_healthy [OF inv assms(4)] by (simp add: holds_def)
qed

text \<open>
  A metadata log whose records were written by \<open>Append\<close> replays exactly those records, in
  order; the replay ends. After one more successful append it replays them followed by the new
  record, whose offset is their number; and so it does after a restart.
\<close>

theorem metadata_replay:
  assumes "holds ml rs" "record_valid r" "int (length rs) < 2 ^ 63 - 1"
    and "MetadataLog_Append ml r = (ml', Inr off)"
  shows "ReplayAll ml = Some (Inr rs) \<and> sint off = int (length rs)
    \<and> ReplayAll ml' = Some (Inr (rs @ [r]))
    \<and> (list_all synced (segments ml') \<longrightarrow>
        (\<exists>ml2. OpenMetadataLog dsk (log_dir ml') = Inr ml2 \<and> ReplayAll ml2 = Some (Inr (rs @ [r]))))"
proof -
  have h: "holds ml' (rs @ [r])" "off = EndOffset ml"
    using Append_holds [OF assms(1-3)] assms(4) by (simp_all add: MetadataLog_Append_def)
  have "\<exists>ml2. OpenMetadataLog dsk (log_dir ml') = Inr ml2 \<and> ReplayAll ml2 = Some (Inr (rs @ [r]))"
    if "list_all synced (segments ml')"
  proof -
    have "log_inv ml'" using h(1) by (simp add: holds_def)
    from Open_log_dir [OF this that, of dsk] obtain ml2 where "Open dsk (log_dir ml') = Inr ml2"
      "holds ml2 (rs @ [r])"
      using h(1) by (auto simp: holds_def)
    then show ?thesis using ReplayAll_holds by (auto simp: OpenMetadataLog_def)
  qed
  then show ?thesis
    using ReplayAll_holds [OF assms(1)] ReplayAll_holds [OF h(1)] holds_end [OF assms(1)] h(2) by simp
qed

definition demo_record :: Record where
  "demo_record = \<lparr>Type = TopicUpsert, RecordTopic = ''orders'',
     RecordPartitions = [\<lparr>ID = 0, Leader = 1, Replicas = [1, 2], ISR = [1, 2]\<rparr>]\<rparr>"

lemma demo_record_valid: "record_valid demo_record"
proof -
  have "length (encodeMetadataRecord demo_record) = 45" by code_simp
  then show ?thesis by (simp add: record_valid_def) (simp add: demo_record_def partition_ok_def)
qed

lemma holds_fresh: "holds (fresh_log dsk) []"
  by (simp add: holds_def fresh_log_inv)

theorem metadata_replay_witness:
  "\<exists>ml' off. MetadataLog_Append (fresh_log []) demo_record = (ml', Inr off)
    \<and> ReplayAll ml' = Some (Inr [demo_record])"
proof -
  obtain ml' off where "MetadataLog_Append (fresh_log []) demo_record = (ml', Inr off)"
    using Append_succeeds [OF fresh_log_inv(1,2)] by (force simp: MetadataLog_Append_def)
  with metadata_replay [OF holds_fresh demo_record_valid _ this, of "[]"] show ?thesis by auto
qed

section \<open>Catching up with the controller\<close>

text \<open>The controller as a peer on the network: what \<open>Dispatch\<close> does with this request.\<close>

definition metadata_peer :: "Log \<Rightarrow> bytes \<Rightarrow> go_error + bytes" where
  "metadata_peer ml payload =
     (case ReadRequestHeader payload of
        Inl err \<Rightarrow> Inl err
      | Inr (header, body) \<Rightarrow>
          (case handleFetchMetadataLog (Some ml) body of
             None \<Rightarrow> Inl EOF
           | Some (Inl err) \<Rightarrow> Inl EOF
           | Some (Inr response) \<Rightarrow> Inr (WriteResponseHeader (CorrelationID header) @ response)))"

lemma apply_records_all:
  assumes "holds ml rs0" "list_all record_valid rs" "disk ml = []"
    and "int (length rs0) + int (length rs) < 2 ^ 63 - 1"
  shows "\<exists>ml'. apply_records app (length rs)
      (concat (map (\<lambda>r. WriteBytes (encodeMetadataRecord r)) rs) @ rest) ml st = (ml', fold app rs st)
    \<and> holds ml' (rs0 @ rs) \<and> disk ml' = []"
  using assms
proof (induction rs arbitrary: rs0 ml st)
  case (Cons r rs)
  have v: "record_valid r" "length (encodeMetadataRecord r) < 2 ^ 31"
    using Cons.prems(2) by (simp_all add: record_valid_def)
  obtain ml1 off where ap: "Append ml (encodeMetadataRecord r) = (ml1, Inr off)"
    using Append_succeeds Cons.prems(1,3) by (metis holds_def)
  then have h: "holds ml1 (rs0 @ [r])" "disk ml1 = []"
    using Append_holds [OF Cons.prems(1) v(1)] Cons.prems(3,4) by auto
  from Cons.IH [OF h(1) _ h(2), of "app r st"] Cons.prems(2,4) obtain ml' where
    "apply_records app (length rs) (concat (map (\<lambda>r. WriteBytes (encodeMetadataRecord r)) rs) @ rest) ml1 (app r st)
      = (ml', fold app rs (app r st))" "holds ml' (rs0 @ r # rs)" "disk ml' = []"
    by auto
  then show ?case
    using ap v by (simp add: codec_rt AppendRaw_def)
qed (simp add: assms)

lemma follower_catches_up:
  defines "h \<equiv> \<lparr>APIKey = InternalFetchMetadataLogKey, APIVersion = 0, CorrelationID = 1, ClientID = None\<rparr>"
  assumes "holds ctl (rs @ new)" "holds (metadataLog f) rs" "disk (metadataLog f) = []"
    and "length (rs @ new) < 2 ^ 31" "c \<noteq> selfID f" "Membership_Get (membership f) c = Some b"
    and "\<And>off. net b (WriteRequestHeader h @ WriteInt64 off) = metadata_peer ctl (WriteRequestHeader h @ WriteInt64 off)"
  obtains ml' where "MetadataFollower_fetchOnce net (Some c) app f st = (f\<lparr>metadataLog := ml'\<rparr>, fold app new st)"
    "holds ml' (rs @ new)" "disk ml' = []"
proof -
  let ?off = "EndOffset (metadataLog f)"
  let ?resp = "WriteArray WriteBytes (map encodeMetadataRecord new)"
  have v: "list_all record_valid new" using assms(2) by (simp add: holds_def)
  have "ReadRequestHeader (WriteRequestHeader h @ WriteInt64 ?off) = Inr (h, WriteInt64 ?off)"
    by (rule header_codec.dec_enc) (simp add: header_ok_def h_def)
  moreover have "handleFetchMetadataLog (Some ctl) (WriteInt64 ?off) = Some (Inr ?resp)"
    using ReadRawFrom_holds [OF assms(2), of "length rs" ?off] holds_end [OF assms(3)]
      read_fixed(4) [of ?off "[]"]
    by (simp add: handleFetchMetadataLog_def)
  ultimately have "net b (WriteRequestHeader h @ WriteInt64 ?off) = Inr (WriteResponseHeader 1 @ ?resp)"
    by (simp add: assms(8) metadata_peer_def) (simp add: h_def)
  moreover have "drop 4 (WriteResponseHeader 1 @ ?resp) = ?resp"
    by (simp add: WriteResponseHeader_def WriteInt32_def)
  ultimately have "BrokerClient_Send net b h (WriteInt64 ?off) = Inr ?resp"
    by (simp add: BrokerClient_Send_def codec_rt) (simp add: h_def)
  moreover have "ReadArrayLen ?resp
      = Inr (int (length new), concat (map (\<lambda>r. WriteBytes (encodeMetadataRecord r)) new))"
    using assms(5) by (simp add: WriteArray_def codec_rt comp_def)
  moreover obtain ml' where "apply_records app (length new)
      (concat (map (\<lambda>r. WriteBytes (encodeMetadataRecord r)) new)) (metadataLog f) st = (ml', fold app new st)"
    "holds ml' (rs @ new)" "disk ml' = []"
    using apply_records_all [OF assms(3) v assms(4), of app "[]" st] assms(5) by auto
  ultimately show ?thesis
    using assms(6,7) that by (simp add: MetadataFollower_fetchOnce_def h_def)
qed

text \<open>
  C31. A follower whose metadata log holds a prefix of the controller's catches up in one fetch:
  afterwards its log holds the controller's records, and exactly the ones it missed were
  applied, in order. A broker that is the controller itself changes nothing.
\<close>

theorem metadata_catch_up:
  assumes "holds ctl (rs @ new)" "holds (metadataLog f) rs" "disk (metadataLog f) = []"
    and "length (rs @ new) < 2 ^ 31" "c \<noteq> selfID f" "Membership_Get (membership f) c = Some b"
    and "net b = metadata_peer ctl"
  shows "\<exists>f'. MetadataFollower_fetchOnce net (Some c) app f st = (f', fold app new st)
      \<and> holds (metadataLog f') (rs @ new) \<and> ReplayAll (metadataLog f') = ReplayAll ctl
    \<and> MetadataFollower_fetchOnce net (Some (selfID f)) app f st = (f, st)"
proof -
  obtain ml' where ml': "MetadataFollower_fetchOnce net (Some c) app f st = (f\<lparr>metadataLog := ml'\<rparr>, fold app new st)"
    "holds ml' (rs @ new)"
    by (rule follower_catches_up [OF assms(1-6), of net app st]) (auto simp: assms(7))
  moreover have "ReplayAll ml' = ReplayAll ctl" using ReplayAll_holds [OF ml'(2)] ReplayAll_holds [OF assms(1)] by simp
  ultimately show ?thesis by (simp add: MetadataFollower_fetchOnce_def)
qed

theorem metadata_catch_up_witness:
  "\<exists>ctl f'. MetadataFollower_fetchOnce (\<lambda>_. metadata_peer ctl) (Some 3) (\<lambda>r st. st @ [r])
      \<lparr>metadataLog = fresh_log [], membership = three_brokers, selfID = 1\<rparr> [] = (f', [demo_record])
    \<and> ReplayAll (metadataLog f') = Some (Inr [demo_record])"
proof -
  obtain ctl off where "Append (fresh_log []) (encodeMetadataRecord demo_record) = (ctl, Inr off)"
    using Append_succeeds [OF fresh_log_inv(1,2)] by force
  then have ctl: "holds ctl ([] @ [demo_record])"
    using Append_holds [OF holds_fresh demo_record_valid] by simp
  let ?f = "\<lparr>metadataLog = fresh_log [], membership = three_brokers, selfID = 1\<rparr>"
  from metadata_catch_up [OF ctl, of ?f 3 "\<lparr>BrokerID = 3, Host = ''c'', Port = 1\<rparr>" "\<lambda>_. metadata_peer ctl"
      "\<lambda>r st. st @ [r]" "[]"]
  obtain f' where "MetadataFollower_fetchOnce (\<lambda>_. metadata_peer ctl) (Some 3) (\<lambda>r st. st @ [r]) ?f []
      = (f', [demo_record])" "ReplayAll (metadataLog f') = ReplayAll ctl"
    by (auto simp: holds_fresh Membership_Get_def three_brokers_def)
  then show ?thesis using ReplayAll_holds [OF ctl] by auto
qed

end
