(* ===== verification/OffsetStore.thy ===== *)
theory OffsetStore
  imports Storage_Manager
begin

text \<open>
  The committed offsets of consumer groups (\<open>internal/offset/store.go\<close>): a map in memory and
  a log of all commits, from which the map is rebuilt at the start. The current time, which a
  commit writes and nothing reads, is an argument.
\<close>

section \<open>Model\<close>

record offset_key =
  group :: string
  okTopic :: string
  okPartition :: int32

record Store =
  store_log :: Log
  offsets :: "(offset_key, int64) gomap"

definition encodeEntry :: "int64 \<Rightarrow> string \<Rightarrow> string \<Rightarrow> int32 \<Rightarrow> int64 \<Rightarrow> bytes" where
  "encodeEntry now g tp pt off =
     WriteString g @ WriteString tp @ WriteInt32 pt @ WriteInt64 off @ WriteInt64 now"

definition read_entry :: "(offset_key \<times> int64) decoder" where
  "read_entry =
     dbind ReadString (\<lambda>g.
     dbind ReadString (\<lambda>tp.
     dbind ReadInt32 (\<lambda>pt.
     dbind ReadInt64 (\<lambda>off.
     dbind ReadInt64 (\<lambda>_.
     dreturn (\<lparr>group = g, okTopic = tp, okPartition = pt\<rparr>, off))))))"

definition decodeEntry :: "bytes \<Rightarrow> go_error + offset_key \<times> int64" where
  "decodeEntry payload = map_sum id fst (read_entry payload)"

definition replay_record ::
    "LogRecord \<Rightarrow> (offset_key, int64) gomap \<Rightarrow> go_error + (offset_key, int64) gomap" where
  "replay_record r m =
     (case decodeEntry (Payload r) of Inl err \<Rightarrow> Inl err | Inr (k, off) \<Rightarrow> Inr (mput k off m))"

text \<open>\<open>None\<close> would mean that the loop does not end.\<close>

definition replay :: "Store \<Rightarrow> (go_error + Store) option" where
  "replay s =
     map_option (map_sum id (\<lambda>m. s\<lparr>offsets := m\<rparr>))
       (scan_log (\<lambda>o'. Read (store_log s) o' (-1)) replay_record 0 (offsets s))"

definition NewStore :: "Log \<Rightarrow> (go_error + Store) option" where
  "NewStore l = replay \<lparr>store_log = l, offsets = []\<rparr>"

definition Commit :: "int64 \<Rightarrow> Store \<Rightarrow> string \<Rightarrow> string \<Rightarrow> int32 \<Rightarrow> int64 \<Rightarrow> Store \<times> go_error option" where
  "Commit now s g tp pt off =
     (case Append (store_log s) (encodeEntry now g tp pt off) of
        (l, Inl err) \<Rightarrow> (s\<lparr>store_log := l\<rparr>, Some err)
      | (l, Inr _) \<Rightarrow>
          (s\<lparr>store_log := l,
             offsets := mput \<lparr>group = g, okTopic = tp, okPartition = pt\<rparr> off (offsets s)\<rparr>, None))"

definition Fetch :: "Store \<Rightarrow> string \<Rightarrow> string \<Rightarrow> int32 \<Rightarrow> int64" where
  "Fetch s g tp pt =
     (case map_of (offsets s) \<lparr>group = g, okTopic = tp, okPartition = pt\<rparr> of
        None \<Rightarrow> -1
      | Some off \<Rightarrow> off)"

section \<open>The map is the replay of the log\<close>

text \<open>
  The commits that a log holds, the last one first; and the invariant: the map answers as the
  list of commits does.
\<close>

definition commits :: "Log \<Rightarrow> (offset_key \<times> int64) list \<Rightarrow> bool" where
  "commits l cs \<longleftrightarrow> log_inv l \<and> StartOffset l = 0
     \<and> map (\<lambda>r. decodeEntry (Payload r)) (log_entries l) = map Inr (rev cs)"

definition store_inv :: "Store \<Rightarrow> bool" where
  "store_inv s \<longleftrightarrow> (\<exists>cs. commits (store_log s) cs \<and> map_of (offsets s) = map_of cs)"

lemma decode_encode_entry [codec_rt]:
  "length g < 2 ^ 15 \<Longrightarrow> length tp < 2 ^ 15 \<Longrightarrow>
    decodeEntry (encodeEntry now g tp pt off) = Inr (\<lparr>group = g, okTopic = tp, okPartition = pt\<rparr>, off)"
  using read_fixed(4) [of now "[]"]
  by (simp add: decodeEntry_def encodeEntry_def read_entry_def codec_rt)

lemma foldE_replay:
  assumes "map (\<lambda>r. decodeEntry (Payload r)) rs = map Inr cs"
  shows "foldE replay_record rs m = Inr (fold (\<lambda>(k, off). mput k off) cs m)"
  using assms
proof (induction rs arbitrary: cs m)
  case (Cons r rs)
  then obtain k off cs' where "cs = (k, off) # cs'" "decodeEntry (Payload r) = Inr (k, off)"
    "map (\<lambda>r. decodeEntry (Payload r)) rs = map Inr cs'"
    by (cases cs) auto
  then show ?case using Cons.IH by (simp add: replay_record_def)
qed simp

lemma map_of_fold_mput: "map_of (fold (\<lambda>(k, v). mput k v) cs m) = map_of (rev cs @ m)"
  by (induction cs arbitrary: m) (auto simp: map_add_upd split: prod.splits)

lemma NewStore_commits:
  assumes "commits l cs" "log_healthy l"
  shows "\<exists>s. NewStore l = Some (Inr s) \<and> store_log s = l \<and> map_of (offsets s) = map_of cs"
proof -
  have l: "log_inv l" "StartOffset l = 0" "map (\<lambda>r. decodeEntry (Payload r)) (log_entries l) = map Inr (rev cs)"
    using assms(1) by (simp_all add: commits_def)
  have "0 \<le> sint (EndOffset l)" using seglog.fin_recs [OF l(1)] l(2) by simp
  then have "scan_log (\<lambda>o'. Read l o' (-1)) replay_record 0 []
      = Some (foldE replay_record (log_entries l) [])"
    using seglog.scan_all [OF l(1) assms(2), of 0 "-1" replay_record "[]"] l(2) by simp
  then show ?thesis
    using map_of_fold_mput [of "rev cs" "[]"]
    by (simp add: NewStore_def replay_def foldE_replay [OF l(3)])
qed

lemma encodeEntry_length: "length (encodeEntry now g tp pt off) = 24 + length g + length tp"
  by (simp add: encodeEntry_def WriteString_def)

text \<open>
  C28. Committing and restarting. A commit that succeeds is what \<open>Fetch\<close> returns for its group,
  topic and partition from then on, and changes nothing else; one that fails changes nothing.
  At any time, if the process restarts, the store opened on the directory answers every fetch
  as the running one did: the replay ends and gives the last commit of each key.
\<close>

theorem commits_survive:
  assumes "store_inv s" "length g < 2 ^ 15" "length tp < 2 ^ 15"
    and "sint (EndOffset (store_log s)) < 2 ^ 63 - 1" "Commit now s g tp pt off = (s', err)"
  shows "store_inv s'
    \<and> (\<forall>g' tp' pt'. Fetch s' g' tp' pt' =
        (if err = None \<and> (g', tp', pt') = (g, tp, pt) then off else Fetch s g' tp' pt'))
    \<and> (list_all synced (segments (store_log s')) \<longrightarrow>
        (\<exists>l s2. Open dsk (log_dir (store_log s')) = Inr l \<and> NewStore l = Some (Inr s2)
          \<and> (\<forall>g' tp' pt'. Fetch s2 g' tp' pt' = Fetch s' g' tp' pt')))"
proof -
  let ?k = "\<lparr>group = g, okTopic = tp, okPartition = pt\<rparr>"
  obtain cs where cs: "commits (store_log s) cs" "map_of (offsets s) = map_of cs"
    using assms(1) by (auto simp: store_inv_def)
  have l: "log_inv (store_log s)" using cs(1) by (simp add: commits_def)
  obtain l' res where ap: "Append (store_log s) (encodeEntry now g tp pt off) = (l', res)" by fastforce
  have len: "length (encodeEntry now g tp pt off) < 2 ^ 32" using assms(2,3) by (simp add: encodeEntry_length)
  have main: "commits l' (if err = None then (?k, off) # cs else cs)
      \<and> store_log s' = l' \<and> offsets s' = (if err = None then mput ?k off (offsets s) else offsets s)"
  proof (cases res)
    case (Inl e)
    then show ?thesis
      using assms(5) ap seglog.append_err [OF l ap [unfolded Inl] len assms(4)] cs(1)
      by (auto simp: Commit_def commits_def)
  next
    case (Inr o')
    then show ?thesis
      using assms(2,3,5) ap seglog.append_ok [OF l ap [unfolded Inr] len assms(4)] cs(1)
      by (auto simp: Commit_def commits_def decode_encode_entry)
  qed
  then have inv: "store_inv s'" using cs(2) by (auto simp: store_inv_def)
  moreover have "Fetch s' g' tp' pt' =
      (if err = None \<and> (g', tp', pt') = (g, tp, pt) then off else Fetch s g' tp' pt')" for g' tp' pt'
    using main by (auto simp: Fetch_def)
  moreover have "\<exists>l s2. Open dsk (log_dir (store_log s')) = Inr l \<and> NewStore l = Some (Inr s2)
      \<and> (\<forall>g' tp' pt'. Fetch s2 g' tp' pt' = Fetch s' g' tp' pt')"
    if sy: "list_all synced (segments (store_log s'))"
  proof -
    obtain ds where ds: "commits (store_log s') ds" "map_of (offsets s') = map_of ds"
      using inv by (auto simp: store_inv_def)
    then obtain l where "Open dsk (log_dir (store_log s')) = Inr l" "log_healthy l" "commits l ds"
      using Open_log_dir [OF _ sy, of dsk] by (auto simp: commits_def)
    then show ?thesis using NewStore_commits [of l ds] ds(2) by (auto simp: Fetch_def)
  qed
  ultimately show ?thesis by blast
qed

lemma store_inv_new: "store_inv \<lparr>store_log = fresh_log dsk, offsets = []\<rparr>"
  by (auto simp: store_inv_def commits_def fresh_log_inv intro!: exI [of _ "[]"])

theorem commits_survive_witness:
  "Fetch (fst (Commit 5 \<lparr>store_log = fresh_log [], offsets = []\<rparr> ''g'' ''t'' 0 42)) ''g'' ''t'' 0 = 42"
proof -
  let ?s = "\<lparr>store_log = fresh_log [], offsets = []\<rparr>"
  obtain s' err where c: "Commit 5 ?s ''g'' ''t'' 0 42 = (s', err)" by fastforce
  have "snd (Commit 5 ?s ''g'' ''t'' 0 42) = None" by code_simp
  then have "err = None" using c by simp
  then show ?thesis
    using commits_survive [OF store_inv_new _ _ _ c, of "[]"] c by (simp add: EndOffset_def)
qed

section \<open>Names that do not fit\<close>

text \<open>
  A name of 32768 to 65535 bytes, which the HTTP interface lets through, is accepted and
  written with a negative length. The commit succeeds, and every later start of the store
  fails on it.
\<close>

theorem long_name_poisons_store:
  assumes "store_inv s" "2 ^ 15 \<le> length g" "length g < 2 ^ 16" "length tp < 2 ^ 15"
    and "sint (EndOffset (store_log s)) < 2 ^ 63 - 1" "Commit now s g tp pt off = (s', None)"
    and "log_healthy (store_log s')"
  shows "\<exists>e. NewStore (store_log s') = Some (Inl e)"
proof -
  obtain cs where cs: "commits (store_log s) cs" using assms(1) by (auto simp: store_inv_def)
  then have l: "log_inv (store_log s)" by (simp add: commits_def)
  obtain l' o' where ap: "Append (store_log s) (encodeEntry now g tp pt off) = (l', Inr o')"
    and s': "store_log s' = l'"
    using assms(6) by (auto simp: Commit_def split: prod.splits sum.splits)
  have "length (encodeEntry now g tp pt off) < 2 ^ 32" using assms(3,4) by (simp add: encodeEntry_length)
  note a = seglog.append_ok [OF l ap this assms(5)]
  obtain n where "ReadString (encodeEntry now g tp pt off) = Inl (ErrNegativeLength n)"
    using ReadString_overflow [OF assms(2,3)] by (auto simp: encodeEntry_def)
  then have bad: "decodeEntry (encodeEntry now g tp pt off) = Inl (ErrNegativeLength n)"
    by (simp add: decodeEntry_def read_entry_def dbind_apply)
  have "foldE replay_record (log_entries l') [] = Inl (ErrNegativeLength n)"
    using a cs foldE_replay [of "log_entries (store_log s)" "rev cs" "[]"] bad
    by (simp add: commits_def foldE_append replay_record_def)
  moreover have "0 \<le> sint (EndOffset l')" using seglog.fin_recs [of l'] a cs by (simp add: commits_def)
  ultimately show ?thesis
    using seglog.scan_all [of l' 0 "-1" replay_record "[]"] a cs assms(7)
    by (simp add: NewStore_def replay_def s' commits_def)
qed

end
