(* ===== verification/Group.thy ===== *)
theory Group
  imports Wire
begin

text \<open>
  The group coordinator (\<open>internal/group/coordinator.go\<close>, \<open>snapshot.go\<close>). Its methods run
  under one lock, so each critical section is one function on the coordinator's state; the
  places where a call parks, and where a timer goes off, are between the functions.

  A session timer belongs to one member object: not set, armed with its duration, or fired,
  which means that its callback has started and waits for the lock (stopping the timer does
  not stop it then). Join timers are numbered, because a group can lose the reference to one
  that is still armed. A callback that has started is in \<open>running\<close>.

  The channel of a \<open>Join\<close> call is read once, by that call, so only the first value sent to it
  matters: \<open>joinOut\<close> has it. The channel for \<open>Sync\<close> has a buffer of one value and any number
  of parked calls.
\<close>

section \<open>Data\<close>

datatype GroupState = Empty | PreparingRebalance | CompletingRebalance | Stable

definition GroupState_String :: "GroupState \<Rightarrow> string" where
  "GroupState_String s =
     (case s of
        Empty \<Rightarrow> ''Empty''
      | PreparingRebalance \<Rightarrow> ''PreparingRebalance''
      | CompletingRebalance \<Rightarrow> ''CompletingRebalance''
      | Stable \<Rightarrow> ''Stable'')"

record Protocol =
  ProtocolName :: string
  ProtocolMetadata :: "bytes option"

record JoinRequest =
  jrGroupID :: string
  jrClientID :: string
  jrSessionTimeoutMS :: int32
  jrMemberID :: string
  jrProtocolType :: string
  jrProtocols :: "Protocol list"

record JoinMember =
  jmID :: string
  jmMetadata :: "bytes option"

record JoinResult =
  resGenerationID :: int32
  resProtocol :: string
  resLeaderID :: string
  resMemberID :: string
  resMembers :: "JoinMember list"
  resErrorCode :: int16

record SyncRequest =
  srGroupID :: string
  srGenerationID :: int32
  srMemberID :: string
  srAssignments :: "(string, bytes option) gomap"

record SyncResult =
  syAssignment :: "bytes option"
  syErrorCode :: int16

record HeartbeatRequest =
  hrGroupID :: string
  hrGenerationID :: int32
  hrMemberID :: string

record LeaveRequest =
  lrGroupID :: string
  lrMemberID :: string

datatype session_timer = NoTimer | Armed int | Fired

datatype callback = CompleteJoin string | ExpireMember string string

record Member =
  mID :: string
  mProtocol :: string
  mMetadata :: "bytes option"
  mAssignment :: "bytes option"
  SessionTimeoutMS :: int32
  awaitJoin :: nat
  awaitSync :: nat
  sessionTimer :: session_timer

record Group =
  gID :: string
  gState :: GroupState
  GenerationID :: int32
  LeaderID :: string
  gProtocol :: string
  Members :: "(string, Member) gomap"
  JoinOrder :: "string list"
  joinTimer :: "nat option"

record Coordinator =
  groups :: "(string, Group) gomap"
  rebalanceDelay :: int
  nextMemberSeq :: int64
  next_id :: nat
  joinArmed :: "(nat \<times> string) list"
  running :: "callback list"
  joinOut :: "(nat, JoinResult) gomap"
  syncBuf :: "(nat, SyncResult) gomap"
  parked :: "(nat \<times> nat) list"
  syncOut :: "(nat, SyncResult) gomap"

definition NewCoordinator :: "int \<Rightarrow> Coordinator" where
  "NewCoordinator delay =
     \<lparr>groups = [], rebalanceDelay = delay, nextMemberSeq = 0, next_id = 0, joinArmed = [],
      running = [], joinOut = [], syncBuf = [], parked = [], syncOut = []\<rparr>"

section \<open>Helpers\<close>

definition put_group :: "Group \<Rightarrow> Coordinator \<Rightarrow> Coordinator" where
  "put_group g c = c\<lparr>groups := mput (gID g) g (groups c)\<rparr>"

definition getOrCreateGroup :: "Coordinator \<Rightarrow> string \<Rightarrow> Group" where
  "getOrCreateGroup c groupID =
     (case map_of (groups c) groupID of
        Some g \<Rightarrow> g
      | None \<Rightarrow> \<lparr>gID = groupID, gState = Empty, GenerationID = 0, LeaderID = [], gProtocol = [],
                 Members = [], JoinOrder = [], joinTimer = None\<rparr>)"

definition nextMemberID :: "Coordinator \<Rightarrow> string \<Rightarrow> Coordinator \<times> string" where
  "nextMemberID c clientID =
     (let c = c\<lparr>nextMemberSeq := nextMemberSeq c + 1\<rparr>;
          clientID = (if clientID = [] then ''member'' else clientID)
      in (c, clientID @ CHR ''-'' # Itoa (sint (nextMemberSeq c))))"

definition firstProtocolMetadata :: "Protocol list \<Rightarrow> bytes option" where
  "firstProtocolMetadata ps = (case ps of [] \<Rightarrow> None | p # _ \<Rightarrow> ProtocolMetadata p)"

definition firstProtocolName :: "Protocol list \<Rightarrow> string" where
  "firstProtocolName ps = (case ps of [] \<Rightarrow> [] | p # _ \<Rightarrow> ProtocolName p)"

text \<open>The members in the order of joining. Every id of the order is a key of the map (below).\<close>

definition joined :: "Group \<Rightarrow> Member list" where
  "joined g = List.map_filter (map_of (Members g)) (JoinOrder g)"

definition groupProtocol :: "Group \<Rightarrow> string" where
  "groupProtocol g = (case joined g of [] \<Rightarrow> [] | m # _ \<Rightarrow> mProtocol m)"

definition touch :: "Member \<Rightarrow> Member" where
  "touch m =
     (let timeout = (if sint (SessionTimeoutMS m) < 100 then 100 else sint (SessionTimeoutMS m))
      in m\<lparr>sessionTimer := Armed timeout\<rparr>)"

definition stopSessionTimer :: "Member \<Rightarrow> Member" where
  "stopSessionTimer m = m\<lparr>sessionTimer := NoTimer\<rparr>"

definition removeMember :: "Group \<Rightarrow> string \<Rightarrow> Group" where
  "removeMember g memberID =
     g\<lparr>Members := mdel memberID (Members g),
       JoinOrder := filter (\<lambda>i. i \<noteq> memberID) (JoinOrder g),
       LeaderID := (if LeaderID g = memberID then [] else LeaderID g)\<rparr>"

text \<open>\<open>time.AfterFunc\<close> for \<open>completeJoin\<close>, kept in the group's \<open>joinTimer\<close>.\<close>

definition arm_join :: "Group \<Rightarrow> Coordinator \<Rightarrow> Coordinator" where
  "arm_join g c =
     put_group (g\<lparr>joinTimer := Some (next_id c)\<rparr>)
       (c\<lparr>next_id := Suc (next_id c), joinArmed := (next_id c, gID g) # joinArmed c\<rparr>)"

definition maybeRebalance :: "Group \<Rightarrow> Coordinator \<Rightarrow> Coordinator" where
  "maybeRebalance g c =
     (if Members g = [] then put_group (g\<lparr>gState := Empty, LeaderID := [], gProtocol := []\<rparr>) c
      else if gState g \<noteq> Stable \<and> gState g \<noteq> CompletingRebalance then put_group g c
      else
        (let c = (case joinTimer g of
                    None \<Rightarrow> c
                  | Some t \<Rightarrow> c\<lparr>joinArmed := filter (\<lambda>x. fst x \<noteq> t) (joinArmed c)\<rparr>)
         in arm_join (g\<lparr>gState := PreparingRebalance\<rparr>) c))"

section \<open>Join\<close>

definition new_member :: "string \<Rightarrow> Member" where
  "new_member memberID =
     \<lparr>mID = memberID, mProtocol = [], mMetadata = None, mAssignment = None,
      SessionTimeoutMS = 0, awaitJoin = 0, awaitSync = 0, sessionTimer = NoTimer\<rparr>"

text \<open>The first half of \<open>Join\<close>, up to parking: the channel that the call waits on.\<close>

definition Join :: "Coordinator \<Rightarrow> JoinRequest \<Rightarrow> Coordinator \<times> nat" where
  "Join c req =
     (let g = getOrCreateGroup c (jrGroupID req);
          (c, memberID) = (if jrMemberID req = [] then nextMemberID c (jrClientID req)
                           else (c, jrMemberID req));
          m = (case map_of (Members g) memberID of Some m \<Rightarrow> m | None \<Rightarrow> new_member memberID);
          g = (if map_of (Members g) memberID = None
               then g\<lparr>JoinOrder := JoinOrder g @ [memberID]\<rparr> else g);
          m = stopSessionTimer (m\<lparr>SessionTimeoutMS := jrSessionTimeoutMS req,
                 mProtocol := firstProtocolName (jrProtocols req),
                 mMetadata := firstProtocolMetadata (jrProtocols req),
                 awaitJoin := next_id c, awaitSync := Suc (next_id c)\<rparr>);
          c = c\<lparr>next_id := Suc (Suc (next_id c))\<rparr>;
          g = g\<lparr>Members := mput memberID m (Members g)\<rparr>
      in (if gState g \<noteq> PreparingRebalance then arm_join (g\<lparr>gState := PreparingRebalance\<rparr>) c
          else put_group g c,
          awaitJoin m))"

text \<open>A send on the channel of a \<open>Join\<close> call: a later value finds no reader.\<close>

definition send_join :: "nat \<Rightarrow> JoinResult \<Rightarrow> Coordinator \<Rightarrow> Coordinator" where
  "send_join ch r c =
     (if map_of (joinOut c) ch = None then c\<lparr>joinOut := mput ch r (joinOut c)\<rparr> else c)"

definition join_result :: "Group \<Rightarrow> JoinMember list \<Rightarrow> Member \<Rightarrow> JoinResult" where
  "join_result g leaderMembers m =
     \<lparr>resGenerationID = GenerationID g, resProtocol = gProtocol g, resLeaderID = LeaderID g,
      resMemberID = mID m, resMembers = (if mID m = LeaderID g then leaderMembers else []),
      resErrorCode = ErrNone\<rparr>"

definition touch_members :: "string list \<Rightarrow> Group \<Rightarrow> Group" where
  "touch_members ids g =
     g\<lparr>Members := map (\<lambda>(k, m). (k, if k \<in> set ids then touch m else m)) (Members g)\<rparr>"

definition completeJoin :: "Coordinator \<Rightarrow> string \<Rightarrow> Coordinator" where
  "completeJoin c groupID =
     (case map_of (groups c) groupID of
        None \<Rightarrow> c
      | Some g \<Rightarrow>
          (if JoinOrder g = [] then c
           else
             (let g = g\<lparr>LeaderID := hd (JoinOrder g)\<rparr>;
                  g = g\<lparr>gProtocol := groupProtocol g\<rparr>;
                  g = g\<lparr>GenerationID := GenerationID g + 1, gState := CompletingRebalance\<rparr>;
                  g = touch_members (JoinOrder g) g;
                  leaderMembers = map (\<lambda>m. \<lparr>jmID = mID m, jmMetadata = mMetadata m\<rparr>) (joined g)
              in fold (\<lambda>m. send_join (awaitJoin m) (join_result g leaderMembers m)) (joined g)
                   (put_group g c))))"

section \<open>Sync\<close>

text \<open>A non-blocking send on a \<open>Sync\<close> channel, and a receive that parks the caller \<open>w\<close>.\<close>

definition send_sync :: "nat \<Rightarrow> SyncResult \<Rightarrow> Coordinator \<Rightarrow> Coordinator" where
  "send_sync ch r c =
     (case List.find (\<lambda>x. snd x = ch) (parked c) of
        Some (w, _) \<Rightarrow> c\<lparr>parked := remove1 (w, ch) (parked c), syncOut := mput w r (syncOut c)\<rparr>
      | None \<Rightarrow>
          if map_of (syncBuf c) ch = None then c\<lparr>syncBuf := mput ch r (syncBuf c)\<rparr> else c)"

definition recv_sync :: "nat \<Rightarrow> nat \<Rightarrow> Coordinator \<Rightarrow> Coordinator" where
  "recv_sync w ch c =
     (case map_of (syncBuf c) ch of
        Some r \<Rightarrow> c\<lparr>syncBuf := mdel ch (syncBuf c), syncOut := mput w r (syncOut c)\<rparr>
      | None \<Rightarrow> c\<lparr>parked := parked c @ [(w, ch)]\<rparr>)"

definition assign_members :: "(string, bytes option) gomap \<Rightarrow> Group \<Rightarrow> Group" where
  "assign_members as g =
     g\<lparr>Members := map (\<lambda>(k, m). (k, case map_of as k of None \<Rightarrow> m | Some a \<Rightarrow> m\<lparr>mAssignment := a\<rparr>))
        (Members g)\<rparr>"

text \<open>A result at once, or the number of the parked call, whose result comes in \<open>syncOut\<close>.\<close>

datatype sync_return = Returned SyncResult | Waiting nat

definition sync_ok :: "Member \<Rightarrow> SyncResult" where
  "sync_ok m = \<lparr>syAssignment = mAssignment m, syErrorCode = ErrNone\<rparr>"

definition Sync :: "Coordinator \<Rightarrow> SyncRequest \<Rightarrow> Coordinator \<times> sync_return" where
  "Sync c req =
     (case map_of (groups c) (srGroupID req) of
        None \<Rightarrow> (c, Returned \<lparr>syAssignment = None, syErrorCode = ErrUnknownMemberID\<rparr>)
      | Some g \<Rightarrow>
          (case map_of (Members g) (srMemberID req) of
             None \<Rightarrow> (c, Returned \<lparr>syAssignment = None, syErrorCode = ErrUnknownMemberID\<rparr>)
           | Some m \<Rightarrow>
               (if srGenerationID req \<noteq> GenerationID g then
                  (c, Returned \<lparr>syAssignment = None, syErrorCode = ErrIllegalGeneration\<rparr>)
                else if srMemberID req = LeaderID g then
                  (let g = assign_members (srAssignments req) g;
                       g = touch_members (mkeys (Members g)) (g\<lparr>gState := Stable\<rparr>);
                       c = fold (\<lambda>w. if mID w = mID m then id else send_sync (awaitSync w) (sync_ok w))
                             (map snd (Members g)) (put_group g c)
                   in (c, Returned (case map_of (Members g) (srMemberID req) of
                             None \<Rightarrow> sync_ok m | Some m \<Rightarrow> sync_ok m)))
                else if gState g = Stable then
                  (put_group (touch_members [srMemberID req] g) c, Returned (sync_ok m))
                else
                  (let w = next_id c;
                       c = put_group (touch_members [srMemberID req] g) (c\<lparr>next_id := Suc (next_id c)\<rparr>)
                   in (recv_sync w (awaitSync m) c, Waiting w)))))"

section \<open>The other requests and the timers\<close>

definition Coordinator_State :: "Coordinator \<Rightarrow> string \<Rightarrow> GroupState" where
  "Coordinator_State c groupID =
     (case map_of (groups c) groupID of None \<Rightarrow> Empty | Some g \<Rightarrow> gState g)"

definition Heartbeat :: "Coordinator \<Rightarrow> HeartbeatRequest \<Rightarrow> Coordinator \<times> int16" where
  "Heartbeat c req =
     (case map_of (groups c) (hrGroupID req) of
        None \<Rightarrow> (c, ErrUnknownMemberID)
      | Some g \<Rightarrow>
          (case map_of (Members g) (hrMemberID req) of
             None \<Rightarrow> (c, ErrUnknownMemberID)
           | Some m \<Rightarrow>
               (if gState g = PreparingRebalance then (c, ErrRebalanceInProgress)
                else if hrGenerationID req \<noteq> GenerationID g then (c, ErrIllegalGeneration)
                else (put_group (touch_members [hrMemberID req] g) c, ErrNone))))"

text \<open>The removed member's session timer is stopped: it goes away with the member.\<close>

definition Leave :: "Coordinator \<Rightarrow> LeaveRequest \<Rightarrow> Coordinator \<times> int16" where
  "Leave c req =
     (case map_of (groups c) (lrGroupID req) of
        None \<Rightarrow> (c, ErrUnknownMemberID)
      | Some g \<Rightarrow>
          (case map_of (Members g) (lrMemberID req) of
             None \<Rightarrow> (c, ErrUnknownMemberID)
           | Some m \<Rightarrow> (maybeRebalance (removeMember g (lrMemberID req)) c, ErrNone)))"

definition expireMember :: "Coordinator \<Rightarrow> string \<Rightarrow> string \<Rightarrow> Coordinator" where
  "expireMember c groupID memberID =
     (case map_of (groups c) groupID of
        None \<Rightarrow> c
      | Some g \<Rightarrow>
          (case map_of (Members g) memberID of
             None \<Rightarrow> c
           | Some m \<Rightarrow> maybeRebalance (removeMember g memberID) c))"

text \<open>A timer goes off: its callback starts. Then a started callback gets the lock.\<close>

definition fire_join :: "Coordinator \<Rightarrow> nat \<Rightarrow> Coordinator" where
  "fire_join c t =
     (case map_of (joinArmed c) t of
        None \<Rightarrow> c
      | Some gid \<Rightarrow> c\<lparr>joinArmed := filter (\<lambda>x. x \<noteq> (t, gid)) (joinArmed c),
                     running := CompleteJoin gid # running c\<rparr>)"

definition fire_session :: "Coordinator \<Rightarrow> string \<Rightarrow> string \<Rightarrow> Coordinator" where
  "fire_session c gid mid =
     (case map_of (groups c) gid of
        None \<Rightarrow> c
      | Some g \<Rightarrow>
          (case map_of (Members g) mid of
             None \<Rightarrow> c
           | Some m \<Rightarrow>
               (case sessionTimer m of
                  Armed d \<Rightarrow> put_group (g\<lparr>Members := mput mid (m\<lparr>sessionTimer := Fired\<rparr>) (Members g)\<rparr>)
                    (c\<lparr>running := ExpireMember gid mid # running c\<rparr>)
                | _ \<Rightarrow> c)))"

definition run_callback :: "Coordinator \<Rightarrow> callback \<Rightarrow> Coordinator" where
  "run_callback c cb =
     (let c = c\<lparr>running := remove1 cb (running c)\<rparr>
      in case cb of
          CompleteJoin gid \<Rightarrow> completeJoin c gid
        | ExpireMember gid mid \<Rightarrow> expireMember c gid mid)"

section \<open>Snapshot (snapshot.go)\<close>

record MemberSnapshot =
  msID :: string
  msAssignment :: "bytes option"

record GroupSnapshot =
  gsID :: string
  gsState :: string
  gsGenerationID :: int32
  gsLeaderID :: string
  gsProtocol :: string
  gsMembers :: "MemberSnapshot list"

definition group_snapshot :: "Group \<Rightarrow> GroupSnapshot" where
  "group_snapshot g =
     \<lparr>gsID = gID g, gsState = GroupState_String (gState g), gsGenerationID = GenerationID g,
      gsLeaderID = LeaderID g, gsProtocol = gProtocol g,
      gsMembers = map (\<lambda>m. \<lparr>msID = mID m, msAssignment = mAssignment m\<rparr>) (joined g)\<rparr>"

definition Coordinator_Snapshot :: "Coordinator \<Rightarrow> GroupSnapshot list" where
  "Coordinator_Snapshot c = map (group_snapshot \<circ> snd) (groups c)"

section \<open>Runs of the coordinator\<close>

text \<open>Requests, timers and callbacks in any order.\<close>

datatype event =
    EvJoin JoinRequest
  | EvSync SyncRequest
  | EvHeartbeat HeartbeatRequest
  | EvLeave LeaveRequest
  | EvFireJoin nat
  | EvFireSession string string
  | EvRun callback

fun apply_event :: "event \<Rightarrow> Coordinator \<Rightarrow> Coordinator" where
  "apply_event (EvJoin req) c = fst (Join c req)"
| "apply_event (EvSync req) c = fst (Sync c req)"
| "apply_event (EvHeartbeat req) c = fst (Heartbeat c req)"
| "apply_event (EvLeave req) c = fst (Leave c req)"
| "apply_event (EvFireJoin t) c = fire_join c t"
| "apply_event (EvFireSession gid mid) c = fire_session c gid mid"
| "apply_event (EvRun cb) c = run_callback c cb"

inductive coord_step :: "Coordinator \<Rightarrow> event \<Rightarrow> Coordinator \<Rightarrow> bool" where
  request: "ev \<in> {EvJoin j, EvSync s, EvHeartbeat h, EvLeave l} \<Longrightarrow> coord_step c ev (apply_event ev c)"
| fire_join: "t \<in> fst ` set (joinArmed c) \<Longrightarrow> coord_step c (EvFireJoin t) (fire_join c t)"
| fire_session: "coord_step c (EvFireSession gid mid) (fire_session c gid mid)"
| run: "cb \<in> set (running c) \<Longrightarrow> coord_step c (EvRun cb) (run_callback c cb)"

inductive coord_reach :: "int \<Rightarrow> Coordinator \<Rightarrow> bool" for delay where
  init: "coord_reach delay (NewCoordinator delay)"
| step: "coord_reach delay c \<Longrightarrow> coord_step c ev c' \<Longrightarrow> coord_reach delay c'"

end
