(* ===== verification/Group_Correct.thy ===== *)
theory Group_Correct
  imports Group
begin

text \<open>
  The invariant of the group coordinator, that every request, timer and callback keeps it,
  and what it gives for the runs of the coordinator.
\<close>

section \<open>The invariant\<close>

text \<open>A rebalance of the group will be completed; the expiry of a member has started.\<close>

definition join_pending :: "Coordinator \<Rightarrow> string \<Rightarrow> bool" where
  "join_pending c gid \<longleftrightarrow> gid \<in> snd ` set (joinArmed c) \<or> CompleteJoin gid \<in> set (running c)"

definition expiring :: "Coordinator \<Rightarrow> string \<Rightarrow> string \<Rightarrow> bool" where
  "expiring c gid mid \<longleftrightarrow> ExpireMember gid mid \<in> set (running c)"

definition members_ok :: "Group \<Rightarrow> bool" where
  "members_ok g \<longleftrightarrow> distinct (JoinOrder g) \<and> distinct (mkeys (Members g))
     \<and> set (JoinOrder g) = set (mkeys (Members g))
     \<and> (\<forall>(k, m) \<in> set (Members g). mID m = k \<and> k \<noteq> [])"

definition state_ok :: "Group \<Rightarrow> bool" where
  "state_ok g \<longleftrightarrow> (gState g = Empty \<longleftrightarrow> Members g = [])
     \<and> (LeaderID g = [] \<or> LeaderID g \<in> set (mkeys (Members g)))
     \<and> (gState g \<in> {CompletingRebalance, Stable} \<longrightarrow> LeaderID g \<noteq> []
          \<and> (\<forall>(k, m) \<in> set (Members g). sessionTimer m \<noteq> NoTimer))"

definition timers_ok :: "Coordinator \<Rightarrow> Group \<Rightarrow> bool" where
  "timers_ok c g \<longleftrightarrow>
     (gState g = PreparingRebalance \<longrightarrow> join_pending c (gID g))
     \<and> (\<forall>(k, m) \<in> set (Members g). sessionTimer m = Fired \<longrightarrow> expiring c (gID g) k)
     \<and> (\<forall>t. joinTimer g = Some t \<longrightarrow> t < next_id c
          \<and> (\<forall>gid. (t, gid) \<in> set (joinArmed c) \<longrightarrow> gid = gID g))"

definition group_ok :: "Coordinator \<Rightarrow> Group \<Rightarrow> bool" where
  "group_ok c g \<longleftrightarrow> members_ok g \<and> state_ok g \<and> timers_ok c g"

definition coord_inv :: "Coordinator \<Rightarrow> bool" where
  "coord_inv c \<longleftrightarrow> distinct (mkeys (groups c)) \<and> (\<forall>(t, gid) \<in> set (joinArmed c). t < next_id c)
     \<and> (\<forall>gid g. map_of (groups c) gid = Some g \<longrightarrow> gID g = gid \<and> group_ok c g)"

text \<open>
  An operation works on one group. For the others it is enough that no join timer or callback
  of theirs disappears.
\<close>

definition frame :: "string \<Rightarrow> Coordinator \<Rightarrow> Coordinator \<Rightarrow> bool" where
  "frame gid c c' \<longleftrightarrow> next_id c \<le> next_id c'
     \<and> (\<forall>gid'. gid' \<noteq> gid \<longrightarrow> join_pending c gid' \<longrightarrow> join_pending c' gid')
     \<and> (\<forall>gid' mid. gid' \<noteq> gid \<longrightarrow> expiring c gid' mid \<longrightarrow> expiring c' gid' mid)
     \<and> (\<forall>t gid'. (t, gid') \<in> set (joinArmed c') \<longrightarrow>
          (t, gid') \<in> set (joinArmed c) \<or> gid' = gid \<and> next_id c \<le> t \<and> t < next_id c')"

lemma frame_other:
  assumes "frame gid c c'" "group_ok c g" "gID g \<noteq> gid"
  shows "group_ok c' g"
proof -
  have "t < next_id c' \<and> (\<forall>gid'. (t, gid') \<in> set (joinArmed c') \<longrightarrow> gid' = gID g)"
    if "joinTimer g = Some t" for t
    using that assms unfolding frame_def group_ok_def timers_ok_def by (meson leD less_le_trans)
  then show ?thesis
    using assms unfolding frame_def group_ok_def timers_ok_def by fast
qed

lemma put_group_inv:
  assumes "coord_inv c" "frame (gID g) c c'" "groups c' = groups c" "group_ok c' g"
  shows "coord_inv (put_group g c')"
proof -
  have ok: "group_ok (put_group g c') x = group_ok c' x" for x
    by (simp add: put_group_def group_ok_def timers_ok_def join_pending_def expiring_def)
  have "t < next_id c'" if "(t, gid) \<in> set (joinArmed c')" for t gid
  proof -
    have "(t, gid) \<in> set (joinArmed c) \<or> t < next_id c'" "next_id c \<le> next_id c'"
      using that assms(2) unfolding frame_def by blast+
    moreover have "t < next_id c" if "(t, gid) \<in> set (joinArmed c)"
      using that assms(1) by (auto simp: coord_inv_def)
    ultimately show ?thesis by (meson less_le_trans)
  qed
  moreover have "gID x = gid \<and> group_ok c' x" if "map_of (mput (gID g) g (groups c)) gid = Some x" for gid x
  proof (cases "gid = gID g")
    case False
    then have "map_of (groups c) gid = Some x" using that by simp
    then have x: "gID x = gid" "group_ok c x" using assms(1) by (simp_all add: coord_inv_def)
    then show ?thesis using frame_other [OF assms(2) x(2)] False by simp
  qed (use that assms(4) in simp)
  moreover have "distinct (mkeys (mput (gID g) g (groups c)))"
    using assms(1) by (simp add: coord_inv_def)
  moreover have "groups (put_group g c') = mput (gID g) g (groups c)"
    "joinArmed (put_group g c') = joinArmed c'" "next_id (put_group g c') = next_id c'"
    by (simp_all add: put_group_def assms(3))
  ultimately show ?thesis unfolding coord_inv_def by (simp only: ok) blast
qed

lemma frame_refl [simp]: "frame gid c c"
  by (simp add: frame_def)

lemma frame_fields:
  "next_id c' = next_id c \<Longrightarrow> joinArmed c' = joinArmed c \<Longrightarrow> running c' = running c \<Longrightarrow> frame gid c c'"
  by (simp add: frame_def join_pending_def expiring_def)

lemma inv_cong:
  assumes "groups c' = groups c" "next_id c' = next_id c" "joinArmed c' = joinArmed c"
    "running c' = running c"
  shows "coord_inv c' = coord_inv c"
  using assms by (simp add: coord_inv_def group_ok_def timers_ok_def join_pending_def expiring_def)

lemma coord_inv_group: "coord_inv c \<Longrightarrow> map_of (groups c) gid = Some g \<Longrightarrow> gID g = gid \<and> group_ok c g"
  by (simp add: coord_inv_def)

section \<open>The helpers keep the invariant\<close>

lemma map_members:
  fixes f :: "string \<Rightarrow> Member \<Rightarrow> Member"
  assumes "g' = g\<lparr>Members := map (\<lambda>(k, m). (k, f k m)) (Members g)\<rparr>" "\<And>k m. mID (f k m) = mID m"
  shows "members_ok g \<Longrightarrow> members_ok g'"
    and "(\<And>k m. sessionTimer m \<noteq> NoTimer \<Longrightarrow> sessionTimer (f k m) \<noteq> NoTimer) \<Longrightarrow> state_ok g \<Longrightarrow> state_ok g'"
    and "(\<And>k m. sessionTimer (f k m) = Fired \<Longrightarrow> sessionTimer m = Fired) \<Longrightarrow> timers_ok c g \<Longrightarrow> timers_ok c g'"
proof -
  have keys: "mkeys (Members g') = mkeys (Members g)" "(Members g' = []) = (Members g = [])"
    by (auto simp: assms(1))
  have mem: "(\<forall>(k, m) \<in> set (Members g'). P k m) \<longleftrightarrow> (\<forall>(k, m) \<in> set (Members g). P k (f k m))" for P
    by (auto simp: assms(1))
  show "members_ok g \<Longrightarrow> members_ok g'"
    unfolding members_ok_def keys mem using assms(2) by (auto simp: assms(1))
  show "state_ok g \<Longrightarrow> state_ok g'"
    if "\<And>k m. sessionTimer m \<noteq> NoTimer \<Longrightarrow> sessionTimer (f k m) \<noteq> NoTimer"
    unfolding state_ok_def keys mem using that by (auto simp: assms(1))
  show "timers_ok c g \<Longrightarrow> timers_ok c g'"
    if "\<And>k m. sessionTimer (f k m) = Fired \<Longrightarrow> sessionTimer m = Fired"
    unfolding timers_ok_def keys mem using that by (auto simp: assms(1))
qed

lemma touch_simps [simp]: "mID (touch m) = mID m" "\<exists>d. sessionTimer (touch m) = Armed d"
  "mAssignment (touch m) = mAssignment m" "mMetadata (touch m) = mMetadata m"
  "awaitJoin (touch m) = awaitJoin m" "awaitSync (touch m) = awaitSync m"
  by (simp_all add: touch_def Let_def)

lemma touch_timer: "sessionTimer (touch m) \<noteq> NoTimer" "sessionTimer (touch m) \<noteq> Fired"
  by (simp_all add: touch_def Let_def)

lemma touch_members_ok:
  "members_ok g \<Longrightarrow> members_ok (touch_members ids g)"
  "state_ok g \<Longrightarrow> state_ok (touch_members ids g)"
  "timers_ok c g \<Longrightarrow> timers_ok c (touch_members ids g)"
  by (rule map_members [OF touch_members_def]; simp add: touch_timer split: if_splits)+

lemma touch_members_fields [simp]:
  "gID (touch_members ids g) = gID g" "gState (touch_members ids g) = gState g"
  "LeaderID (touch_members ids g) = LeaderID g" "GenerationID (touch_members ids g) = GenerationID g"
  "JoinOrder (touch_members ids g) = JoinOrder g" "joinTimer (touch_members ids g) = joinTimer g"
  "gProtocol (touch_members ids g) = gProtocol g"
  "mkeys (Members (touch_members ids g)) = mkeys (Members g)"
  by (simp_all add: touch_members_def comp_def split_def)

lemma touch_members_armed:
  "(k, m) \<in> set (Members (touch_members ids g)) \<Longrightarrow> k \<in> set ids \<Longrightarrow> sessionTimer m \<noteq> NoTimer"
  by (auto simp: touch_members_def touch_timer)

lemma assign_members_ok:
  "members_ok g \<Longrightarrow> members_ok (assign_members as g)"
  "state_ok g \<Longrightarrow> state_ok (assign_members as g)"
  "timers_ok c g \<Longrightarrow> timers_ok c (assign_members as g)"
  by (rule map_members [OF assign_members_def]; simp split: option.splits)+

lemma assign_members_fields [simp]:
  "gID (assign_members as g) = gID g" "LeaderID (assign_members as g) = LeaderID g"
  "gState (assign_members as g) = gState g" "GenerationID (assign_members as g) = GenerationID g"
  "mkeys (Members (assign_members as g)) = mkeys (Members g)"
  by (simp_all add: assign_members_def comp_def split_def)

lemma removeMember_ok:
  assumes "members_ok g"
  shows "members_ok (removeMember g mid)"
    and "timers_ok c g \<Longrightarrow> timers_ok c (removeMember g mid)"
    and "Members g \<noteq> [] \<Longrightarrow> LeaderID g = [] \<or> LeaderID g \<in> set (mkeys (Members g)) \<Longrightarrow>
      LeaderID (removeMember g mid) = [] \<or> LeaderID (removeMember g mid) \<in> set (mkeys (Members (removeMember g mid)))"
proof -
  have sub: "set (mdel mid (Members g)) \<subseteq> set (Members g)" by (auto simp: AList.delete_eq)
  show "timers_ok c g \<Longrightarrow> timers_ok c (removeMember g mid)"
    using sub by (auto simp: timers_ok_def removeMember_def)
  show "members_ok (removeMember g mid)"
    using assms sub distinct_delete [of "Members g" mid]
    by (auto simp: members_ok_def removeMember_def delete_keys)
  show "Members g \<noteq> [] \<Longrightarrow> LeaderID g = [] \<or> LeaderID g \<in> set (mkeys (Members g)) \<Longrightarrow>
      LeaderID (removeMember g mid) = [] \<or> LeaderID (removeMember g mid) \<in> set (mkeys (Members (removeMember g mid)))"
    by (auto simp: removeMember_def AList.delete_eq)
qed

lemma frame_trans:
  assumes "frame gid c1 c2" "frame gid c2 c3"
  shows "frame gid c1 c3"
proof -
  have "next_id c1 \<le> next_id c2" "next_id c2 \<le> next_id c3" using assms by (simp_all add: frame_def)
  moreover have "(t, gid') \<in> set (joinArmed c1) \<or> gid' = gid \<and> next_id c1 \<le> t \<and> t < next_id c3"
    if "(t, gid') \<in> set (joinArmed c3)" for t gid'
    using that assms calculation unfolding frame_def by (meson le_trans less_le_trans)
  ultimately show ?thesis using assms unfolding frame_def by (meson le_trans)
qed

lemma frame_armed_bound:
  assumes "coord_inv c" "frame gid c c'" "(t, gid') \<in> set (joinArmed c')"
  shows "t < next_id c'"
proof -
  have "(t, gid') \<in> set (joinArmed c) \<or> t < next_id c'" "next_id c \<le> next_id c'"
    using assms(2,3) unfolding frame_def by blast+
  moreover have "(t, gid') \<in> set (joinArmed c) \<Longrightarrow> t < next_id c"
    using assms(1) by (auto simp: coord_inv_def)
  ultimately show ?thesis by (meson less_le_trans)
qed

lemma arm_join_inv:
  assumes "coord_inv c" "frame (gID g) c c1" "groups c1 = groups c"
    and "members_ok g" "state_ok g"
    and "\<forall>(k, m) \<in> set (Members g). sessionTimer m = Fired \<longrightarrow> expiring c1 (gID g) k"
  shows "coord_inv (arm_join g c1)"
proof -
  let ?c2 = "c1\<lparr>next_id := Suc (next_id c1), joinArmed := (next_id c1, gID g) # joinArmed c1\<rparr>"
  let ?g = "g\<lparr>joinTimer := Some (next_id c1)\<rparr>"
  have "frame (gID g) c1 ?c2" by (auto simp: frame_def join_pending_def expiring_def)
  then have fr: "frame (gID ?g) c ?c2" using frame_trans [OF assms(2)] by simp
  have fresh: "(next_id c1, gid) \<notin> set (joinArmed c1)" for gid
    using frame_armed_bound [OF assms(1,2)] by blast
  then have "timers_ok ?c2 ?g"
    using assms(6) by (auto simp: timers_ok_def join_pending_def expiring_def)
  moreover have "members_ok ?g" "state_ok ?g" using assms(4,5) by (simp_all add: members_ok_def state_ok_def)
  ultimately have "group_ok ?c2 ?g" by (simp add: group_ok_def)
  from put_group_inv [OF assms(1) fr _ this] show ?thesis by (simp add: arm_join_def assms(3))
qed

lemma maybeRebalance_inv:
  assumes "coord_inv c0" "frame (gID g) c0 c" "groups c = groups c0" "members_ok g" "timers_ok c g"
    and "LeaderID g = [] \<or> LeaderID g \<in> set (mkeys (Members g))" "Members g \<noteq> [] \<Longrightarrow> gState g \<noteq> Empty"
  shows "coord_inv (maybeRebalance g c)"
proof -
  consider (none) "Members g = []"
    | (wait) "Members g \<noteq> []" "gState g = PreparingRebalance"
    | (again) "Members g \<noteq> []" "gState g = Stable \<or> gState g = CompletingRebalance"
    using assms(7) by (cases "gState g") auto
  then show ?thesis
  proof cases
    case none
    let ?g = "g\<lparr>gState := Empty, LeaderID := [], gProtocol := []\<rparr>"
    have "group_ok c ?g"
      using none assms(4,5) by (simp add: group_ok_def members_ok_def state_ok_def timers_ok_def)
    then show ?thesis using put_group_inv [OF assms(1), of ?g c] none assms(2,3)
      by (simp add: maybeRebalance_def)
  next
    case wait
    then have "group_ok c g" using assms(4-6) by (simp add: group_ok_def state_ok_def)
    then show ?thesis using put_group_inv [OF assms(1-3), of] wait by (simp add: maybeRebalance_def)
  next
    case again
    let ?c1 = "case joinTimer g of None \<Rightarrow> c
      | Some t \<Rightarrow> c\<lparr>joinArmed := filter (\<lambda>x. fst x \<noteq> t) (joinArmed c)\<rparr>"
    let ?g = "g\<lparr>gState := PreparingRebalance\<rparr>"
    have "frame (gID ?g) c ?c1"
      using assms(5)
      by (cases "joinTimer g") (force simp: frame_def timers_ok_def join_pending_def expiring_def)+
    then have "frame (gID ?g) c0 ?c1" using frame_trans assms(2) by simp
    moreover have "state_ok ?g" using again assms(6) by (simp add: state_ok_def)
    moreover have "members_ok ?g" using assms(4) by (simp add: members_ok_def)
    moreover have "groups ?c1 = groups c0" using assms(3) by (simp split: option.split)
    moreover have "\<forall>(k, m) \<in> set (Members ?g). sessionTimer m = Fired \<longrightarrow> expiring ?c1 (gID ?g) k"
      using assms(5) by (auto simp: timers_ok_def expiring_def split: option.split)
    ultimately have "coord_inv (arm_join ?g ?c1)" by (intro arm_join_inv [OF assms(1)])
    then show ?thesis using again by (auto simp: maybeRebalance_def Let_def)
  qed
qed

section \<open>The operations keep the invariant\<close>

lemma group_okD:
  assumes "coord_inv c" "map_of (groups c) gid = Some g"
  shows "gID g = gid" "members_ok g" "state_ok g" "timers_ok c g"
  using coord_inv_group [OF assms] by (simp_all add: group_ok_def)

lemma inv_frame:
  assumes "coord_inv c" "frame gid c c'" "groups c' = groups c"
    and "\<And>g. map_of (groups c) gid = Some g \<Longrightarrow> group_ok c' g"
  shows "coord_inv c'"
proof -
  have "gID g = i \<and> group_ok c' g" if "map_of (groups c) i = Some g" for i g
    using frame_other [OF assms(2), of g] coord_inv_group [OF assms(1) that] assms(4) that
    by (cases "i = gid") auto
  moreover have "t < next_id c'" if "(t, i) \<in> set (joinArmed c')" for t i
    using frame_armed_bound [OF assms(1,2) that] .
  ultimately show ?thesis using assms(1,3) unfolding coord_inv_def by auto
qed

text \<open>
  The removal of a member, by request or in a callback: \<open>c\<close> may lack the started expiry of
  that member.
\<close>

lemma remove_inv:
  assumes "coord_inv c0" "map_of (groups c0) gid = Some g" "map_of (Members g) mid = Some m"
    and "frame gid c0 c" "groups c = groups c0"
    and "\<And>k. k \<noteq> mid \<Longrightarrow> expiring c0 gid k \<Longrightarrow> expiring c gid k" "join_pending c0 gid \<Longrightarrow> join_pending c gid"
    and "joinArmed c = joinArmed c0"
  shows "coord_inv (maybeRebalance (removeMember g mid) c)"
proof (rule maybeRebalance_inv [OF assms(1)])
  note g = group_okD [OF assms(1,2)]
  have ne: "Members g \<noteq> []" using assms(3) by auto
  have id: "gID (removeMember g mid) = gid" "gState (removeMember g mid) = gState g"
    "joinTimer (removeMember g mid) = joinTimer g"
    using g(1) by (simp_all add: removeMember_def)
  show "frame (gID (removeMember g mid)) c0 c" "groups c = groups c0" using assms(4,5) id by simp_all
  show "members_ok (removeMember g mid)" using removeMember_ok(1) g(2) .
  have sub: "(k, x) \<in> set (Members g) \<and> k \<noteq> mid" if "(k, x) \<in> set (Members (removeMember g mid))" for k x
    using that by (auto simp: removeMember_def AList.delete_eq)
  have ex: "expiring c gid a" if "(a, b) \<in> set (Members (removeMember g mid))" "sessionTimer b = Fired" for a b
    using sub [OF that(1)] that(2) g(1,4) assms(6) unfolding timers_ok_def by blast
  have "next_id c0 \<le> next_id c" using assms(4) by (simp add: frame_def)
  then show "timers_ok c (removeMember g mid)"
    using g(1,4) ex assms(7,8) unfolding timers_ok_def id by (auto dest: less_le_trans)
  show "LeaderID (removeMember g mid) = []
      \<or> LeaderID (removeMember g mid) \<in> set (mkeys (Members (removeMember g mid)))"
    using removeMember_ok(3) [OF g(2) ne] g(3) by (simp add: state_ok_def)
  show "gState (removeMember g mid) \<noteq> Empty"
    using g(3) ne by (simp add: removeMember_def state_ok_def)
qed

lemma Leave_inv [inv_rules]: "coord_inv c \<Longrightarrow> coord_inv (fst (Leave c req))"
  using remove_inv [of c _ _ _ _ c] by (auto simp: Leave_def split: option.splits)

lemma put_touched:
  assumes "coord_inv c" "map_of (groups c) gid = Some g" "groups c' = groups c" "joinArmed c' = joinArmed c"
    "running c' = running c" "next_id c \<le> next_id c'"
  shows "coord_inv (put_group (touch_members ids g) c')"
proof -
  note g = group_okD [OF assms(1,2)]
  have fr: "frame (gID (touch_members ids g)) c c'"
    using assms(4-6) by (simp add: frame_def join_pending_def expiring_def)
  have "timers_ok c' (touch_members ids g)"
    using touch_members_ok(3) [OF g(4), of ids] assms(4-6)
    by (auto simp: timers_ok_def join_pending_def expiring_def)
  then have "group_ok c' (touch_members ids g)"
    using touch_members_ok(1) [OF g(2)] touch_members_ok(2) [OF g(3)] by (simp add: group_ok_def)
  from put_group_inv [OF assms(1) fr assms(3) this] show ?thesis .
qed

lemma Heartbeat_inv [inv_rules]: "coord_inv c \<Longrightarrow> coord_inv (fst (Heartbeat c req))"
  using put_touched [of c _ _ c] by (auto simp: Heartbeat_def split: option.splits)

lemma send_sync_fields [simp]:
  "groups (send_sync ch r c) = groups c" "next_id (send_sync ch r c) = next_id c"
  "joinArmed (send_sync ch r c) = joinArmed c" "running (send_sync ch r c) = running c"
  by (simp_all add: send_sync_def split: option.splits prod.splits)

lemma recv_sync_fields [simp]:
  "groups (recv_sync w ch c) = groups c" "next_id (recv_sync w ch c) = next_id c"
  "joinArmed (recv_sync w ch c) = joinArmed c" "running (recv_sync w ch c) = running c"
  by (simp_all add: recv_sync_def split: option.splits)

lemma send_join_fields [simp]:
  "groups (send_join ch r c) = groups c" "next_id (send_join ch r c) = next_id c"
  "joinArmed (send_join ch r c) = joinArmed c" "running (send_join ch r c) = running c"
  by (simp_all add: send_join_def)

lemma fold_send_join_inv: "coord_inv (fold (\<lambda>m. send_join (ch m) (r m)) ms c) = coord_inv c"
proof (induction ms arbitrary: c)
  case (Cons m ms)
  have "coord_inv (send_join (ch m) (r m) c) = coord_inv c" by (rule inv_cong) simp_all
  then show ?case using Cons by simp
qed simp

lemma fold_send_sync_inv:
  "coord_inv (fold (\<lambda>w. if P w then id else send_sync (ch w) (r w)) ms c) = coord_inv c"
proof (induction ms arbitrary: c)
  case (Cons m ms)
  have "coord_inv (send_sync (ch m) (r m) c) = coord_inv c" by (rule inv_cong) simp_all
  then show ?case using Cons by simp
qed simp

text \<open>After a sync of the leader, every member has a running session timer.\<close>

lemma stable_ok:
  assumes "coord_inv c" "map_of (groups c) gid = Some g" "LeaderID g \<noteq> []"
  shows "group_ok c (touch_members (mkeys (Members g)) ((assign_members as g)\<lparr>gState := Stable\<rparr>))"
proof -
  note g = group_okD [OF assms(1,2)]
  let ?a = "(assign_members as g)\<lparr>gState := Stable\<rparr>"
  let ?t = "touch_members (mkeys (Members g)) ?a"
  have ne: "Members g \<noteq> []" using g(3) assms(3) by (auto simp: state_ok_def)
  have keys: "mkeys (Members ?t) = mkeys (Members g)" by simp
  then have ne': "Members ?t \<noteq> []" using ne by (metis list.map_disc_iff)
  have "members_ok ?a" "timers_ok c ?a"
    using assign_members_ok(1) [OF g(2), of as] assign_members_ok(3) [OF g(4), of as]
    by (simp_all add: members_ok_def timers_ok_def)
  then have "members_ok ?t" "timers_ok c ?t" using touch_members_ok(1,3) by blast+
  moreover have "sessionTimer m \<noteq> NoTimer" if "(k, m) \<in> set (Members ?t)" for k m
  proof -
    from imageI [OF that, of fst] have "k \<in> set (mkeys (Members ?t))" by (simp only: fst_conv set_map)
    then have "k \<in> set (mkeys (Members g))" by (simp only: keys)
    then show ?thesis using touch_members_armed [OF that] by simp
  qed
  moreover have "LeaderID ?t = LeaderID g" "LeaderID g \<in> set (mkeys (Members g))"
    using g(3) assms(3) by (simp_all add: state_ok_def)
  ultimately have "members_ok ?t" "timers_ok c ?t" "state_ok ?t"
    using ne' assms(3) unfolding state_ok_def keys by auto
  then show ?thesis by (simp add: group_ok_def)
qed

lemma Sync_inv [inv_rules]:
  assumes "coord_inv c"
  shows "coord_inv (fst (Sync c req))"
proof (cases "\<exists>g m. map_of (groups c) (srGroupID req) = Some g \<and> map_of (Members g) (srMemberID req) = Some m
    \<and> srGenerationID req = GenerationID g")
  case False
  then have "fst (Sync c req) = c" by (auto simp: Sync_def split: option.splits)
  then show ?thesis using assms by simp
next
  case True
  then obtain g m where gm: "map_of (groups c) (srGroupID req) = Some g"
    "map_of (Members g) (srMemberID req) = Some m" "srGenerationID req = GenerationID g" by blast
  note g = group_okD [OF assms gm(1)]
  consider (lead) "srMemberID req = LeaderID g" | (stable) "srMemberID req \<noteq> LeaderID g" "gState g = Stable"
    | (wait) "srMemberID req \<noteq> LeaderID g" "gState g \<noteq> Stable" by blast
  then show ?thesis
  proof cases
    case lead
    have "LeaderID g \<noteq> []"
      using gm(2) g(2) lead by (auto simp: members_ok_def dest: map_of_SomeD)
    then have ok: "group_ok c (touch_members (mkeys (Members g)) ((assign_members (srAssignments req) g)\<lparr>gState := Stable\<rparr>))"
      by (rule stable_ok [OF assms gm(1)])
    show ?thesis
      using put_group_inv [OF assms _ refl ok] gm lead
      by (simp add: Sync_def Let_def fold_send_sync_inv)
  next
    case stable
    then show ?thesis using put_touched [OF assms gm(1), of c] gm by (simp add: Sync_def)
  next
    case wait
    let ?c = "put_group (touch_members [srMemberID req] g) (c\<lparr>next_id := Suc (next_id c)\<rparr>)"
    have "coord_inv ?c" using put_touched [OF assms gm(1), of "c\<lparr>next_id := Suc (next_id c)\<rparr>"] by simp
    moreover have "coord_inv (recv_sync (next_id c) (awaitSync m) ?c) = coord_inv ?c"
      by (rule inv_cong) simp_all
    ultimately show ?thesis using wait gm by (simp add: Sync_def Let_def)
  qed
qed

lemma getOrCreateGroup_ok:
  assumes "coord_inv c"
  shows "gID (getOrCreateGroup c gid) = gid" "members_ok (getOrCreateGroup c gid)"
    "state_ok (getOrCreateGroup c gid)" "timers_ok c (getOrCreateGroup c gid)"
  using group_okD [OF assms, of gid]
  by (auto simp: getOrCreateGroup_def members_ok_def state_ok_def timers_ok_def split: option.splits)

lemma mput_member_ok:
  assumes "members_ok g" "mid \<noteq> []" "mID m = mid"
    and "g' = g\<lparr>JoinOrder := (if mid \<in> set (mkeys (Members g)) then JoinOrder g else JoinOrder g @ [mid]),
      Members := mput mid m (Members g)\<rparr>"
  shows "members_ok g'" "set (mkeys (Members g')) = insert mid (set (mkeys (Members g)))"
    "set (Members g') \<subseteq> insert (mid, m) (set (Members g))" "Members g' \<noteq> []"
proof -
  show keys: "set (mkeys (Members g')) = insert mid (set (mkeys (Members g)))"
    unfolding assms(4) using set_mkeys_mput [of mid m "Members g"] by simp
  show sub: "set (Members g') \<subseteq> insert (mid, m) (set (Members g))"
    unfolding assms(4) using set_mput [of mid m "Members g"] by simp
  show "Members g' \<noteq> []" using keys by auto
  have "mID x = k \<and> k \<noteq> []" if "(k, x) \<in> set (Members g')" for k x
    using subsetD [OF sub that] assms(1-3) by (auto simp: members_ok_def)
  moreover have "distinct (JoinOrder g')" "set (JoinOrder g') = insert mid (set (mkeys (Members g)))"
    "distinct (mkeys (Members g'))"
    using assms(1) unfolding assms(4) members_ok_def by auto
  ultimately show "members_ok g'" unfolding members_ok_def keys by blast
qed

lemma nextMemberID_neq_Nil: "snd (nextMemberID c cl) \<noteq> []"
  by (simp add: nextMemberID_def Let_def)

lemma Join_shape:
  assumes "members_ok (getOrCreateGroup c (jrGroupID req))" "g = getOrCreateGroup c (jrGroupID req)"
  obtains c1 mid m g' where "mid \<noteq> []" "mID m = mid" "sessionTimer m = NoTimer"
    "g' = g\<lparr>JoinOrder := (if mid \<in> set (mkeys (Members g)) then JoinOrder g else JoinOrder g @ [mid]),
      Members := mput mid m (Members g)\<rparr>"
    "fst (Join c req) = (if gState g \<noteq> PreparingRebalance
      then arm_join (g'\<lparr>gState := PreparingRebalance\<rparr>) c1 else put_group g' c1)"
    "groups c1 = groups c" "joinArmed c1 = joinArmed c" "running c1 = running c" "next_id c \<le> next_id c1"
    "awaitJoin m = next_id c" "awaitSync m = Suc (next_id c)" "next_id c1 = Suc (Suc (next_id c))"
proof -
  define c0 where "c0 = (if jrMemberID req = [] then fst (nextMemberID c (jrClientID req)) else c)"
  define mid where "mid = (if jrMemberID req = [] then snd (nextMemberID c (jrClientID req)) else jrMemberID req)"
  have cm: "(if jrMemberID req = [] then nextMemberID c (jrClientID req) else (c, jrMemberID req)) = (c0, mid)"
    by (simp add: c0_def mid_def)
  have mid: "mid \<noteq> []" by (simp add: mid_def nextMemberID_neq_Nil)
  have c0: "groups c0 = groups c" "joinArmed c0 = joinArmed c" "running c0 = running c" "next_id c0 = next_id c"
    by (simp_all add: c0_def nextMemberID_def Let_def)
  have keys: "mid \<in> set (mkeys (Members g)) \<longleftrightarrow> map_of (Members g) mid \<noteq> None"
    by (simp add: map_of_eq_None_iff)
  define m0 where "m0 = (case map_of (Members g) mid of Some m \<Rightarrow> m | None \<Rightarrow> new_member mid)"
  define m where "m = stopSessionTimer (m0\<lparr>SessionTimeoutMS := jrSessionTimeoutMS req,
    mProtocol := firstProtocolName (jrProtocols req), mMetadata := firstProtocolMetadata (jrProtocols req),
    awaitJoin := next_id c0, awaitSync := Suc (next_id c0)\<rparr>)"
  have "mID x = mid" if "map_of (Members g) mid = Some x" for x
    using assms map_of_SomeD [OF that] unfolding members_ok_def by blast
  then have m: "mID m = mid" "sessionTimer m = NoTimer"
    by (auto simp: m_def m0_def new_member_def stopSessionTimer_def split: option.splits)
  have ch: "awaitJoin m = next_id c" "awaitSync m = Suc (next_id c)"
    by (simp_all add: m_def stopSessionTimer_def c0)
  let ?c1 = "c0\<lparr>next_id := Suc (Suc (next_id c0))\<rparr>"
  let ?g' = "g\<lparr>JoinOrder := (if mid \<in> set (mkeys (Members g)) then JoinOrder g else JoinOrder g @ [mid]),
      Members := mput mid m (Members g)\<rparr>"
  have J: "Join c req = (if gState g \<noteq> PreparingRebalance
      then arm_join (?g'\<lparr>gState := PreparingRebalance\<rparr>) ?c1 else put_group ?g' ?c1, awaitJoin m)"
    unfolding Join_def Let_def assms(2) [symmetric] cm keys prod.case m0_def [symmetric] m_def [symmetric]
    by simp
  show ?thesis by (rule that [OF mid m refl, of ?c1]) (simp_all only: J fst_conv snd_conv, simp_all add: c0 ch)
qed

lemma Join_inv [inv_rules]:
  assumes "coord_inv c"
  shows "coord_inv (fst (Join c req))"
proof -
  define g where "g = getOrCreateGroup c (jrGroupID req)"
  note ok = getOrCreateGroup_ok [OF assms, of "jrGroupID req", folded g_def]
  obtain c1 mid m g' where J: "mid \<noteq> []" "mID m = mid" "sessionTimer m = NoTimer"
    "g' = g\<lparr>JoinOrder := (if mid \<in> set (mkeys (Members g)) then JoinOrder g else JoinOrder g @ [mid]),
      Members := mput mid m (Members g)\<rparr>"
    "fst (Join c req) = (if gState g \<noteq> PreparingRebalance
      then arm_join (g'\<lparr>gState := PreparingRebalance\<rparr>) c1 else put_group g' c1)"
    "groups c1 = groups c" "joinArmed c1 = joinArmed c" "running c1 = running c" "next_id c \<le> next_id c1"
    using Join_shape [OF ok(2) [unfolded g_def] g_def] by metis
  note g' = mput_member_ok [OF ok(2) J(1,2,4)]
  have f: "gID g' = jrGroupID req" "LeaderID g' = LeaderID g" "gState g' = gState g" "joinTimer g' = joinTimer g"
    using ok(1) by (simp_all add: J(4))
  have fr: "frame (jrGroupID req) c c1"
    using J(7-9) by (simp add: frame_def join_pending_def expiring_def)
  have ex: "\<forall>(k, x) \<in> set (Members g'). sessionTimer x = Fired \<longrightarrow> expiring c1 (jrGroupID req) k"
    using g'(3) ok(1,4) J(3,8) unfolding timers_ok_def expiring_def by fastforce
  have lead: "LeaderID g' = [] \<or> LeaderID g' \<in> set (mkeys (Members g'))"
    unfolding f g'(2) using ok(3) by (auto simp: state_ok_def)
  let ?p = "g'\<lparr>gState := PreparingRebalance\<rparr>"
  have p: "members_ok ?p" "state_ok ?p"
    using g'(1,4) lead by (simp_all add: members_ok_def state_ok_def)
  show ?thesis
  proof (cases "gState g = PreparingRebalance")
    case True
    have "timers_ok c1 g'"
      unfolding timers_ok_def f using ex ok(1,4) True J(7-9)
      by (auto simp: timers_ok_def join_pending_def f)
    moreover have "state_ok g'" using p(2) True f by (simp add: state_ok_def)
    ultimately show ?thesis
      using put_group_inv [OF assms, of g' c1] fr f J(5,6) g'(1) True by (simp add: group_ok_def)
  next
    case False
    then show ?thesis
      using arm_join_inv [OF assms, of ?p c1] fr f J(5,6) p ex by simp
  qed
qed

text \<open>The group after \<open>completeJoin\<close>.\<close>

definition completed :: "Group \<Rightarrow> Group" where
  "completed g = touch_members (JoinOrder g) (g\<lparr>LeaderID := hd (JoinOrder g),
     gProtocol := groupProtocol (g\<lparr>LeaderID := hd (JoinOrder g)\<rparr>), GenerationID := GenerationID g + 1,
     gState := CompletingRebalance\<rparr>)"

definition join_members :: "Group \<Rightarrow> JoinMember list" where
  "join_members g = map (\<lambda>m. \<lparr>jmID = mID m, jmMetadata = mMetadata m\<rparr>) (joined g)"

lemma completeJoin_completed:
  "map_of (groups c) gid = Some g \<Longrightarrow> JoinOrder g \<noteq> [] \<Longrightarrow> completeJoin c gid
    = fold (\<lambda>m. send_join (awaitJoin m) (join_result (completed g) (join_members (completed g)) m))
        (joined (completed g)) (put_group (completed g) c)"
  by (simp add: completeJoin_def completed_def join_members_def Let_def)

lemma completed_ok:
  assumes "members_ok g" "timers_ok c g" "JoinOrder g \<noteq> []"
  shows "members_ok (completed g)" "state_ok (completed g)"
    and "\<forall>(k, m) \<in> set (Members (completed g)). \<exists>d. sessionTimer m = Armed d"
proof -
  let ?g = "g\<lparr>LeaderID := hd (JoinOrder g), gProtocol := groupProtocol (g\<lparr>LeaderID := hd (JoinOrder g)\<rparr>),
    GenerationID := GenerationID g + 1, gState := CompletingRebalance\<rparr>"
  have "members_ok ?g" using assms(1) by (simp add: members_ok_def)
  then show "members_ok (completed g)" unfolding completed_def by (rule touch_members_ok)
  have order: "set (JoinOrder g) = set (mkeys (Members g))" using assms(1) by (simp add: members_ok_def)
  show armed: "\<forall>(k, m) \<in> set (Members (completed g)). \<exists>d. sessionTimer m = Armed d"
    using order by (force simp: completed_def touch_members_def)
  have keys: "mkeys (Members (completed g)) = mkeys (Members g)" by (simp add: completed_def)
  have "hd (JoinOrder g) \<in> set (mkeys (Members g))" using assms(3) order hd_in_set by blast
  moreover have "hd (JoinOrder g) \<noteq> []"
    using calculation assms(1) by (auto simp: members_ok_def)
  moreover have "Members (completed g) \<noteq> []" using keys order assms(3) by (metis list.map_disc_iff set_empty)
  ultimately show "state_ok (completed g)"
    using armed unfolding state_ok_def keys by (auto simp: completed_def)
qed

lemma completeJoin_inv:
  assumes "coord_inv c0" "frame gid c0 c" "groups c = groups c0" "joinArmed c = joinArmed c0"
    and "\<And>k. expiring c0 gid k \<Longrightarrow> expiring c gid k"
  shows "coord_inv (completeJoin c gid)"
proof (cases "\<exists>g. map_of (groups c0) gid = Some g \<and> JoinOrder g \<noteq> []")
  case True
  then obtain g where g: "map_of (groups c0) gid = Some g" "JoinOrder g \<noteq> []" by blast
  note ok = group_okD [OF assms(1) g(1)]
  note cp = completed_ok [OF ok(2,4) g(2)]
  have "next_id c0 \<le> next_id c" using assms(2) by (simp add: frame_def)
  then have "timers_ok c (completed g)"
    using cp(3) ok(4) assms(4) by (auto simp: timers_ok_def completed_def)
  then have "group_ok c (completed g)" using cp by (simp add: group_ok_def)
  moreover have "gID (completed g) = gid" using ok(1) by (simp add: completed_def)
  ultimately have "coord_inv (put_group (completed g) c)"
    using put_group_inv [OF assms(1), of "completed g" c] assms(2,3) by simp
  then show ?thesis
    using completeJoin_completed [of c gid g] g assms(3) by (simp add: fold_send_join_inv)
next
  case False
  have "group_ok c g" if "map_of (groups c0) gid = Some g" for g
  proof -
    note ok = group_okD [OF assms(1) that]
    have "JoinOrder g = []" using False that by blast
    then have "Members g = []" using ok(2) by (auto simp: members_ok_def)
    then show ?thesis
      using ok assms(2,4) by (auto simp: group_ok_def timers_ok_def state_ok_def frame_def dest: less_le_trans)
  qed
  then have "coord_inv c" using inv_frame [OF assms(1-3)] by blast
  then show ?thesis using False assms(3) by (auto simp: completeJoin_def split: option.splits)
qed

lemma run_callback_inv [inv_rules]:
  assumes "coord_inv c"
  shows "coord_inv (run_callback c cb)"
proof (cases cb)
  case (CompleteJoin gid)
  let ?c = "c\<lparr>running := remove1 cb (running c)\<rparr>"
  have "coord_inv (completeJoin ?c gid)"
    using CompleteJoin by (intro completeJoin_inv [OF assms])
      (auto simp: frame_def join_pending_def expiring_def)
  then show ?thesis by (simp add: run_callback_def CompleteJoin)
next
  case (ExpireMember gid mid)
  let ?c = "c\<lparr>running := remove1 cb (running c)\<rparr>"
  have fr: "frame gid c ?c" "\<And>k. k \<noteq> mid \<Longrightarrow> expiring c gid k \<Longrightarrow> expiring ?c gid k"
    "join_pending c gid \<Longrightarrow> join_pending ?c gid"
    using ExpireMember by (auto simp: frame_def join_pending_def expiring_def)
  show ?thesis
  proof (cases "\<exists>g m. map_of (groups c) gid = Some g \<and> map_of (Members g) mid = Some m")
    case True
    then obtain g m where gm: "map_of (groups c) gid = Some g" "map_of (Members g) mid = Some m" by blast
    have "coord_inv (maybeRebalance (removeMember g mid) ?c)"
      by (rule remove_inv [OF assms gm fr(1) _ fr(2,3)]) simp_all
    then show ?thesis using gm by (simp add: run_callback_def ExpireMember expireMember_def)
  next
    case False
    have "group_ok ?c g" if g: "map_of (groups c) gid = Some g" for g
    proof -
      note ok = group_okD [OF assms g]
      have "k \<noteq> mid" if "(k, m) \<in> set (Members g)" for k m
        using that False g ok(2) by (auto simp: members_ok_def)
      then show ?thesis
        using ok fr by (auto simp: group_ok_def timers_ok_def)
    qed
    then have "coord_inv ?c" by (intro inv_frame [OF assms fr(1)]) auto
    then show ?thesis
      using False by (auto simp: run_callback_def ExpireMember expireMember_def Let_def split: option.splits)
  qed
qed

lemma fire_join_inv [inv_rules]:
  assumes "coord_inv c"
  shows "coord_inv (fire_join c t)"
proof (cases "map_of (joinArmed c) t")
  case (Some gid)
  let ?c = "c\<lparr>joinArmed := filter (\<lambda>x. x \<noteq> (t, gid)) (joinArmed c), running := CompleteJoin gid # running c\<rparr>"
  have fr: "frame gid c ?c" "join_pending ?c gid" "\<And>k. expiring c gid k \<Longrightarrow> expiring ?c gid k"
    by (auto simp: frame_def join_pending_def expiring_def)
  have "group_ok ?c g" if g: "map_of (groups c) gid = Some g" for g
    using group_okD [OF assms g] fr(2,3) by (auto simp: group_ok_def timers_ok_def)
  then have "coord_inv ?c" by (intro inv_frame [OF assms fr(1)]) auto
  then show ?thesis by (simp add: fire_join_def Some)
qed (use assms in \<open>simp add: fire_join_def\<close>)

lemma fire_session_inv [inv_rules]:
  assumes "coord_inv c"
  shows "coord_inv (fire_session c gid mid)"
proof (cases "\<exists>g m d. map_of (groups c) gid = Some g \<and> map_of (Members g) mid = Some m \<and> sessionTimer m = Armed d")
  case True
  then obtain g m d where gm: "map_of (groups c) gid = Some g" "map_of (Members g) mid = Some m"
    "sessionTimer m = Armed d" by blast
  note ok = group_okD [OF assms gm(1)]
  let ?m = "m\<lparr>sessionTimer := Fired\<rparr>" and ?c = "c\<lparr>running := ExpireMember gid mid # running c\<rparr>"
  let ?g = "g\<lparr>Members := mput mid ?m (Members g)\<rparr>"
  have mem: "(mid, m) \<in> set (Members g)" using gm(2) by (rule map_of_SomeD)
  then have "mID m = mid \<and> mid \<noteq> []" using ok(2) unfolding members_ok_def by blast
  then have id: "mID ?m = mid" "mid \<noteq> []" by simp_all
  from imageI [OF mem, of fst] have id3: "mid \<in> set (mkeys (Members g))" by (simp only: fst_conv set_map)
  have g': "?g = g\<lparr>JoinOrder := (if mid \<in> set (mkeys (Members g)) then JoinOrder g else JoinOrder g @ [mid]),
      Members := mput mid ?m (Members g)\<rparr>" using id3 by simp
  note mo = mput_member_ok [OF ok(2) id(2,1) g']
  have keys: "set (mkeys (Members ?g)) = set (mkeys (Members g))" using mo(2) id3 by auto
  have fr: "frame gid c ?c" by (auto simp: frame_def join_pending_def expiring_def)
  have "Members g \<noteq> []" using mem by auto
  then have "state_ok ?g"
    using ok(3) mo(3,4) unfolding state_ok_def keys by auto
  moreover have "timers_ok ?c ?g"
    using ok(1,4) mo(3) by (auto simp: timers_ok_def join_pending_def expiring_def)
  ultimately have "group_ok ?c ?g" using mo(1) by (simp add: group_ok_def)
  then have "coord_inv (put_group ?g ?c)" using put_group_inv [OF assms, of ?g ?c] fr ok(1) by simp
  then show ?thesis using gm by (simp add: fire_session_def)
qed (use assms in \<open>auto simp: fire_session_def split: option.splits session_timer.splits\<close>)

section \<open>Reachable states\<close>

lemma coord_step_inv: "coord_step c ev c' \<Longrightarrow> coord_inv c \<Longrightarrow> coord_inv c'"
  by (induction rule: coord_step.induct) (auto intro: inv_rules)

lemma coord_reach_inv: "coord_reach delay c \<Longrightarrow> coord_inv c"
proof (induction rule: coord_reach.induct)
  case init
  show ?case by (simp add: NewCoordinator_def coord_inv_def)
qed (rule coord_step_inv)

section \<open>Channels\<close>

text \<open>Every member waits on channels of its own.\<close>

definition chans_ok :: "Coordinator \<Rightarrow> Group \<Rightarrow> bool" where
  "chans_ok c g \<longleftrightarrow>
     (\<forall>k m. map_of (Members g) k = Some m \<longrightarrow> awaitSync m = Suc (awaitJoin m) \<and> Suc (awaitJoin m) < next_id c)
     \<and> (\<forall>k m k' m'. map_of (Members g) k = Some m \<longrightarrow> map_of (Members g) k' = Some m' \<longrightarrow>
          awaitJoin m = awaitJoin m' \<longrightarrow> k = k')"

definition chan_inv :: "Coordinator \<Rightarrow> bool" where
  "chan_inv c \<longleftrightarrow> (\<forall>gid g. map_of (groups c) gid = Some g \<longrightarrow> chans_ok c g)"

lemma map_of_map_members:
  "map_of (map (\<lambda>(k, m). (k, f k m)) ms) k = map_option (f k) (map_of ms k)"
  by (induction ms) auto

lemma chans_ok_map:
  assumes "\<And>k m. awaitJoin (f k m) = awaitJoin m" "\<And>k m. awaitSync (f k m) = awaitSync m"
    and "Members g' = map (\<lambda>(k, m). (k, f k m)) (Members g)" "next_id c \<le> next_id c'" "chans_ok c g"
  shows "chans_ok c' g'"
proof -
  have "Suc (awaitJoin m) < next_id c'" if "map_of (Members g) k = Some m" for k m
    using assms(4,5) that unfolding chans_ok_def by (meson less_le_trans)
  then show ?thesis
    using assms(5) unfolding chans_ok_def assms(3) map_of_map_members by (auto simp: assms(1,2))
qed

lemma chans_ok_same:
  "Members g' = Members g \<Longrightarrow> next_id c \<le> next_id c' \<Longrightarrow> chans_ok c g \<Longrightarrow> chans_ok c' g'"
  using chans_ok_map [of "\<lambda>_ m. m" g' g c c'] by simp

lemma chan_inv_put:
  assumes "chan_inv c" "groups c' = groups c" "next_id c \<le> next_id c'" "chans_ok c' g"
  shows "chan_inv (put_group g c')"
proof -
  have "chans_ok (put_group g c') x = chans_ok c' x" for x by (simp add: chans_ok_def put_group_def)
  moreover have "chans_ok c' x" if "map_of (groups c) gid = Some x" for gid x
    using chans_ok_same [OF refl assms(3)] assms(1) that by (auto simp: chan_inv_def)
  ultimately show ?thesis
    using assms(2,4) by (auto simp: chan_inv_def put_group_def split: if_splits)
qed

lemma chan_inv_cong: "groups c' = groups c \<Longrightarrow> next_id c' = next_id c \<Longrightarrow> chan_inv c' = chan_inv c"
  by (simp add: chan_inv_def chans_ok_def)

lemma chan_inv_arm:
  assumes "chan_inv c" "groups c1 = groups c" "next_id c \<le> next_id c1" "chans_ok c1 g"
  shows "chan_inv (arm_join g c1)"
  unfolding arm_join_def
  by (rule chan_inv_put [OF assms(1)]) (use assms chans_ok_same in \<open>auto intro: chans_ok_same [of _ g c1]\<close>)

lemma chan_inv_maybeRebalance:
  assumes "chan_inv c0" "groups c = groups c0" "next_id c = next_id c0" "chans_ok c g"
  shows "chan_inv (maybeRebalance g c)"
proof -
  have "chans_ok c g'" if "Members g' = Members g" for g' using chans_ok_same [OF that _ assms(4)] by simp
  moreover have "chans_ok (c\<lparr>joinArmed := ja\<rparr>) x = chans_ok c x" for ja x by (simp add: chans_ok_def)
  ultimately show ?thesis
    using assms by (auto simp: maybeRebalance_def Let_def split: option.splits
        intro!: chan_inv_put [OF assms(1)] chan_inv_arm [OF assms(1)])
qed

lemma removeMember_chans: "chans_ok c g \<Longrightarrow> chans_ok c (removeMember g mid)"
  by (auto simp: chans_ok_def removeMember_def split: if_splits)

lemma touch_chans: "chans_ok c g \<Longrightarrow> next_id c \<le> next_id c' \<Longrightarrow> chans_ok c' (touch_members ids g)"
  by (rule chans_ok_map [of "\<lambda>k m. if k \<in> set ids then touch m else m"]) (simp_all add: touch_members_def)

lemma assign_chans: "chans_ok c g \<Longrightarrow> chans_ok c (assign_members as g)"
  by (rule chans_ok_map [of "\<lambda>k m. case map_of as k of None \<Rightarrow> m | Some a \<Rightarrow> m\<lparr>mAssignment := a\<rparr>"])
    (simp_all add: assign_members_def split: option.splits)

lemma chan_invD: "chan_inv c \<Longrightarrow> map_of (groups c) gid = Some g \<Longrightarrow> chans_ok c g"
  by (simp add: chan_inv_def)

lemma fold_send_join_fields:
  "groups (fold (\<lambda>m. send_join (ch m) (r m)) ms c) = groups c
    \<and> next_id (fold (\<lambda>m. send_join (ch m) (r m)) ms c) = next_id c"
  by (induction ms arbitrary: c) simp_all

lemma fold_send_sync_fields:
  "groups (fold (\<lambda>w. if P w then id else send_sync (ch w) (r w)) ms c) = groups c
    \<and> next_id (fold (\<lambda>w. if P w then id else send_sync (ch w) (r w)) ms c) = next_id c"
  by (induction ms arbitrary: c) simp_all

lemma chan_inv_sends:
  "chan_inv (fold (\<lambda>m. send_join (ch m) (r m)) ms c) = chan_inv c"
  "chan_inv (fold (\<lambda>w. if P w then id else send_sync (ch' w) (r' w)) ms' c) = chan_inv c"
  "chan_inv (recv_sync w cx c) = chan_inv c"
  by (rule chan_inv_cong; simp add: fold_send_join_fields fold_send_sync_fields)+

lemma Join_chans:
  assumes "coord_inv c" "chan_inv c"
  shows "chan_inv (fst (Join c req))"
proof -
  define g where "g = getOrCreateGroup c (jrGroupID req)"
  note ok = getOrCreateGroup_ok [OF assms(1), of "jrGroupID req", folded g_def]
  obtain c1 mid m g' where J: "g' = g\<lparr>JoinOrder := (if mid \<in> set (mkeys (Members g)) then JoinOrder g else JoinOrder g @ [mid]),
      Members := mput mid m (Members g)\<rparr>"
    "fst (Join c req) = (if gState g \<noteq> PreparingRebalance
      then arm_join (g'\<lparr>gState := PreparingRebalance\<rparr>) c1 else put_group g' c1)"
    "groups c1 = groups c" "awaitJoin m = next_id c" "awaitSync m = Suc (next_id c)"
    "next_id c1 = Suc (Suc (next_id c))"
    using Join_shape [OF ok(2) [unfolded g_def] g_def] by metis
  have g: "chans_ok c g"
    using chan_invD [OF assms(2), of "jrGroupID req"]
    by (auto simp: g_def getOrCreateGroup_def chans_ok_def split: option.splits)
  have fresh: "awaitJoin x < next_id c" if "map_of (Members g) k = Some x" for k x
    using g that by (force simp: chans_ok_def)
  have "chans_ok c1 g'"
    using g fresh J(4-6) unfolding chans_ok_def J(1) by (auto split: if_splits) (fastforce+)
  then show ?thesis
    unfolding J(2) using chan_inv_put [OF assms(2) J(3)] chan_inv_arm [OF assms(2) J(3)]
      chans_ok_same [of "g'\<lparr>gState := PreparingRebalance\<rparr>" g' c1 c1] J(6) by simp
qed

lemma completed_chans:
  "chans_ok c g \<Longrightarrow> next_id c \<le> next_id c' \<Longrightarrow> chans_ok c' (completed g)"
  unfolding completed_def by (rule touch_chans [OF chans_ok_same, of _ g c]) simp_all

lemma Sync_chans:
  assumes "chan_inv c"
  shows "chan_inv (fst (Sync c req))"
proof (cases "\<exists>g m. map_of (groups c) (srGroupID req) = Some g \<and> map_of (Members g) (srMemberID req) = Some m
    \<and> srGenerationID req = GenerationID g")
  case False
  then have "fst (Sync c req) = c" by (auto simp: Sync_def split: option.splits)
  then show ?thesis using assms by simp
next
  case True
  then obtain g m where gm: "map_of (groups c) (srGroupID req) = Some g"
    "map_of (Members g) (srMemberID req) = Some m" "srGenerationID req = GenerationID g" by blast
  note g = chan_invD [OF assms gm(1)]
  let ?s = "touch_members (mkeys (Members g)) ((assign_members (srAssignments req) g)\<lparr>gState := Stable\<rparr>)"
  let ?c1 = "c\<lparr>next_id := Suc (next_id c)\<rparr>"
  have "chans_ok c ?s"
    by (rule touch_chans [OF chans_ok_same [OF _ order_refl assign_chans [OF g]] order_refl]) simp
  then have "chan_inv (put_group ?s c)" using chan_inv_put [OF assms] by simp
  moreover have "chan_inv (put_group (touch_members ids g) c)" for ids
    using chan_inv_put [OF assms] touch_chans [OF g] by simp
  moreover have "chan_inv (put_group (touch_members ids g) ?c1)" for ids
    using chan_inv_put [OF assms, of ?c1] touch_chans [OF g, of ?c1] by simp
  ultimately show ?thesis
    using gm by (auto simp: Sync_def Let_def chan_inv_sends)
qed

lemma chan_inv_update [simp]:
  "chan_inv (c\<lparr>running := r\<rparr>) = chan_inv c"
  "chan_inv (c\<lparr>joinArmed := ja\<rparr>) = chan_inv c"
  by (rule chan_inv_cong; simp)+

lemma remove_chans:
  assumes "chan_inv c" "map_of (groups c) gid = Some g"
  shows "chan_inv (maybeRebalance (removeMember g mid) c)"
  using removeMember_chans [OF chan_invD [OF assms]]
  by (intro chan_inv_maybeRebalance [OF assms(1)]) simp_all

lemma completeJoin_chans:
  assumes "chan_inv c"
  shows "chan_inv (completeJoin c gid)"
proof (cases "\<exists>g. map_of (groups c) gid = Some g \<and> JoinOrder g \<noteq> []")
  case True
  then obtain g where g: "map_of (groups c) gid = Some g" "JoinOrder g \<noteq> []" by blast
  have "chan_inv (put_group (completed g) c)"
    using chan_inv_put [OF assms] completed_chans [OF chan_invD [OF assms g(1)]] by simp
  then show ?thesis using completeJoin_completed [OF g] by (simp add: chan_inv_sends)
qed (use assms in \<open>auto simp: completeJoin_def split: option.splits\<close>)

lemma fire_session_chans:
  assumes "chan_inv c"
  shows "chan_inv (fire_session c gid mid)"
proof (cases "\<exists>g m d. map_of (groups c) gid = Some g \<and> map_of (Members g) mid = Some m \<and> sessionTimer m = Armed d")
  case True
  then obtain g m d where gm: "map_of (groups c) gid = Some g" "map_of (Members g) mid = Some m"
    "sessionTimer m = Armed d" by blast
  let ?c = "c\<lparr>running := ExpireMember gid mid # running c\<rparr>"
  let ?g = "g\<lparr>Members := mput mid (m\<lparr>sessionTimer := Fired\<rparr>) (Members g)\<rparr>"
  have "chans_ok ?c ?g"
    using chan_invD [OF assms gm(1)] gm(2) unfolding chans_ok_def by (auto split: if_splits)
  then show ?thesis
    using chan_inv_put [OF assms, of ?c ?g] gm by (simp add: fire_session_def)
qed (use assms in \<open>auto simp: fire_session_def split: option.splits session_timer.splits\<close>)

lemma chan_inv_step:
  assumes "coord_step c ev c'" "coord_inv c" "chan_inv c"
  shows "chan_inv c'"
  using assms(1)
proof cases
  case (request j s h l)
  have "chan_inv (put_group (touch_members ids g) c)" if "map_of (groups c) gid = Some g" for ids g gid
    using chan_inv_put [OF assms(3)] touch_chans [OF chan_invD [OF assms(3) that]] by simp
  then have "chan_inv (fst (Heartbeat c h))" "chan_inv (fst (Leave c l))"
    using assms(3) remove_chans [OF assms(3)] by (auto simp: Heartbeat_def Leave_def split: option.splits)
  then show ?thesis using request assms Join_chans Sync_chans by auto
next
  case (fire_join t)
  then show ?thesis using assms(3) by (simp add: fire_join_def split: option.splits)
next
  case (fire_session gid mid)
  then show ?thesis using fire_session_chans [OF assms(3)] by simp
next
  case (run cb)
  let ?c = "c\<lparr>running := remove1 cb (running c)\<rparr>"
  have "chan_inv ?c" using assms(3) by simp
  then show ?thesis
    using run completeJoin_chans remove_chans [of ?c]
    by (auto simp: run_callback_def expireMember_def Let_def split: option.splits callback.splits)
qed

lemma coord_reach_chans: "coord_reach delay c \<Longrightarrow> chan_inv c"
proof (induction rule: coord_reach.induct)
  case init
  show ?case by (simp add: NewCoordinator_def chan_inv_def)
next
  case (step c ev c')
  then show ?case using chan_inv_step coord_reach_inv by blast
qed

end
