(* ===== verification/Group_Properties.thy ===== *)
theory Group_Properties
  imports Group_Correct
begin

text \<open>
  What the group coordinator guarantees in every reachable state, and the traces on which it
  does not do what its protocol promises.
\<close>

section \<open>Requests for the examples\<close>

definition demo_join :: "string \<Rightarrow> string \<Rightarrow> JoinRequest" where
  "demo_join gid mid = \<lparr>jrGroupID = gid, jrClientID = ''c'', jrSessionTimeoutMS = 1000, jrMemberID = mid,
     jrProtocolType = ''consumer'', jrProtocols = [\<lparr>ProtocolName = ''range'', ProtocolMetadata = None\<rparr>]\<rparr>"

lemma reach_join: "coord_reach d c \<Longrightarrow> coord_reach d (fst (Join c req))"
  using coord_reach.step [OF _ coord_step.request [of "EvJoin req" req _ _ _ c]] by simp

lemma reach_sync: "coord_reach d c \<Longrightarrow> coord_reach d (fst (Sync c req))"
  using coord_reach.step [OF _ coord_step.request [of "EvSync req" _ req _ _ c]] by simp

lemma reach_leave: "coord_reach d c \<Longrightarrow> coord_reach d (fst (Leave c req))"
  using coord_reach.step [OF _ coord_step.request [of "EvLeave req" _ _ _ req c]] by simp

lemma reach_fire: "coord_reach d c \<Longrightarrow> t \<in> fst ` set (joinArmed c) \<Longrightarrow> coord_reach d (fire_join c t)"
  by (rule coord_reach.step [OF _ coord_step.fire_join])

lemma reach_run: "coord_reach d c \<Longrightarrow> cb \<in> set (running c) \<Longrightarrow> coord_reach d (run_callback c cb)"
  by (rule coord_reach.step [OF _ coord_step.run])

text \<open>One member has joined group \<open>g\<close>; then its rebalance is complete.\<close>

definition one_joined :: Coordinator where
  "one_joined = fst (Join (NewCoordinator 100) (demo_join ''g'' ''a''))"

definition one_completed :: Coordinator where
  "one_completed = run_callback (fire_join one_joined 2) (CompleteJoin ''g'')"

lemma one_joined_reach: "coord_reach 100 one_joined"
  unfolding one_joined_def by (rule reach_join) (rule coord_reach.init)

lemma one_completed_reach: "coord_reach 100 one_completed"
proof -
  have "joinArmed one_joined = [(2, ''g'')]" by code_simp
  then have "coord_reach 100 (fire_join one_joined 2)" by (intro reach_fire one_joined_reach) simp
  moreover have "running (fire_join one_joined 2) = [CompleteJoin ''g'']" by code_simp
  ultimately show ?thesis unfolding one_completed_def by (intro reach_run) simp_all
qed

section \<open>Consistency\<close>

text \<open>
  C15. In every reachable state of the coordinator, whatever requests, timers and callbacks
  came in whatever order: the join order of a group lists each of its members once; a group
  is empty exactly when it has no members; and once a rebalance is complete, the group has a
  leader who is one of its members, and every member has its session timer running, or the
  timer went off and the expiry of that member is on its way.
\<close>

theorem group_consistent:
  assumes "coord_reach delay c" "map_of (groups c) gid = Some g"
  shows "gID g = gid \<and> distinct (JoinOrder g) \<and> set (JoinOrder g) = dom (map_of (Members g))
    \<and> (gState g = Empty \<longleftrightarrow> Members g = [])
    \<and> (gState g \<in> {CompletingRebalance, Stable} \<longrightarrow>
        LeaderID g \<in> dom (map_of (Members g))
        \<and> (\<forall>mid m. map_of (Members g) mid = Some m \<longrightarrow>
            mID m = mid \<and> ((\<exists>d. sessionTimer m = Armed d)
              \<or> sessionTimer m = Fired \<and> ExpireMember gid mid \<in> set (running c))))"
proof -
  note g = group_okD [OF coord_reach_inv [OF assms(1)] assms(2)]
  have dom: "dom (map_of (Members g)) = set (mkeys (Members g))"
    by (simp add: dom_map_of_conv_image_fst)
  have "mID m = mid \<and> ((\<exists>d. sessionTimer m = Armed d)
      \<or> sessionTimer m = Fired \<and> ExpireMember gid mid \<in> set (running c))"
    if "gState g \<in> {CompletingRebalance, Stable}" "map_of (Members g) mid = Some m" for mid m
  proof -
    have mem: "(mid, m) \<in> set (Members g)" using that(2) by (rule map_of_SomeD)
    have "mID m = mid" using mem g(2) unfolding members_ok_def by blast
    moreover have "sessionTimer m \<noteq> NoTimer" using mem g(3) that(1) unfolding state_ok_def by blast
    moreover have "sessionTimer m = Fired \<longrightarrow> ExpireMember gid mid \<in> set (running c)"
      using mem g(1,4) unfolding timers_ok_def expiring_def by blast
    ultimately show ?thesis by (cases "sessionTimer m") auto
  qed
  then show ?thesis
    using g(1-3) unfolding dom by (auto simp: members_ok_def state_ok_def)
qed

theorem group_consistent_witness:
  "\<exists>g. map_of (groups one_completed) ''g'' = Some g \<and> LeaderID g \<in> dom (map_of (Members g))"
proof -
  have "map_option gState (map_of (groups one_completed) ''g'') = Some CompletingRebalance" by code_simp
  then obtain g where "map_of (groups one_completed) ''g'' = Some g" "gState g = CompletingRebalance" by auto
  then show ?thesis using group_consistent [OF one_completed_reach] by auto
qed

section \<open>Rebalances complete\<close>

lemma joined_eq:
  assumes "members_ok g"
  shows "set (joined g) = {m. \<exists>k. map_of (Members g) k = Some m}"
    "map (\<lambda>m. Some m) (joined g) = map (map_of (Members g)) (JoinOrder g)"
proof -
  have dom: "k \<in> set (JoinOrder g) \<longleftrightarrow> map_of (Members g) k \<noteq> None" for k
    using assms by (simp add: members_ok_def map_of_eq_None_iff)
  have "map Some (List.map_filter (map_of (Members g)) ks) = map (map_of (Members g)) ks"
    if "set ks \<subseteq> set (JoinOrder g)" for ks
    using that dom by (induction ks) (auto split: option.splits)
  then show "map (\<lambda>m. Some m) (joined g) = map (map_of (Members g)) (JoinOrder g)"
    by (simp add: joined_def)
  have "m \<in> set (List.map_filter f ks) \<longleftrightarrow> (\<exists>k \<in> set ks. f k = Some m)"
    for m and f :: "string \<Rightarrow> Member option" and ks
    by (induction ks) (auto split: option.splits)
  then show "set (joined g) = {m. \<exists>k. map_of (Members g) k = Some m}"
    using dom unfolding joined_def by (simp add: set_eq_iff) (metis option.distinct(1))
qed

lemma fold_send_join_other:
  "ch \<notin> f ` set ns \<Longrightarrow>
    map_of (joinOut (fold (\<lambda>m. send_join (f m) (r m)) ns c)) ch = map_of (joinOut c) ch"
  by (induction ns arbitrary: c) (auto simp: send_join_def)

lemma send_join_same: "map_of (joinOut (send_join ch r c)) ch
    = (case map_of (joinOut c) ch of None \<Rightarrow> Some r | Some x \<Rightarrow> Some x)"
  by (simp add: send_join_def split: option.split)

lemma fold_send_join:
  assumes "distinct (map f ms)" "m \<in> set ms"
  shows "map_of (joinOut (fold (\<lambda>m. send_join (f m) (r m)) ms c)) (f m)
    = (case map_of (joinOut c) (f m) of None \<Rightarrow> Some (r m) | Some x \<Rightarrow> Some x)"
  using assms
proof (induction ms arbitrary: c)
  case (Cons a ms)
  show ?case
  proof (cases "m = a")
    case True
    have "f a \<notin> f ` set ms" using Cons.prems(1) by simp
    then show ?thesis unfolding True by (simp add: fold_send_join_other send_join_same)
  next
    case False
    then have m: "m \<in> set ms" using Cons.prems(2) by simp
    have "f a \<notin> f ` set ms" using Cons.prems(1) by simp
    then have "f m \<noteq> f a" using m by (metis imageI)
    then have "map_of (joinOut (send_join (f a) (r a) c)) (f m) = map_of (joinOut c) (f m)"
      by (simp add: send_join_def)
    then show ?thesis using Cons m by simp
  qed
qed simp

lemma awaitJoin_distinct:
  assumes "members_ok g" "chans_ok c g"
  shows "distinct (map awaitJoin (joined g))"
proof -
  have eq: "map (\<lambda>m. Some m) (joined g) = map (map_of (Members g)) (JoinOrder g)"
    by (rule joined_eq [OF assms(1)])
  have len: "length (joined g) = length (JoinOrder g)" using arg_cong [OF eq, of length] by simp
  have nth: "map_of (Members g) (JoinOrder g ! i) = Some (joined g ! i)" if "i < length (joined g)" for i
    using arg_cong [OF eq, of "\<lambda>xs. xs ! i"] that len by simp
  have "distinct (JoinOrder g)" using assms(1) by (simp add: members_ok_def)
  then have "awaitJoin (joined g ! i) \<noteq> awaitJoin (joined g ! j)"
    if "i < length (joined g)" "j < length (joined g)" "i \<noteq> j" for i j
    using that nth [of i] nth [of j] assms(2) len unfolding chans_ok_def
    by (metis nth_eq_iff_index_eq)
  then show ?thesis by (simp add: distinct_conv_nth)
qed

lemma completed_members:
  assumes "members_ok g"
  shows "map_of (Members (completed g)) k = map_option touch (map_of (Members g) k)"
    "join_members (completed g) = map (\<lambda>m. \<lparr>jmID = mID m, jmMetadata = mMetadata m\<rparr>) (joined g)"
proof -
  have k: "k \<in> set (JoinOrder g)" if "map_of (Members g) k = Some m" for k m
    using imageI [OF map_of_SomeD [OF that], of fst] assms by (simp add: members_ok_def)
  show eq: "map_of (Members (completed g)) k = map_option touch (map_of (Members g) k)" for k
    using k [of k] by (cases "map_of (Members g) k")
      (simp_all add: completed_def touch_members_def map_of_map_members)
  have "map_of (Members (completed g)) = map_option touch \<circ> map_of (Members g)"
    using eq by (auto simp: fun_eq_iff)
  moreover have "List.map_filter (map_option touch \<circ> f) ks = map touch (List.map_filter f ks)"
    for f :: "string \<Rightarrow> Member option" and ks
    by (induction ks) (simp_all split: option.split)
  moreover have "JoinOrder (completed g) = JoinOrder g" by (simp add: completed_def)
  ultimately have "joined (completed g) = map touch (joined g)" by (simp add: joined_def)
  then show "join_members (completed g) = map (\<lambda>m. \<lparr>jmID = mID m, jmMetadata = mMetadata m\<rparr>) (joined g)"
    by (simp add: join_members_def)
qed

lemma fold_send_join_groups: "groups (fold (\<lambda>m. send_join (f m) (r m)) ms c) = groups c"
  using fold_send_join_fields [of f r ms c] by simp

lemma completeJoin_effect:
  assumes "members_ok g" "chans_ok c g" "map_of (groups c) gid = Some g" "gID g = gid" "JoinOrder g \<noteq> []"
  shows "map_of (groups (completeJoin c gid)) gid = Some (completed g)"
    and "map_of (Members g) k = Some m \<Longrightarrow> map_of (joinOut c) (awaitJoin m) = None \<Longrightarrow>
      map_of (joinOut (completeJoin c gid)) (awaitJoin m)
        = Some (join_result (completed g) (join_members (completed g)) (touch m))"
proof -
  note eq = completeJoin_completed [OF assms(3,5)]
  show "map_of (groups (completeJoin c gid)) gid = Some (completed g)"
    by (simp add: eq fold_send_join_groups put_group_def completed_def assms(4))
  have "members_ok (completed g)" unfolding completed_def
    by (rule touch_members_ok) (use assms(1) in \<open>simp add: members_ok_def\<close>)
  note ok = this completed_chans [OF assms(2) order_refl]
  show "map_of (joinOut (completeJoin c gid)) (awaitJoin m)
        = Some (join_result (completed g) (join_members (completed g)) (touch m))"
    if "map_of (Members g) k = Some m" "map_of (joinOut c) (awaitJoin m) = None"
  proof -
    have "touch m \<in> set (joined (completed g))"
      using that(1) joined_eq(1) [OF ok(1)] completed_members(1) [OF assms(1), of k] by auto
    from fold_send_join [OF awaitJoin_distinct [OF ok] this] show ?thesis
      using that(2) by (simp add: eq put_group_def)
  qed
qed



section \<open>Members that leave or fail\<close>

lemma maybeRebalance_effect:
  assumes "gState g \<noteq> Empty"
  shows "\<exists>g'. map_of (groups (maybeRebalance g c)) (gID g) = Some g' \<and> Members g' = Members g
    \<and> JoinOrder g' = JoinOrder g \<and> GenerationID g' = GenerationID g \<and> gID g' = gID g
    \<and> (Members g = [] \<longrightarrow> gState g' = Empty) \<and> (Members g \<noteq> [] \<longrightarrow> gState g' = PreparingRebalance)"
  using assms by (cases "gState g") (simp_all add: maybeRebalance_def arm_join_def put_group_def)

lemma removal_effect:
  assumes "coord_inv c" "map_of (groups c) gid = Some g" "map_of (Members g) mid = Some m"
  shows "\<exists>g'. map_of (groups (maybeRebalance (removeMember g mid) c)) gid = Some g'
    \<and> Members g' = mdel mid (Members g) \<and> JoinOrder g' = filter (\<lambda>i. i \<noteq> mid) (JoinOrder g)
    \<and> GenerationID g' = GenerationID g
    \<and> (Members g' = [] \<longrightarrow> gState g' = Empty) \<and> (Members g' \<noteq> [] \<longrightarrow> gState g' = PreparingRebalance)"
proof -
  note g = group_okD [OF assms(1,2)]
  have "gState (removeMember g mid) \<noteq> Empty" "gID (removeMember g mid) = gid"
    using g(1,3) assms(3) by (auto simp: removeMember_def state_ok_def)
  then show ?thesis
    using maybeRebalance_effect [of "removeMember g mid" c] by (auto simp: removeMember_def)
qed

text \<open>
  C17. A member that leaves, or whose session expired, is fenced off: from then on its
  heartbeats and its syncs are refused, whatever generation they name, until it joins again.
  The members that remain learn of it: each of their heartbeats, in whatever state the group
  was, is answered with \<open>REBALANCE_IN_PROGRESS\<close>, and a rebalance is on its way, so they are
  not told to rejoin a group that then stays as it is.
\<close>

theorem departed_member_fenced:
  assumes "coord_reach delay c" "map_of (groups c) gid = Some g" "map_of (Members g) mid = Some m"
    and "c' = fst (Leave c \<lparr>lrGroupID = gid, lrMemberID = mid\<rparr>)
      \<or> ExpireMember gid mid \<in> set (running c) \<and> c' = run_callback c (ExpireMember gid mid)"
  shows "snd (Heartbeat c' \<lparr>hrGroupID = gid, hrGenerationID = gen, hrMemberID = mid\<rparr>) = ErrUnknownMemberID
    \<and> Sync c' \<lparr>srGroupID = gid, srGenerationID = gen, srMemberID = mid, srAssignments = as\<rparr>
        = (c', Returned \<lparr>syAssignment = None, syErrorCode = ErrUnknownMemberID\<rparr>)
    \<and> (\<forall>k x. k \<noteq> mid \<longrightarrow> map_of (Members g) k = Some x \<longrightarrow>
        snd (Heartbeat c' \<lparr>hrGroupID = gid, hrGenerationID = gen, hrMemberID = k\<rparr>) = ErrRebalanceInProgress
        \<and> (gid \<in> snd ` set (joinArmed c') \<or> CompleteJoin gid \<in> set (running c')))"
proof -
  let ?e = "c\<lparr>running := remove1 (ExpireMember gid mid) (running c)\<rparr>"
  have inv: "coord_inv c" using assms(1) by (rule coord_reach_inv)
  have inv': "coord_inv c'"
    using assms(4) Leave_inv [OF inv] run_callback_inv [OF inv] by auto
  obtain c0 where c0: "c' = maybeRebalance (removeMember g mid) c0" "c0 = c \<or> c0 = ?e"
    using assms(2-4) by (auto simp: Leave_def run_callback_def expireMember_def)
  have "groups (maybeRebalance (removeMember g mid) ?e) = groups (maybeRebalance (removeMember g mid) c)"
    by (simp add: maybeRebalance_def arm_join_def put_group_def split: option.split)
  then obtain g' where g': "map_of (groups c') gid = Some g'" "Members g' = mdel mid (Members g)"
    "Members g' \<noteq> [] \<longrightarrow> gState g' = PreparingRebalance"
    using removal_effect [OF inv assms(2,3)] c0 by auto
  have "join_pending c' gid" if "gState g' = PreparingRebalance"
    using group_okD [OF inv' g'(1)] that by (simp add: timers_ok_def)
  moreover have "gState g' = PreparingRebalance" if "k \<noteq> mid" "map_of (Members g) k = Some x" for k x
  proof -
    have "map_of (Members g') k = Some x" using that by (simp add: g'(2))
    then show ?thesis using g'(3) by auto
  qed
  ultimately show ?thesis
    using g'(1,2) by (auto simp: Heartbeat_def Sync_def join_pending_def)
qed

definition two_joined :: Coordinator where
  "two_joined = fst (Join one_joined (demo_join ''g'' ''b''))"

theorem departed_member_fenced_witness:
  "snd (Heartbeat (fst (Leave two_joined \<lparr>lrGroupID = ''g'', lrMemberID = ''a''\<rparr>))
      \<lparr>hrGroupID = ''g'', hrGenerationID = 0, hrMemberID = ''b''\<rparr>) = ErrRebalanceInProgress"
proof -
  have reach: "coord_reach 100 two_joined"
    unfolding two_joined_def by (rule reach_join [OF one_joined_reach])
  have "map_option (\<lambda>g. (map_option mID (map_of (Members g) ''a''), map_option mID (map_of (Members g) ''b'')))
      (map_of (groups two_joined) ''g'') = Some (Some ''a'', Some ''b'')" by code_simp
  then obtain g m x where "map_of (groups two_joined) ''g'' = Some g" "map_of (Members g) ''a'' = Some m"
    "map_of (Members g) ''b'' = Some x" by auto
  then show ?thesis
    using departed_member_fenced [OF reach, of "''g''" g "''a''" m _ 0 "[]", OF _ _ disjI1 [OF refl]] by simp
qed

section \<open>The leader's assignment\<close>

definition parked_ok :: "Coordinator \<Rightarrow> bool" where
  "parked_ok c \<longleftrightarrow> distinct (map fst (parked c)) \<and> (\<forall>x \<in> set (parked c). fst x < next_id c)"

lemma parked_mono:
  assumes "parked_ok c" "parked c' = parked c" "next_id c \<le> next_id c'"
  shows "parked_ok c'"
  using assms unfolding parked_ok_def by (metis less_le_trans)

lemma parked_simps [simp]:
  "parked (put_group g c) = parked c" "parked (arm_join g c) = parked c"
  "parked (maybeRebalance g c) = parked c" "parked (send_join ch r c) = parked c"
  "next_id (put_group g c) = next_id c" "next_id (arm_join g c) = Suc (next_id c)"
  by (simp_all add: put_group_def arm_join_def maybeRebalance_def send_join_def split: option.split)

lemma maybeRebalance_next_id: "next_id c \<le> next_id (maybeRebalance g c)"
  by (simp add: maybeRebalance_def split: option.split)

lemma fold_send_join_parked: "parked (fold (\<lambda>m. send_join (f m) (r m)) ms c) = parked c"
  by (induction ms arbitrary: c) simp_all

lemma completeJoin_parked: "parked (completeJoin c gid) = parked c \<and> next_id (completeJoin c gid) = next_id c"
proof (cases "\<exists>g. map_of (groups c) gid = Some g \<and> JoinOrder g \<noteq> []")
  case True
  then obtain g where "map_of (groups c) gid = Some g" "JoinOrder g \<noteq> []" by blast
  then show ?thesis
    by (simp add: completeJoin_completed fold_send_join_parked fold_send_join_fields)
qed (auto simp: completeJoin_def split: option.split)

lemma Join_parked: "parked (fst (Join c req)) = parked c \<and> next_id c \<le> next_id (fst (Join c req))"
  by (simp add: Join_def Let_def nextMemberID_def)

lemma send_sync_parked: "parked_ok c \<Longrightarrow> parked_ok (send_sync ch r c)"
  by (auto simp: parked_ok_def send_sync_def distinct_map inj_on_def split: option.split
      dest: notin_set_remove1 subsetD [OF set_remove1_subset])

lemma fold_send_sync_parked:
  "parked_ok c \<Longrightarrow> parked_ok (fold (\<lambda>w. if P w then id else send_sync (ch w) (r w)) ms c)"
  by (induction ms arbitrary: c) (simp_all add: send_sync_parked)

lemma recv_sync_parked:
  "parked_ok c \<Longrightarrow> next_id c' = Suc (next_id c) \<Longrightarrow> parked c' = parked c \<Longrightarrow> parked_ok (recv_sync (next_id c) ch c')"
  by (force simp: parked_ok_def recv_sync_def split: option.split)

lemma parked_step:
  assumes "coord_step c ev c'" "parked_ok c"
  shows "parked_ok c'"
  using assms(1)
proof cases
  case (request j s h l)
  note mono = parked_mono [OF assms(2)]
  have "parked_ok (put_group g c)" for g by (rule mono) simp_all
  then have "parked_ok (fst (Sync c s))"
    using assms(2) recv_sync_parked [OF assms(2)]
    by (auto simp: Sync_def Let_def split: option.split intro!: fold_send_sync_parked)
  moreover have "parked_ok (fst (Join c j))" using Join_parked by (intro mono) simp_all
  moreover have "parked_ok (fst (Heartbeat c h))"
    by (rule mono) (simp_all add: Heartbeat_def split: option.split)
  moreover have "parked_ok (fst (Leave c l))"
    by (rule mono) (simp_all add: Leave_def maybeRebalance_next_id split: option.split)
  ultimately show ?thesis using request by auto
next
  case (fire_join t)
  then show ?thesis by (auto intro!: parked_mono [OF assms(2)] simp: fire_join_def split: option.split)
next
  case (fire_session gid mid)
  then show ?thesis
    by (auto intro!: parked_mono [OF assms(2)] simp: fire_session_def split: option.split session_timer.split)
next
  case (run cb)
  let ?c = "c\<lparr>running := remove1 cb (running c)\<rparr>"
  have "next_id c \<le> next_id (maybeRebalance g ?c)" for g using maybeRebalance_next_id [of ?c] by simp
  then have "parked (run_callback c cb) = parked c \<and> next_id c \<le> next_id (run_callback c cb)"
    by (auto simp: run_callback_def Let_def expireMember_def completeJoin_parked split: callback.split option.split)
  then show ?thesis using run by (auto intro: parked_mono [OF assms(2)])
qed

lemma coord_reach_parked: "coord_reach delay c \<Longrightarrow> parked_ok c"
proof (induction rule: coord_reach.induct)
  case init
  show ?case by (simp add: parked_ok_def NewCoordinator_def)
qed (rule parked_step)

lemma find_SomeD: "List.find P xs = Some x \<Longrightarrow> P x \<and> x \<in> set xs"
  by (induction xs) (auto split: if_splits)

lemma find_remove1_other:
  "ch \<noteq> ch' \<Longrightarrow> List.find (\<lambda>x. snd x = ch) (remove1 (w, ch') xs) = List.find (\<lambda>x. snd x = ch) xs"
  by (induction xs) auto

lemma send_sync_other:
  assumes "ch \<noteq> ch'"
  shows "List.find (\<lambda>x. snd x = ch) (parked (send_sync ch' r c)) = List.find (\<lambda>x. snd x = ch) (parked c)"
  using assms by (auto simp: send_sync_def find_remove1_other split: option.split dest!: find_SomeD)

lemma send_sync_out:
  "w \<notin> fst ` set (parked c) \<Longrightarrow> map_of (syncOut (send_sync ch r c)) w = map_of (syncOut c) w"
  by (auto simp: send_sync_def image_iff split: option.split dest!: find_SomeD)

lemma send_sync_keeps_out: "fst ` set (parked (send_sync ch r c)) \<subseteq> fst ` set (parked c)"
  by (auto simp: send_sync_def split: option.split dest: notin_set_remove1 subsetD [OF set_remove1_subset])

lemma fold_send_sync_out:
  "w \<notin> fst ` set (parked c) \<Longrightarrow>
    map_of (syncOut (fold (\<lambda>m. if P m then id else send_sync (f m) (r m)) ms c)) w = map_of (syncOut c) w"
proof (induction ms arbitrary: c)
  case (Cons m ms)
  have "w \<notin> fst ` set (parked (send_sync (f m) (r m) c))" using Cons.prems send_sync_keeps_out by blast
  then show ?case using Cons by (simp add: send_sync_out)
qed simp

lemma send_sync_hit:
  assumes "parked_ok c" "List.find (\<lambda>x. snd x = ch) (parked c) = Some (w, ch)"
  shows "map_of (syncOut (send_sync ch r c)) w = Some r" "w \<notin> fst ` set (parked (send_sync ch r c))"
proof -
  show "map_of (syncOut (send_sync ch r c)) w = Some r" using assms(2) by (simp add: send_sync_def)
  have "w \<notin> fst ` set (remove1 (w, ch) xs)" if "distinct (map fst xs)" "(w, ch) \<in> set xs" for xs
    using that by (induction xs) (auto simp: image_iff)
  moreover have "(w, ch) \<in> set (parked c)" using find_SomeD [OF assms(2)] by simp
  ultimately have "w \<notin> fst ` set (remove1 (w, ch) (parked c))"
    using assms(1) by (simp add: parked_ok_def)
  then show "w \<notin> fst ` set (parked (send_sync ch r c))" using assms(2) by (simp add: send_sync_def)
qed

lemma fold_send_sync:
  assumes "distinct (map f ms)" "m \<in> set ms" "\<not> P m" "parked_ok c"
    "List.find (\<lambda>x. snd x = f m) (parked c) = Some (w, f m)"
  shows "map_of (syncOut (fold (\<lambda>m. if P m then id else send_sync (f m) (r m)) ms c)) w = Some (r m)"
  using assms
proof (induction ms arbitrary: c)
  case (Cons a ms)
  show ?case
  proof (cases "m = a")
    case True
    then show ?thesis
      using Cons.prems send_sync_hit [OF Cons.prems(4,5)] by (simp add: fold_send_sync_out)
  next
    case False
    then have m: "m \<in> set ms" using Cons.prems(2) by simp
    have "f a \<notin> f ` set ms" using Cons.prems(1) by simp
    then have "f m \<noteq> f a" using m by (metis imageI)
    then show ?thesis
      using Cons m by (simp add: send_sync_parked send_sync_other)
  qed
qed simp

lemma map_of_touch:
  "map_of (Members (touch_members ids g)) k
    = map_option (\<lambda>m. if k \<in> set ids then touch m else m) (map_of (Members g) k)"
  by (simp add: touch_members_def map_of_map_members)

lemma map_of_assign:
  "map_of (Members (assign_members as g)) k
    = map_option (\<lambda>m. case map_of as k of None \<Rightarrow> m | Some a \<Rightarrow> m\<lparr>mAssignment := a\<rparr>) (map_of (Members g) k)"
  by (simp add: assign_members_def map_of_map_members)

lemma awaitSync_distinct:
  assumes "members_ok g" "chans_ok c g"
  shows "distinct (map awaitSync (map snd (Members g)))"
proof -
  have d: "distinct (mkeys (Members g))" using assms(1) by (simp add: members_ok_def)
  have k: "map_of (Members g) k = Some m" if "(k, m) \<in> set (Members g)" for k m
    using that d by simp
  have "x = y" if x: "x \<in> set (Members g)" and y: "y \<in> set (Members g)"
    and eq: "awaitSync (snd x) = awaitSync (snd y)" for x y
  proof -
    have m: "map_of (Members g) (fst x) = Some (snd x)" "map_of (Members g) (fst y) = Some (snd y)"
      using k [of "fst x" "snd x"] k [of "fst y" "snd y"] x y by simp_all
    then have "fst x = fst y" using assms(2) eq unfolding chans_ok_def by (metis Suc_inject)
    then show "x = y" using m by (simp add: prod_eq_iff)
  qed
  then have "inj_on (\<lambda>x. awaitSync (snd x)) (set (Members g))" by (auto intro: inj_onI)
  then show ?thesis using d by (simp add: distinct_map comp_def)
qed

text \<open>
  C18. The leader's \<open>Sync\<close> brings the group to \<open>Stable\<close> and hands out its plan: every member's
  assignment becomes the one the leader names (and stays as it was when the leader names
  none); the leader's call returns the leader's own; a member already parked in \<open>Sync\<close> gets
  its assignment; and a member that calls \<open>Sync\<close> later in this generation gets it at once.
\<close>

theorem leader_sync_distributes:
  fixes as :: "(string, bytes option) gomap"
  assumes "coord_reach delay c" "map_of (groups c) gid = Some g" "map_of (Members g) (LeaderID g) = Some l"
  defines "new k m \<equiv> (case map_of as k of None \<Rightarrow> mAssignment m | Some a \<Rightarrow> a)"
    and "res \<equiv> Sync c \<lparr>srGroupID = gid, srGenerationID = GenerationID g, srMemberID = LeaderID g, srAssignments = as\<rparr>"
  shows "map_option gState (map_of (groups (fst res)) gid) = Some Stable
    \<and> snd res = Returned \<lparr>syAssignment = new (LeaderID g) l, syErrorCode = ErrNone\<rparr>
    \<and> (\<forall>k m. k \<noteq> LeaderID g \<longrightarrow> map_of (Members g) k = Some m \<longrightarrow>
        snd (Sync (fst res) \<lparr>srGroupID = gid, srGenerationID = GenerationID g, srMemberID = k, srAssignments = as'\<rparr>)
          = Returned \<lparr>syAssignment = new k m, syErrorCode = ErrNone\<rparr>
        \<and> (\<forall>w. List.find (\<lambda>x. snd x = awaitSync m) (parked c) = Some (w, awaitSync m) \<longrightarrow>
            map_of (syncOut (fst res)) w = Some \<lparr>syAssignment = new k m, syErrorCode = ErrNone\<rparr>))"
proof -
  let ?s = "touch_members (mkeys (Members g)) ((assign_members as g)\<lparr>gState := Stable\<rparr>)"
  let ?c = "fold (\<lambda>w. if mID w = mID l then id else send_sync (awaitSync w) (sync_ok w)) (map snd (Members ?s)) (put_group ?s c)"
  note g = group_okD [OF coord_reach_inv [OF assms(1)] assms(2)]
  have ids: "mID m = k" if "map_of (Members g) k = Some m" for k m
    using map_of_SomeD [OF that] g(2) unfolding members_ok_def by blast
  have mem: "\<exists>x. map_of (Members ?s) k = Some x \<and> mID x = mID m \<and> awaitSync x = awaitSync m \<and> mAssignment x = new k m"
    if "map_of (Members g) k = Some m" for k m
    using that imageI [OF map_of_SomeD [OF that], of fst]
    by (simp add: map_of_touch map_of_assign new_def split: option.split)
  obtain l' where l': "map_of (Members ?s) (LeaderID g) = Some l'" "mAssignment l' = new (LeaderID g) l"
    using mem [OF assms(3)] by blast
  have res: "res = (?c, Returned (sync_ok l'))"
    using assms(2,3) l'(1) by (simp add: res_def Sync_def Let_def)
  have grp: "map_of (groups ?c) gid = Some ?s"
    using fold_send_sync_fields [of "\<lambda>w. mID w = mID l" awaitSync sync_ok "map snd (Members ?s)" "put_group ?s c"] g(1)
    by (simp add: put_group_def)
  have "members_ok (assign_members as g)" using g(2) by (rule assign_members_ok)
  then have ok1: "members_ok ?s"
    by (intro touch_members_ok) (simp add: members_ok_def)
  have ok2: "chans_ok c ?s"
    by (rule touch_chans [OF chans_ok_same [OF _ order_refl assign_chans] order_refl, where c = c])
      (use chan_invD [OF coord_reach_chans [OF assms(1)] assms(2)] in simp_all)
  note ok = ok1 ok2
  have park: "parked_ok (put_group ?s c)"
    by (rule parked_mono [OF coord_reach_parked [OF assms(1)]]) simp_all
  have "snd (Sync ?c \<lparr>srGroupID = gid, srGenerationID = GenerationID g, srMemberID = k, srAssignments = as'\<rparr>)
        = Returned \<lparr>syAssignment = new k m, syErrorCode = ErrNone\<rparr>
      \<and> (\<forall>w. List.find (\<lambda>x. snd x = awaitSync m) (parked c) = Some (w, awaitSync m) \<longrightarrow>
          map_of (syncOut ?c) w = Some \<lparr>syAssignment = new k m, syErrorCode = ErrNone\<rparr>)"
    if k: "k \<noteq> LeaderID g" "map_of (Members g) k = Some m" for k m
  proof -
    obtain x where x: "map_of (Members ?s) k = Some x" "mID x = mID m" "awaitSync x = awaitSync m"
      "mAssignment x = new k m" using mem [OF k(2)] by blast
    have "x \<in> set (map snd (Members ?s))" "\<not> mID x = mID l"
      using map_of_SomeD [OF x(1)] x(2) ids [OF k(2)] ids [OF assms(3)] k(1) by force+
    from fold_send_sync [OF awaitSync_distinct [OF ok] this(1), of "\<lambda>w. mID w = mID l", OF this(2) park, of _ sync_ok]
    show ?thesis using x k(1) grp by (simp add: Sync_def sync_ok_def)
  qed
  then show ?thesis using res grp l'(2) by (simp add: sync_ok_def)
qed

theorem leader_sync_distributes_witness:
  "\<exists>g. map_of (groups one_completed) ''g'' = Some g
    \<and> snd (Sync one_completed \<lparr>srGroupID = ''g'', srGenerationID = GenerationID g, srMemberID = LeaderID g,
        srAssignments = [(''a'', Some [7])]\<rparr>) = Returned \<lparr>syAssignment = Some [7], syErrorCode = ErrNone\<rparr>"
proof -
  have "map_option (\<lambda>g. (LeaderID g, map_option mID (map_of (Members g) (LeaderID g)))) (map_of (groups one_completed) ''g'')
      = Some (''a'', Some ''a'')" by code_simp
  then obtain g m where g: "map_of (groups one_completed) ''g'' = Some g" "map_of (Members g) (LeaderID g) = Some m"
    "LeaderID g = ''a''" by auto
  show ?thesis
    using leader_sync_distributes [OF one_completed_reach g(1,2), of "[(''a'', Some [7])]"] g by simp
qed

section \<open>Generations\<close>

definition generation :: "Coordinator \<Rightarrow> string \<Rightarrow> int32" where
  "generation c gid = (case map_of (groups c) gid of None \<Rightarrow> 0 | Some g \<Rightarrow> GenerationID g)"

lemma generation_put:
  "generation (put_group g c) gid = (if gid = gID g then GenerationID g else generation c gid)"
  by (simp add: generation_def put_group_def)

lemma generation_cong: "groups c = groups c' \<Longrightarrow> generation c = generation c'"
  by (simp add: generation_def fun_eq_iff)

lemma generation_arm:
  "generation (arm_join g c) gid = (if gid = gID g then GenerationID g else generation c gid)"
  by (simp add: arm_join_def generation_def put_group_def)

lemma generation_maybeRebalance:
  "generation (maybeRebalance g c) gid = (if gid = gID g then GenerationID g else generation c gid)"
  by (simp add: maybeRebalance_def arm_join_def generation_def put_group_def split: option.split)

lemma generation_group: "map_of (groups c) gid = Some g \<Longrightarrow> generation c gid = GenerationID g"
  by (simp add: generation_def)

lemma generation_Join:
  assumes "coord_inv c"
  shows "generation (fst (Join c req)) gid = generation c gid"
proof -
  note ok = getOrCreateGroup_ok [OF assms, of "jrGroupID req"]
  obtain c1 mid m g' where J: "g' = (getOrCreateGroup c (jrGroupID req))\<lparr>JoinOrder := (if mid \<in> set (mkeys (Members (getOrCreateGroup c (jrGroupID req)))) then JoinOrder (getOrCreateGroup c (jrGroupID req)) else JoinOrder (getOrCreateGroup c (jrGroupID req)) @ [mid]),
      Members := mput mid m (Members (getOrCreateGroup c (jrGroupID req)))\<rparr>"
    "fst (Join c req) = (if gState (getOrCreateGroup c (jrGroupID req)) \<noteq> PreparingRebalance
      then arm_join (g'\<lparr>gState := PreparingRebalance\<rparr>) c1 else put_group g' c1)" "groups c1 = groups c"
    using Join_shape [OF ok(2) refl] by metis
  have "GenerationID (getOrCreateGroup c (jrGroupID req)) = generation c (jrGroupID req)"
    by (simp add: getOrCreateGroup_def generation_def split: option.split)
  then show ?thesis
    using ok(1) generation_cong [OF J(3)] unfolding J(2) by (simp add: generation_arm generation_put J(1))
qed

lemma generation_sends:
  "generation (fold (\<lambda>m. send_join (ch m) (r m)) ms c) = generation c"
  by (rule generation_cong) (simp add: fold_send_join_groups)

lemma generation_completeJoin:
  assumes "\<And>g. map_of (groups c) k = Some g \<Longrightarrow> gID g = k"
  shows "generation (completeJoin c k) gid = generation c gid
    \<or> gid = k \<and> generation (completeJoin c k) gid = generation c gid + 1"
proof (cases "\<exists>g. map_of (groups c) k = Some g \<and> JoinOrder g \<noteq> []")
  case True
  then obtain g where g: "map_of (groups c) k = Some g" "JoinOrder g \<noteq> []" by blast
  have "gID (completed g) = k" "GenerationID (completed g) = GenerationID g + 1"
    using assms [OF g(1)] by (simp_all add: completed_def)
  then show ?thesis
    using g(1) unfolding completeJoin_completed [OF g] by (simp add: generation_sends generation_put generation_group)
qed (auto simp: completeJoin_def split: option.split)

lemma generation_Sync:
  assumes "coord_inv c"
  shows "generation (fst (Sync c req)) gid = generation c gid"
proof -
  have f: "generation (fold (\<lambda>w. if P w then id else send_sync (ch w) (r w)) ms c') = generation c'" for P ch r ms c'
    by (rule generation_cong) (simp add: fold_send_sync_fields)
  have u: "generation (c\<lparr>next_id := n\<rparr>) = generation c" "generation (recv_sync w ch c') = generation c'" for n w ch c'
    by (rule generation_cong; simp)+
  have "gID g = k" if "map_of (groups c) k = Some g" for g k using coord_inv_group [OF assms that] by simp
  then show ?thesis
    by (auto simp: Sync_def Let_def f u generation_put generation_group split: option.split)
qed

text \<open>
  C19. Generations fence: no request, timer or expiry ever changes the generation of a group,
  only the completion of a rebalance of that very group does, and it moves it by one; so the
  generation a member learned from \<open>Join\<close> stays valid until the next rebalance of its own
  group is complete, whatever happens in the others.
\<close>

theorem generation_changes:
  assumes "coord_reach delay c" "coord_step c ev c'"
  shows "generation c' gid = generation c gid
    \<or> ev = EvRun (CompleteJoin gid) \<and> generation c' gid = generation c gid + 1"
proof -
  have inv: "coord_inv c" by (rule coord_reach_inv [OF assms(1)])
  have gid: "gID g = k" if "map_of (groups c) k = Some g" for g k using coord_inv_group [OF inv that] by simp
  from assms(2) show ?thesis
  proof cases
    case (request j s h l)
    have "generation (fst (Heartbeat c h)) gid = generation c gid" "generation (fst (Leave c l)) gid = generation c gid"
      using gid by (auto simp: Heartbeat_def Leave_def generation_put generation_maybeRebalance generation_group
          removeMember_def split: option.split)
    then show ?thesis using request generation_Join [OF inv] generation_Sync [OF inv] by auto
  next
    case (fire_join t)
    then have "groups c' = groups c" by (simp add: fire_join_def split: option.split)
    then show ?thesis by (simp add: generation_def)
  next
    case (fire_session gid' mid)
    have "generation (c\<lparr>running := r\<rparr>) = generation c" for r by (rule generation_cong) simp
    then have "generation c' gid = generation c gid"
      using gid fire_session(2) by (auto simp: fire_session_def generation_put generation_group
          split: option.split session_timer.split)
    then show ?thesis by simp
  next
    case (run cb)
    let ?c = "c\<lparr>running := remove1 cb (running c)\<rparr>"
    have c: "generation ?c = generation c" by (rule generation_cong) simp
    have comp: "generation (completeJoin ?c k) gid = generation c gid
        \<or> gid = k \<and> generation (completeJoin ?c k) gid = generation c gid + 1" for k
      using generation_completeJoin [of ?c k gid] gid [of k] c by auto
    have "generation (expireMember ?c k mid) gid = generation c gid" for k mid
      using gid by (auto simp: expireMember_def generation_maybeRebalance generation_group removeMember_def c
          split: option.split)
    then show ?thesis using run comp by (cases cb) (auto simp: run_callback_def split: if_splits)
  qed
qed

theorem generation_changes_witness:
  "generation one_completed ''g'' = 1
    \<and> (generation (fst (Join one_completed (demo_join ''g'' ''b''))) ''g'' = generation one_completed ''g''
       \<or> EvJoin (demo_join ''g'' ''b'') = EvRun (CompleteJoin ''g'')
         \<and> generation (fst (Join one_completed (demo_join ''g'' ''b''))) ''g'' = generation one_completed ''g'' + 1)"
proof -
  have "coord_step one_completed (EvJoin (demo_join ''g'' ''b'')) (fst (Join one_completed (demo_join ''g'' ''b'')))"
    using coord_step.request [of "EvJoin (demo_join ''g'' ''b'')" "demo_join ''g'' ''b''"] by simp
  moreover have "generation one_completed ''g'' = 1" by code_simp
  ultimately show ?thesis using generation_changes [OF one_completed_reach] by blast
qed

section \<open>A join timer that outlives its rebalance\<close>

text \<open>
  A group that becomes empty keeps its join timer armed, and the next \<open>Join\<close> arms another
  one without stopping it. When the first goes off, it completes the new rebalance early; when
  the second goes off, it starts a generation nobody asked for: the only member, which joined
  and synced and whose group was stable, is told that its generation is illegal.
\<close>

definition stale_timer_trace :: "event list" where
  "stale_timer_trace =
     [EvJoin (demo_join ''g'' ''a''),
      EvLeave \<lparr>lrGroupID = ''g'', lrMemberID = ''a''\<rparr>,
      EvJoin (demo_join ''g'' ''b''),
      EvFireJoin 2, EvRun (CompleteJoin ''g''),
      EvSync \<lparr>srGroupID = ''g'', srGenerationID = 1, srMemberID = ''b'', srAssignments = [(''b'', Some [1])]\<rparr>]"

theorem stale_join_timer:
  "let c = fold apply_event stale_timer_trace (NewCoordinator 100);
       c' = fold apply_event [EvFireJoin 5, EvRun (CompleteJoin ''g'')] c;
       beat = \<lparr>hrGroupID = ''g'', hrGenerationID = 1, hrMemberID = ''b''\<rparr>
   in Coordinator_State c ''g'' = Stable \<and> snd (Heartbeat c beat) = ErrNone
      \<and> joinArmed c = [(5, ''g'')]
      \<and> Coordinator_State c' ''g'' = CompletingRebalance \<and> generation c' ''g'' = 2
      \<and> snd (Heartbeat c' beat) = ErrIllegalGeneration"
  by code_simp

end
