(* ===== verification/Faults.thy ===== *)
theory Faults
  imports Wire
begin

text \<open>
  The fault-injection switches of a broker (\<open>internal/faults/faults.go\<close>). A \<open>*Config\<close> may be
  nil, and the reading methods then answer as if nothing was injected; the setters are only
  ever called on a configuration. Durations are in nanoseconds.
\<close>

record Config =
  slowFollowerDelay :: int
  dropPings :: bool
  paused :: bool

definition NewConfig :: Config where
  "NewConfig = \<lparr>slowFollowerDelay = 0, dropPings = False, paused = False\<rparr>"

definition SlowFollowerDelay :: "Config option \<Rightarrow> int" where
  "SlowFollowerDelay c = (case c of None \<Rightarrow> 0 | Some c \<Rightarrow> slowFollowerDelay c)"

definition SetSlowFollowerDelay :: "int \<Rightarrow> Config \<Rightarrow> Config" where
  "SetSlowFollowerDelay d c = c\<lparr>slowFollowerDelay := d\<rparr>"

definition DropPings :: "Config option \<Rightarrow> bool" where
  "DropPings c = (case c of None \<Rightarrow> False | Some c \<Rightarrow> dropPings c)"

definition SetDropPings :: "bool \<Rightarrow> Config \<Rightarrow> Config" where
  "SetDropPings v c = c\<lparr>dropPings := v\<rparr>"

definition Paused :: "Config option \<Rightarrow> bool" where
  "Paused c = (case c of None \<Rightarrow> False | Some c \<Rightarrow> paused c)"

definition SetPaused :: "bool \<Rightarrow> Config \<Rightarrow> Config" where
  "SetPaused v c = c\<lparr>paused := v\<rparr>"

record FaultSnapshot =
  SlowFollowerDelayMS :: int
  fsDropPings :: bool
  fsPaused :: bool

text \<open>\<open>Milliseconds\<close> rounds towards zero.\<close>

definition Milliseconds :: "int \<Rightarrow> int" where
  "Milliseconds d = (if d < 0 then - (- d div 1000000) else d div 1000000)"

definition Config_Snapshot :: "Config option \<Rightarrow> FaultSnapshot" where
  "Config_Snapshot c =
     (case c of
        None \<Rightarrow> \<lparr>SlowFollowerDelayMS = 0, fsDropPings = False, fsPaused = False\<rparr>
      | Some c \<Rightarrow> \<lparr>SlowFollowerDelayMS = Milliseconds (slowFollowerDelay c), fsDropPings = dropPings c,
          fsPaused = paused c\<rparr>)"

end
