(* ===== verification/Replication.thy ===== *)
theory Replication
  imports Storage_Manager RecordBatch Topics Membership Faults
begin

text \<open>
  Replication (\<open>internal/replication\<close>): the leader's view of a partition with its high
  watermark and the calls that wait for it (\<open>partition_state.go\<close>), the follower's fetch
  (\<open>fetcher.go\<close>), and the manager that switches partitions between the two roles
  (\<open>manager.go\<close>). Times and durations are integers; every function gets the instants at
  which the code reads the clock.
\<close>

section \<open>The leader's view (partition\_state.go)\<close>

text \<open>
  A waiter is named by a number; \<open>closed\<close> has the waiters whose channel was closed. \<open>uid\<close>
  tells two states of the same partition apart, as their addresses do.
\<close>

record PartitionState =
  uid :: nat
  replicas :: "int32 list"
  leaderID :: int32
  followerOffset :: "(int32, int64) gomap"
  followerSeen :: "(int32, int) gomap"
  leaderEndOffset :: int64
  highWatermark :: int64
  lagTimeout :: int
  waiters :: "(nat \<times> int64) list"
  next_waiter :: nat
  closed :: "nat list"

definition followerInISR :: "PartitionState \<Rightarrow> int32 \<Rightarrow> int \<Rightarrow> bool" where
  "followerInISR s brokerID now =
     (case map_of (followerSeen s) brokerID of None \<Rightarrow> False | Some seen \<Rightarrow> now - seen \<le> lagTimeout s)"

definition offset_of :: "PartitionState \<Rightarrow> int32 \<Rightarrow> int64" where
  "offset_of s brokerID = (case map_of (followerOffset s) brokerID of None \<Rightarrow> 0 | Some off \<Rightarrow> off)"

fun next_hw :: "PartitionState \<Rightarrow> int \<Rightarrow> int32 list \<Rightarrow> int64 \<Rightarrow> int64" where
  "next_hw s now [] nxt = nxt"
| "next_hw s now (brokerID # ids) nxt =
     (if brokerID = leaderID s then next_hw s now ids nxt
      else if \<not> followerInISR s brokerID now then next_hw s now ids nxt
      else if sint (offset_of s brokerID) < sint nxt then next_hw s now ids (offset_of s brokerID)
      else next_hw s now ids nxt)"

definition recompute :: "int \<Rightarrow> PartitionState \<Rightarrow> PartitionState \<times> bool" where
  "recompute now s =
     (let nxt = next_hw s now (replicas s) (leaderEndOffset s)
      in (s\<lparr>highWatermark := nxt\<rparr>, nxt \<noteq> highWatermark s))"

definition releaseWaiters :: "PartitionState \<Rightarrow> PartitionState" where
  "releaseWaiters s =
     s\<lparr>waiters := filter (\<lambda>(w, target). \<not> sint target \<le> sint (highWatermark s)) (waiters s),
       closed := map fst (filter (\<lambda>(w, target). sint target \<le> sint (highWatermark s)) (waiters s)) @ closed s\<rparr>"

definition recompute_release :: "int \<Rightarrow> PartitionState \<Rightarrow> PartitionState" where
  "recompute_release now s =
     (case recompute now s of (s, changed) \<Rightarrow> if changed then releaseWaiters s else s)"

definition NewPartitionState :: "nat \<Rightarrow> int \<Rightarrow> int32 list \<Rightarrow> int32 \<Rightarrow> int \<Rightarrow> PartitionState" where
  "NewPartitionState u now rs lead lag =
     (let followers = filter (\<lambda>b. b \<noteq> lead) rs
      in fst (recompute now
          \<lparr>uid = u, replicas = rs, leaderID = lead,
           followerOffset = fold (\<lambda>b. mput b 0) followers [],
           followerSeen = fold (\<lambda>b. mput b now) followers [],
           leaderEndOffset = 0, highWatermark = 0, lagTimeout = lag,
           waiters = [], next_waiter = 0, closed = []\<rparr>))"

definition RecordFollowerFetch :: "int \<Rightarrow> int \<Rightarrow> int32 \<Rightarrow> int64 \<Rightarrow> int64 \<Rightarrow> PartitionState \<Rightarrow> PartitionState" where
  "RecordFollowerFetch now now' brokerID fetchOffset endOffset s =
     recompute_release now'
       (s\<lparr>followerOffset := mput brokerID fetchOffset (followerOffset s),
          followerSeen := mput brokerID now (followerSeen s),
          leaderEndOffset := endOffset\<rparr>)"

text \<open>
  The first critical section of \<open>WaitForHighWatermark\<close>: \<open>None\<close> when the call returns at once,
  otherwise the waiter on which it parks. It returns without an error once the waiter is
  closed, and with one when the timer is first; it then runs \<open>removeWaiter\<close>.
\<close>

definition WaitForHighWatermark :: "int \<Rightarrow> int64 \<Rightarrow> PartitionState \<Rightarrow> PartitionState \<times> nat option" where
  "WaitForHighWatermark now target s =
     (let s = (if sint (leaderEndOffset s) < sint target then s\<lparr>leaderEndOffset := target\<rparr> else s);
          s = recompute_release now s
      in if sint target \<le> sint (highWatermark s) then (s, None)
         else (s\<lparr>waiters := waiters s @ [(next_waiter s, target)], next_waiter := Suc (next_waiter s)\<rparr>,
               Some (next_waiter s)))"

definition removeWaiter :: "nat \<Rightarrow> PartitionState \<Rightarrow> PartitionState" where
  "removeWaiter want s = s\<lparr>waiters := filter (\<lambda>(w, target). w \<noteq> want) (waiters s)\<rparr>"

definition HighWatermark :: "int \<Rightarrow> int64 \<Rightarrow> PartitionState \<Rightarrow> PartitionState \<times> int64" where
  "HighWatermark now endOffset s =
     (let s = recompute_release now (s\<lparr>leaderEndOffset := endOffset\<rparr>) in (s, highWatermark s))"

definition isr :: "PartitionState \<Rightarrow> int \<Rightarrow> int32 list" where
  "isr s now = leaderID s # filter (\<lambda>b. b \<noteq> leaderID s \<and> followerInISR s b now) (replicas s)"

definition PartitionState_ISR :: "int \<Rightarrow> int \<Rightarrow> PartitionState \<Rightarrow> PartitionState \<times> int32 list" where
  "PartitionState_ISR now now' s = (let s = fst (recompute now s) in (s, isr s now'))"

section \<open>The follower's fetch (fetcher.go)\<close>

record fetcher =
  fTopic :: string
  fPartition :: int32
  fSelfID :: int32
  fLeader :: Broker
  fMaxBytes :: int32

definition buildFetchRequest :: "int32 \<Rightarrow> string \<Rightarrow> int32 \<Rightarrow> int64 \<Rightarrow> int32 \<Rightarrow> bytes" where
  "buildFetchRequest replicaID topicName pt off maxBytes =
     WriteInt32 replicaID @ WriteInt32 0 @ WriteInt32 1 @ WriteArrayLen 1 @ WriteString topicName
     @ WriteArrayLen 1 @ WriteInt32 pt @ WriteInt64 off @ WriteInt32 maxBytes"

definition parse_fetch :: "(bytes option \<times> int16) decoder" where
  "parse_fetch =
     dbind ReadArrayLen (\<lambda>topicCount.
       if topicCount = 0 then dreturn (None, ErrUnknown)
       else dbind ReadString (\<lambda>_. dbind ReadArrayLen (\<lambda>partitionCount.
         if partitionCount = 0 then dreturn (None, ErrUnknown)
         else dbind ReadInt32 (\<lambda>_. dbind ReadInt16 (\<lambda>errorCode. dbind ReadInt64 (\<lambda>_.
           dbind ReadBytes (\<lambda>batches. dreturn (batches, errorCode))))))))"

definition parseFetchPartition :: "bytes \<Rightarrow> go_error + bytes option \<times> int16" where
  "parseFetchPartition resp = map_sum id fst (parse_fetch resp)"

definition frame_len :: "bytes \<Rightarrow> nat" where
  "frame_len b = 12 + unat (be_get (take 4 (drop 8 b)) :: uint32)"

function splitBatches :: "bytes \<Rightarrow> bytes list" where
  "splitBatches b =
     (if 12 \<le> length b \<and> frame_len b \<le> length b
      then take (frame_len b) b # splitBatches (drop (frame_len b) b)
      else [])"
  by pat_completeness auto
termination
  by (relation "measure length") (auto simp: frame_len_def)

declare splitBatches.simps [simp del]

fun append_batches :: "bytes list \<Rightarrow> Log \<Rightarrow> Log" where
  "append_batches [] l = l"
| "append_batches (b # bs) l =
     (case Append l b of (l', Inl err) \<Rightarrow> l' | (l', Inr _) \<Rightarrow> append_batches bs l')"

text \<open>One round of \<open>fetchOnce\<close>. The delay that is injected only lets time pass.\<close>

definition fetchOnce :: "transport \<Rightarrow> Config option \<Rightarrow> fetcher \<Rightarrow> Log \<Rightarrow> Log" where
  "fetchOnce net flt f localLog =
     (if Paused flt then localLog
      else case BrokerClient_Send net (fLeader f)
            \<lparr>APIKey = 1, APIVersion = 0, CorrelationID = 1, ClientID = None\<rparr>
            (buildFetchRequest (fSelfID f) (fTopic f) (fPartition f) (EndOffset localLog) (fMaxBytes f)) of
          Inl err \<Rightarrow> localLog
        | Inr resp \<Rightarrow>
            (case parseFetchPartition resp of
               Inl err \<Rightarrow> localLog
             | Inr (batchBytes, errCode) \<Rightarrow>
                 (if errCode \<noteq> ErrNone then localLog
                  else case batchBytes of
                      None \<Rightarrow> localLog
                    | Some bs \<Rightarrow> append_batches (splitBatches bs) localLog)))"

section \<open>The manager (manager.go)\<close>

record tp =
  tpTopic :: string
  tpPartition :: int32

text \<open>
  A running fetch loop is an entry of \<open>fetchers\<close>: cancelling it takes the entry away. The
  storage manager is shared with the broker and passed along.
\<close>

record ReplicationManager =
  rmSelfID :: int32
  rmMembership :: Membership
  rmLagTimeout :: int
  rmFaults :: "Config option"
  fetchers :: "(tp, fetcher) gomap"
  led :: "(tp, PartitionState) gomap"
  next_uid :: nat

definition NewReplicationManager :: "int32 \<Rightarrow> Membership \<Rightarrow> ReplicationManager" where
  "NewReplicationManager selfid ms =
     \<lparr>rmSelfID = selfid, rmMembership = ms, rmLagTimeout = 10 * 10 ^ 9, rmFaults = Some NewConfig,
      fetchers = [], led = [], next_uid = 0\<rparr>"

definition UseFaults :: "Config option \<Rightarrow> ReplicationManager \<Rightarrow> ReplicationManager" where
  "UseFaults c m = (case c of None \<Rightarrow> m | Some _ \<Rightarrow> m\<lparr>rmFaults := c\<rparr>)"

definition containsBroker :: "int32 list \<Rightarrow> int32 \<Rightarrow> bool" where
  "containsBroker ids want = list_ex (\<lambda>i. i = want) ids"

definition stopFollowingKey :: "tp \<Rightarrow> ReplicationManager \<Rightarrow> ReplicationManager" where
  "stopFollowingKey key m = m\<lparr>fetchers := mdel key (fetchers m)\<rparr>"

definition lead_key :: "int \<Rightarrow> tp \<Rightarrow> int32 list \<Rightarrow> ReplicationManager \<Rightarrow> ReplicationManager" where
  "lead_key now key rs m =
     (case map_of (led m) key of
        Some _ \<Rightarrow> m
      | None \<Rightarrow>
          m\<lparr>led := mput key (NewPartitionState (next_uid m) now rs (rmSelfID m) (rmLagTimeout m)) (led m),
            next_uid := Suc (next_uid m)\<rparr>)"

definition start_partition ::
    "int \<Rightarrow> string \<Rightarrow> Partition \<Rightarrow> ReplicationManager \<times> Manager \<Rightarrow> ReplicationManager \<times> Manager" where
  "start_partition now topic pt mm =
     (case mm of (m, st) \<Rightarrow>
        (if Replicas pt = [] \<or> \<not> containsBroker (Replicas pt) (rmSelfID m) then (m, st)
         else
           (let key = \<lparr>tpTopic = topic, tpPartition = ID pt\<rparr>
            in if Leader pt = rmSelfID m then
                 (lead_key now key (if ISR pt = [] then Replicas pt else ISR pt) (stopFollowingKey key m), st)
               else case Membership_Get (rmMembership m) (Leader pt) of
                   None \<Rightarrow> (m, st)
                 | Some leader \<Rightarrow>
                     (case Manager_Log st topic (ID pt) of
                        (st, Inl err) \<Rightarrow> (m, st)
                      | (st, Inr _) \<Rightarrow>
                          (if map_of (fetchers m) key \<noteq> None then (m, st)
                           else (m\<lparr>led := mdel key (led m),
                                   fetchers := mput key
                                     \<lparr>fTopic = topic, fPartition = ID pt, fSelfID = rmSelfID m,
                                      fLeader = leader, fMaxBytes = 2 ^ 20\<rparr> (fetchers m)\<rparr>, st))))))"

definition StartFollowing ::
    "int \<Rightarrow> Topic \<Rightarrow> ReplicationManager \<times> Manager \<Rightarrow> ReplicationManager \<times> Manager" where
  "StartFollowing now t mm = fold (start_partition now (Name t)) (PartitionList t) mm"

definition StopFollowing :: "string \<Rightarrow> int32 \<Rightarrow> ReplicationManager \<Rightarrow> ReplicationManager" where
  "StopFollowing topic pt m = stopFollowingKey \<lparr>tpTopic = topic, tpPartition = pt\<rparr> m"

definition Lead :: "int \<Rightarrow> string \<Rightarrow> int32 \<Rightarrow> int32 list \<Rightarrow> ReplicationManager \<Rightarrow> ReplicationManager" where
  "Lead now topic pt rs m =
     (let key = \<lparr>tpTopic = topic, tpPartition = pt\<rparr> in lead_key now key rs (stopFollowingKey key m))"

definition partitionState :: "ReplicationManager \<Rightarrow> string \<Rightarrow> int32 \<Rightarrow> PartitionState option" where
  "partitionState m topic pt = map_of (led m) \<lparr>tpTopic = topic, tpPartition = pt\<rparr>"

definition put_state :: "string \<Rightarrow> int32 \<Rightarrow> PartitionState \<Rightarrow> ReplicationManager \<Rightarrow> ReplicationManager" where
  "put_state topic pt s m = m\<lparr>led := mput \<lparr>tpTopic = topic, tpPartition = pt\<rparr> s (led m)\<rparr>"

definition Manager_RecordFollowerFetch ::
    "int \<Rightarrow> string \<Rightarrow> int32 \<Rightarrow> int32 \<Rightarrow> int64 \<Rightarrow> int64 \<Rightarrow> ReplicationManager \<Rightarrow> ReplicationManager" where
  "Manager_RecordFollowerFetch now topic pt brokerID fetchOffset endOffset m =
     (case partitionState m topic pt of
        None \<Rightarrow> m
      | Some s \<Rightarrow> put_state topic pt (RecordFollowerFetch now now brokerID fetchOffset endOffset s) m)"

text \<open>The waiter is returned with the state it belongs to.\<close>

definition Manager_WaitForHighWatermark ::
    "int \<Rightarrow> string \<Rightarrow> int32 \<Rightarrow> int64 \<Rightarrow> ReplicationManager \<Rightarrow> ReplicationManager \<times> (nat \<times> nat) option" where
  "Manager_WaitForHighWatermark now topic pt target m =
     (case partitionState m topic pt of
        None \<Rightarrow> (m, None)
      | Some s \<Rightarrow>
          (case WaitForHighWatermark now target s of
             (s', w) \<Rightarrow> (put_state topic pt s' m, map_option (Pair (uid s)) w)))"

definition Manager_HighWatermark ::
    "int \<Rightarrow> string \<Rightarrow> int32 \<Rightarrow> int64 \<Rightarrow> ReplicationManager \<Rightarrow> ReplicationManager \<times> int64" where
  "Manager_HighWatermark now topic pt endOffset m =
     (case partitionState m topic pt of
        None \<Rightarrow> (m, endOffset)
      | Some s \<Rightarrow> (case HighWatermark now endOffset s of (s', hw) \<Rightarrow> (put_state topic pt s' m, hw)))"

definition Manager_ISR :: "int \<Rightarrow> string \<Rightarrow> int32 \<Rightarrow> ReplicationManager \<Rightarrow> ReplicationManager \<times> int32 list" where
  "Manager_ISR now topic pt m =
     (case partitionState m topic pt of
        None \<Rightarrow> (m, [])
      | Some s \<Rightarrow> (case PartitionState_ISR now now s of (s', ids) \<Rightarrow> (put_state topic pt s' m, ids)))"

definition StopAll :: "ReplicationManager \<Rightarrow> ReplicationManager" where
  "StopAll m = m\<lparr>fetchers := []\<rparr>"

end
