(* ===== verification/Broker_Node.thy ===== *)
theory Broker_Node
  imports Replication MetadataLog OffsetStore Producer Group Assignor
begin

text \<open>
  The broker (\<open>internal/network\<close>): its state and the operations behind the requests, namely
  producing to and fetching from a partition, the list of offsets, topic creation and
  deletion, the application of metadata and the reassignment of partitions after a failure.

  Every function gets the time at which it runs. A call that parks, waiting for replicas,
  gets \<open>env\<close>: what the rest of the broker does until the call goes on. A pointer that may be
  nil is an option.
\<close>

section \<open>State (dispatch.go)\<close>

text \<open>
  The offset store's log is the one that the storage manager has for \<open>__consumer_offsets\<close>, so
  the broker keeps only the store's map. \<open>bControllerID\<close> is what the function of that name
  returns at the moment, \<open>sent\<close> the requests this broker has sent to its peers.
\<close>

record BrokerNode =
  NodeID :: int32
  bHost :: string
  bPort :: int32
  bTopics :: Registry
  bLogs :: Manager
  bGroups :: Coordinator
  bOffsets :: "(offset_key, int64) gomap option"
  bProducers :: ProducerManager
  bCluster :: "Membership option"
  bReplication :: "ReplicationManager option"
  bIsPeerAlive :: "(int32 \<Rightarrow> bool) option"
  bControllerID :: "int32 option"
  bMetadataLog :: "Log option"
  bFaults :: "Config option"
  sent :: "(Broker \<times> bytes) list"

definition offsets_topic :: string where
  "offsets_topic = ''__consumer_offsets''"

text \<open>The lookup at the start of the partition operations, with its bounds checks.\<close>

definition partition_at :: "Registry \<Rightarrow> string \<Rightarrow> int32 \<Rightarrow> Partition option" where
  "partition_at reg name idx =
     (case Registry_Get reg name of
        None \<Rightarrow> None
      | Some t \<Rightarrow>
          (if sint idx < 0 \<or> int (length (PartitionList t)) \<le> sint idx then None
           else Some (PartitionList t ! nat (sint idx))))"

section \<open>Produce (produce.go)\<close>

record producePartitionResponse =
  ppIndex :: int32
  ppErrorCode :: int16
  ppBaseOffset :: int64

definition released :: "BrokerNode \<Rightarrow> string \<Rightarrow> int32 \<Rightarrow> nat \<times> nat \<Rightarrow> bool" where
  "released b name idx waiter =
     (case Option.bind (bReplication b) (\<lambda>rm. partitionState rm name idx) of
        None \<Rightarrow> False
      | Some s \<Rightarrow> uid s = fst waiter \<and> snd waiter \<in> set (closed s))"

definition stop_waiting :: "BrokerNode \<Rightarrow> string \<Rightarrow> int32 \<Rightarrow> nat \<times> nat \<Rightarrow> BrokerNode" where
  "stop_waiting b name idx waiter =
     (case bReplication b of
        None \<Rightarrow> b
      | Some rm \<Rightarrow>
          (case partitionState rm name idx of
             None \<Rightarrow> b
           | Some s \<Rightarrow>
               (if uid s = fst waiter
                then b\<lparr>bReplication := Some (put_state name idx (removeWaiter (snd waiter) s) rm)\<rparr>
                else b)))"

definition waitForAllAcks ::
    "(BrokerNode \<Rightarrow> BrokerNode) \<Rightarrow> int \<Rightarrow> string \<Rightarrow> int32 \<Rightarrow> int64 \<Rightarrow> int16
     \<Rightarrow> BrokerNode \<Rightarrow> producePartitionResponse \<Rightarrow> BrokerNode \<times> producePartitionResponse" where
  "waitForAllAcks env now name idx base acks b response =
     (if acks \<noteq> -1 \<or> ppErrorCode response \<noteq> ErrNone then (b, response)
      else case bReplication b of
          None \<Rightarrow> (b, response)
        | Some rm \<Rightarrow>
            (case Manager_WaitForHighWatermark now name idx (base + 1) rm of
               (rm', None) \<Rightarrow> (b\<lparr>bReplication := Some rm'\<rparr>, response)
             | (rm', Some waiter) \<Rightarrow>
                 (let b = env (b\<lparr>bReplication := Some rm'\<rparr>)
                  in if released b name idx waiter then (b, response)
                     else (stop_waiting b name idx waiter, response\<lparr>ppErrorCode := ErrRequestTimedOut\<rparr>))))"

definition producePartition ::
    "(BrokerNode \<Rightarrow> BrokerNode) \<Rightarrow> int \<Rightarrow> string \<Rightarrow> int32 \<Rightarrow> bytes \<Rightarrow> int16
     \<Rightarrow> BrokerNode \<Rightarrow> BrokerNode \<times> producePartitionResponse" where
  "producePartition env now name idx batch acks b =
     (let response = \<lparr>ppIndex = idx, ppErrorCode = ErrUnknown, ppBaseOffset = -1\<rparr>
      in case partition_at (bTopics b) name idx of
          None \<Rightarrow> (b, response\<lparr>ppErrorCode := ErrUnknownTopicOrPartition\<rparr>)
        | Some p \<Rightarrow>
            (if Leader p \<noteq> NodeID b then (b, response\<lparr>ppErrorCode := ErrNotLeaderForPartition\<rparr>)
             else if \<not> validRecordBatch batch then (b, response\<lparr>ppErrorCode := ErrCorruptMessage\<rparr>)
             else
               (let pd = be_get (bslice 43 51 batch) :: int64;
                    baseSeq = be_get (bslice 53 57 batch) :: int32;
                    recordCount = be_get (bslice 57 61 batch) :: int32
                in case Manager_Log (bLogs b) name idx of
                    (st, Inl err) \<Rightarrow> (b\<lparr>bLogs := st\<rparr>, response)
                  | (st, Inr partitionLog) \<Rightarrow>
                      (if 0 \<le> sint pd then
                         (case AppendBatch (bProducers b) pd name idx baseSeq recordCount
                                 (append_stamped batch) partitionLog of
                            (pm, l, Inl err) \<Rightarrow>
                              (b\<lparr>bProducers := pm, bLogs := put_log st name idx l\<rparr>, response)
                          | (pm, l, Inr check) \<Rightarrow>
                              (let b = b\<lparr>bProducers := pm, bLogs := put_log st name idx l\<rparr>;
                                   response =
                                     (case decision check of
                                        Duplicate \<Rightarrow> response\<lparr>ppErrorCode := ErrNone, ppBaseOffset := CachedOffset check\<rparr>
                                      | OutOfOrder \<Rightarrow> response\<lparr>ppErrorCode := ErrOutOfOrderSequenceNumber, ppBaseOffset := -1\<rparr>
                                      | AppendBatchNow \<Rightarrow> response\<lparr>ppErrorCode := ErrNone, ppBaseOffset := CachedOffset check\<rparr>)
                               in if decision check = AppendBatchNow
                                  then waitForAllAcks env now name idx (ppBaseOffset response) acks b response
                                  else (b, response)))
                       else
                         (case append_stamped batch partitionLog of
                            (l, Inl err) \<Rightarrow> (b\<lparr>bLogs := put_log st name idx l\<rparr>, response)
                          | (l, Inr base) \<Rightarrow>
                              waitForAllAcks env now name idx base acks (b\<lparr>bLogs := put_log st name idx l\<rparr>)
                                (response\<lparr>ppErrorCode := ErrNone, ppBaseOffset := base\<rparr>))))))"

section \<open>Fetch (fetch.go)\<close>

record fetchPartitionResponse =
  fpIndex :: int32
  fpErrorCode :: int16
  fpHighWatermark :: int64
  fpRecords :: bytes

definition joinRecordPayloads :: "LogRecord list \<Rightarrow> bytes" where
  "joinRecordPayloads rs = concat (map Payload rs)"

definition high_watermark :: "int \<Rightarrow> string \<Rightarrow> int32 \<Rightarrow> int64 \<Rightarrow> BrokerNode \<Rightarrow> BrokerNode \<times> int64" where
  "high_watermark now name idx endOffset b =
     (case bReplication b of
        None \<Rightarrow> (b, endOffset)
      | Some rm \<Rightarrow>
          (case Manager_HighWatermark now name idx endOffset rm of
             (rm', hw) \<Rightarrow> (b\<lparr>bReplication := Some rm'\<rparr>, hw)))"

definition record_fetch :: "int \<Rightarrow> int32 \<Rightarrow> string \<Rightarrow> int32 \<Rightarrow> int64 \<Rightarrow> int64 \<Rightarrow> BrokerNode \<Rightarrow> BrokerNode" where
  "record_fetch now replicaID name idx fetchOffset endOffset b =
     (case bReplication b of
        None \<Rightarrow> b
      | Some rm \<Rightarrow>
          (if 0 \<le> sint replicaID
           then b\<lparr>bReplication := Some (Manager_RecordFollowerFetch now name idx replicaID fetchOffset endOffset rm)\<rparr>
           else b))"

definition fetchPartition ::
    "int \<Rightarrow> int32 \<Rightarrow> string \<Rightarrow> int32 \<Rightarrow> int64 \<Rightarrow> int32 \<Rightarrow> BrokerNode \<Rightarrow> BrokerNode \<times> fetchPartitionResponse" where
  "fetchPartition now replicaID name idx fetchOffset maxBytes b =
     (let response = \<lparr>fpIndex = idx, fpErrorCode = 0, fpHighWatermark = 0, fpRecords = []\<rparr>
      in case partition_at (bTopics b) name idx of
          None \<Rightarrow> (b, response\<lparr>fpErrorCode := ErrUnknownTopicOrPartition\<rparr>)
        | Some p \<Rightarrow>
            (case Manager_Log (bLogs b) name idx of
               (st, Inl err) \<Rightarrow> (b\<lparr>bLogs := st\<rparr>, response\<lparr>fpErrorCode := ErrUnknown\<rparr>)
             | (st, Inr partitionLog) \<Rightarrow>
                 (let endOffset = EndOffset partitionLog;
                      b = record_fetch now replicaID name idx fetchOffset endOffset (b\<lparr>bLogs := st\<rparr>);
                      (b, hw) = high_watermark now name idx endOffset b;
                      response = response\<lparr>fpHighWatermark := hw\<rparr>
                  in if sint fetchOffset < 0 \<or> sint endOffset < sint fetchOffset
                     then (b, response\<lparr>fpErrorCode := ErrOffsetOutOfRange\<rparr>)
                     else if fetchOffset = endOffset then (b, response\<lparr>fpErrorCode := ErrNone\<rparr>)
                     else case Read partitionLog fetchOffset (sint maxBytes) of
                         Inl err \<Rightarrow> (b, response\<lparr>fpErrorCode := ErrUnknown\<rparr>)
                       | Inr rs \<Rightarrow> (b, response\<lparr>fpErrorCode := ErrNone, fpRecords := joinRecordPayloads rs\<rparr>))))"

section \<open>Offsets of a partition (list\_offsets.go)\<close>

definition listOffsetLatest :: int64 where "listOffsetLatest = -1"
definition listOffsetEarliest :: int64 where "listOffsetEarliest = -2"

record listOffsetsPartitionResponse =
  loIndex :: int32
  loErrorCode :: int16
  loTimestamp :: int64
  loOffset :: int64

definition listOffset :: "string \<Rightarrow> int32 \<Rightarrow> int64 \<Rightarrow> BrokerNode \<Rightarrow> BrokerNode \<times> listOffsetsPartitionResponse" where
  "listOffset name idx timestamp b =
     (let response = \<lparr>loIndex = idx, loErrorCode = ErrUnknownTopicOrPartition, loTimestamp = -1, loOffset = -1\<rparr>
      in case partition_at (bTopics b) name idx of
          None \<Rightarrow> (b, response)
        | Some p \<Rightarrow>
            (case Manager_Log (bLogs b) name idx of
               (st, Inl err) \<Rightarrow> (b\<lparr>bLogs := st\<rparr>, response\<lparr>loErrorCode := ErrUnknown\<rparr>)
             | (st, Inr partitionLog) \<Rightarrow>
                 (b\<lparr>bLogs := st\<rparr>,
                  response\<lparr>loErrorCode := ErrNone,
                    loOffset := (if timestamp = listOffsetLatest then EndOffset partitionLog
                                 else if timestamp = listOffsetEarliest then StartOffset partitionLog
                                 else StartOffset partitionLog)\<rparr>)))"

section \<open>Metadata (apply\_topic.go, metadata\_record.go, failover.go)\<close>

definition applyTopic :: "int \<Rightarrow> string \<Rightarrow> Partition list \<Rightarrow> BrokerNode \<Rightarrow> BrokerNode" where
  "applyTopic now name parts b =
     (let t = \<lparr>Name = name, PartitionList = parts\<rparr>;
          b = b\<lparr>bTopics := Registry_Upsert (bTopics b) t\<rparr>
      in case bReplication b of
          None \<Rightarrow> b
        | Some rm \<Rightarrow>
            (case StartFollowing now t (fold (\<lambda>p. StopFollowing name (ID p)) parts rm, bLogs b) of
               (rm', st) \<Rightarrow> b\<lparr>bReplication := Some rm', bLogs := st\<rparr>))"

definition ApplyMetadataRecord :: "int \<Rightarrow> Record \<Rightarrow> BrokerNode \<Rightarrow> BrokerNode" where
  "ApplyMetadataRecord now r b =
     (case Type r of
        TopicUpsert \<Rightarrow> applyTopic now (RecordTopic r) (RecordPartitions r) b
      | TopicDelete \<Rightarrow> b\<lparr>bTopics := fst (Registry_Delete (bTopics b) (RecordTopic r))\<rparr>)"

definition controllerID :: "BrokerNode \<Rightarrow> int32" where
  "controllerID b = (case bControllerID b of None \<Rightarrow> NodeID b | Some c \<Rightarrow> c)"

definition peerAlive :: "BrokerNode \<Rightarrow> int32 \<Rightarrow> bool" where
  "peerAlive b i =
     (if i = NodeID b then True else case bIsPeerAlive b of None \<Rightarrow> True | Some f \<Rightarrow> f i)"

definition liveISR :: "BrokerNode \<Rightarrow> int32 list \<Rightarrow> int32 \<Rightarrow> int32 list" where
  "liveISR b ids deadID = sort_key sint (filter (\<lambda>i. i \<noteq> deadID \<and> peerAlive b i) ids)"

definition internalApplyTopicKey :: int16 where
  "internalApplyTopicKey = 1000"

definition writeInt32Array :: "int32 list \<Rightarrow> bytes" where
  "writeInt32Array = WriteArray WriteInt32"

definition readInt32Array :: "int32 list decoder" where
  "readInt32Array = ReadArray ReadInt32"

definition encodeApplyTopic :: "string \<Rightarrow> Partition list \<Rightarrow> bytes" where
  "encodeApplyTopic name parts =
     WriteString name
     @ WriteArray (\<lambda>p. WriteInt32 (ID p) @ WriteInt32 (Leader p) @ writeInt32Array (Replicas p)
         @ writeInt32Array (ISR p)) parts"

definition decodeApplyTopic :: "(string \<times> Partition list) decoder" where
  "decodeApplyTopic =
     dbind ReadString (\<lambda>name.
     dbind (ReadArray (dbind ReadInt32 (\<lambda>i. dbind ReadInt32 (\<lambda>lead. dbind readInt32Array (\<lambda>rs.
       dbind readInt32Array (\<lambda>sync. dreturn \<lparr>ID = i, Leader = lead, Replicas = rs, ISR = sync\<rparr>)))))) (\<lambda>parts.
     dreturn (name, parts)))"

text \<open>Best effort: the results of the requests are only logged.\<close>

definition fanOutTopic :: "string \<Rightarrow> Partition list \<Rightarrow> BrokerNode \<Rightarrow> BrokerNode" where
  "fanOutTopic name parts b =
     (case bCluster b of
        None \<Rightarrow> b
      | Some ms \<Rightarrow>
          b\<lparr>sent := sent b @ map (\<lambda>peer. (peer, WriteRequestHeader
                \<lparr>APIKey = internalApplyTopicKey, APIVersion = 0, CorrelationID = 1, ClientID = None\<rparr>
                @ encodeApplyTopic name parts))
              (filter (\<lambda>peer. BrokerID peer \<noteq> NodeID b \<and> peerAlive b (BrokerID peer)) (Membership_All ms))\<rparr>)"

definition reassign :: "BrokerNode \<Rightarrow> int32 \<Rightarrow> Partition \<Rightarrow> Partition \<times> bool" where
  "reassign b deadID p =
     (if Leader p \<noteq> deadID then (p, False)
      else
        (let live = liveISR b (ISR p) deadID
         in if live = [] then (p, False) else (p\<lparr>Leader := hd live, ISR := live\<rparr>, True)))"

definition failover_topic :: "int \<Rightarrow> int32 \<Rightarrow> Topic \<Rightarrow> BrokerNode \<Rightarrow> BrokerNode" where
  "failover_topic now deadID t b =
     (let ps = map (reassign b deadID) (PartitionList t);
          parts = map fst ps;
          r = \<lparr>Type = TopicUpsert, RecordTopic = Name t, RecordPartitions = parts\<rparr>
      in if \<not> list_ex snd ps then b
         else case bMetadataLog b of
             None \<Rightarrow> fanOutTopic (Name t) parts (applyTopic now (Name t) parts b)
           | Some ml \<Rightarrow>
               (case MetadataLog_Append ml r of
                  (ml', Inl err) \<Rightarrow> b\<lparr>bMetadataLog := Some ml'\<rparr>
                | (ml', Inr _) \<Rightarrow> ApplyMetadataRecord now r (b\<lparr>bMetadataLog := Some ml'\<rparr>)))"

definition OnPeerDown :: "int \<Rightarrow> int32 \<Rightarrow> BrokerNode \<Rightarrow> BrokerNode" where
  "OnPeerDown now deadID b =
     (if controllerID b \<noteq> NodeID b then b
      else fold (failover_topic now deadID) (Registry_All (bTopics b)) b)"

section \<open>Topics (create\_topics.go, delete\_topics.go)\<close>

definition brokerIDs :: "BrokerNode \<Rightarrow> int32 list" where
  "brokerIDs b = (case bCluster b of None \<Rightarrow> [NodeID b] | Some ms \<Rightarrow> map BrokerID (Membership_All ms))"

definition new_partitions :: "int32 list list \<Rightarrow> Partition list" where
  "new_partitions rss =
     map (\<lambda>(i, rs). \<lparr>ID = of_nat i, Leader = hd rs, Replicas = rs, ISR = rs\<rparr>) (enumerate 0 rss)"

definition createTopic :: "int \<Rightarrow> string \<Rightarrow> int32 \<Rightarrow> int16 \<Rightarrow> bool \<Rightarrow> BrokerNode \<Rightarrow> BrokerNode \<times> int16" where
  "createTopic now name numPartitions replicationFactor fanOut b =
     (if sint numPartitions \<le> 0 then (b, ErrInvalidPartitions)
      else if sint replicationFactor \<le> 0 \<or> int (length (brokerIDs b)) < sint replicationFactor
        then (b, ErrInvalidReplicationFactor)
      else
        (let parts = new_partitions (AssignReplicas numPartitions (brokerIDs b) (sint replicationFactor));
             t = \<lparr>Name = name, PartitionList = parts\<rparr>;
             r = \<lparr>Type = TopicUpsert, RecordTopic = name, RecordPartitions = parts\<rparr>
         in case bMetadataLog b of
             Some ml \<Rightarrow>
               (if Registry_Get (bTopics b) name \<noteq> None then (b, ErrTopicAlreadyExists)
                else case MetadataLog_Append ml r of
                    (ml', Inl err) \<Rightarrow> (b\<lparr>bMetadataLog := Some ml'\<rparr>, ErrUnknown)
                  | (ml', Inr _) \<Rightarrow> (ApplyMetadataRecord now r (b\<lparr>bMetadataLog := Some ml'\<rparr>), ErrNone))
           | None \<Rightarrow>
               (case Registry_Create (bTopics b) t of
                  (reg, Some ErrTopicExists) \<Rightarrow> (b\<lparr>bTopics := reg\<rparr>, ErrTopicAlreadyExists)
                | (reg, Some _) \<Rightarrow> (b\<lparr>bTopics := reg\<rparr>, ErrUnknown)
                | (reg, None) \<Rightarrow>
                    (let b = b\<lparr>bTopics := reg\<rparr>;
                         b = (case bReplication b of
                                None \<Rightarrow> b
                              | Some rm \<Rightarrow>
                                  (case StartFollowing now t (rm, bLogs b) of
                                     (rm', st) \<Rightarrow> b\<lparr>bReplication := Some rm', bLogs := st\<rparr>))
                     in (if fanOut then fanOutTopic name parts b else b, ErrNone)))))"

definition deleteTopic :: "int \<Rightarrow> string \<Rightarrow> BrokerNode \<Rightarrow> BrokerNode \<times> int16" where
  "deleteTopic now name b =
     (let r = \<lparr>Type = TopicDelete, RecordTopic = name, RecordPartitions = []\<rparr>
      in case bMetadataLog b of
          Some ml \<Rightarrow>
            (if Registry_Get (bTopics b) name = None then (b, ErrUnknownTopicOrPartition)
             else case MetadataLog_Append ml r of
                 (ml', Inl err) \<Rightarrow> (b\<lparr>bMetadataLog := Some ml'\<rparr>, ErrUnknown)
               | (ml', Inr _) \<Rightarrow> (ApplyMetadataRecord now r (b\<lparr>bMetadataLog := Some ml'\<rparr>), ErrNone))
        | None \<Rightarrow>
            (case Registry_Delete (bTopics b) name of
               (reg, Some ErrTopicNotFound) \<Rightarrow> (b\<lparr>bTopics := reg\<rparr>, ErrUnknownTopicOrPartition)
             | (reg, Some _) \<Rightarrow> (b\<lparr>bTopics := reg\<rparr>, ErrUnknown)
             | (reg, None) \<Rightarrow> (b\<lparr>bTopics := reg\<rparr>, ErrNone)))"

text \<open>The guard of the two requests: with a metadata log only the controller changes topics.\<close>

definition refuses_topics :: "BrokerNode \<Rightarrow> bool" where
  "refuses_topics b \<longleftrightarrow> bMetadataLog b \<noteq> None \<and> controllerID b \<noteq> NodeID b"

section \<open>Committed offsets\<close>

text \<open>\<open>b.Offsets.Commit\<close> on the log that the storage manager has for the store.\<close>

definition commit_offset ::
    "int64 \<Rightarrow> string \<Rightarrow> string \<Rightarrow> int32 \<Rightarrow> int64 \<Rightarrow> BrokerNode \<Rightarrow> BrokerNode \<times> go_error option" where
  "commit_offset now g name idx off b =
     (case (bOffsets b, map_of (logs (bLogs b)) (logKey offsets_topic 0)) of
        (Some m, Some l) \<Rightarrow>
          (case Commit now \<lparr>store_log = l, offsets = m\<rparr> g name idx off of
             (s, err) \<Rightarrow>
               (b\<lparr>bOffsets := Some (offsets s), bLogs := put_log (bLogs b) offsets_topic 0 (store_log s)\<rparr>, err))
      | _ \<Rightarrow> (b, Some Panic))"

definition fetch_offset :: "string \<Rightarrow> string \<Rightarrow> int32 \<Rightarrow> BrokerNode \<Rightarrow> go_error + int64" where
  "fetch_offset g name idx b =
     (case (bOffsets b, map_of (logs (bLogs b)) (logKey offsets_topic 0)) of
        (Some m, Some l) \<Rightarrow> Inr (Fetch \<lparr>store_log = l, offsets = m\<rparr> g name idx)
      | _ \<Rightarrow> Inl Panic)"

end
