(* ===== verification/Broker_Handlers.thy ===== *)
theory Broker_Handlers
  imports Broker_Node
begin

text \<open>
  The request handlers of the broker (\<open>internal/network\<close>) and the dispatcher. A handler
  decodes the body and works on the broker as it goes: what it has done stays done when a
  later field cannot be read. The two handlers that park for as long as the coordinator likes
  return \<open>None\<close> while they do.
\<close>

section \<open>Decoding while acting\<close>

type_synonym ('s, 'a) reader = "'s \<Rightarrow> bytes \<Rightarrow> 's \<times> (go_error + 'a \<times> bytes)"

definition rread :: "'a decoder \<Rightarrow> ('s, 'a) reader" where
  "rread d = (\<lambda>s bs. (s, d bs))"

definition rdo :: "('s \<Rightarrow> 's \<times> 'a) \<Rightarrow> ('s, 'a) reader" where
  "rdo f = (\<lambda>s bs. case f s of (s', x) \<Rightarrow> (s', Inr (x, bs)))"

definition rreturn :: "'a \<Rightarrow> ('s, 'a) reader" where
  "rreturn x = (\<lambda>s bs. (s, Inr (x, bs)))"

definition rbind :: "('s, 'a) reader \<Rightarrow> ('a \<Rightarrow> ('s, 'b) reader) \<Rightarrow> ('s, 'b) reader" where
  "rbind r f = (\<lambda>s bs. case r s bs of (s', Inl e) \<Rightarrow> (s', Inl e) | (s', Inr (x, bs')) \<Rightarrow> f x s' bs')"

fun rtimes :: "nat \<Rightarrow> ('s, 'a) reader \<Rightarrow> ('s, 'a list) reader" where
  "rtimes 0 r = rreturn []"
| "rtimes (Suc n) r = rbind r (\<lambda>x. rbind (rtimes n r) (\<lambda>xs. rreturn (x # xs)))"

text \<open>An array as in \<open>ReadArray\<close>: \<open>make\<close> panics on a negative capacity.\<close>

definition rarray :: "('s, 'a) reader \<Rightarrow> ('s, 'a list) reader" where
  "rarray r = rbind (rread ReadArrayLen) (\<lambda>n. if n < 0 then rread (dfail Panic) else rtimes (nat n) r)"

definition run_reader :: "('s, 'a) reader \<Rightarrow> 's \<Rightarrow> bytes \<Rightarrow> 's \<times> (go_error + 'a)" where
  "run_reader r s body = (case r s body of (s', res) \<Rightarrow> (s', map_sum id fst res))"

text \<open>The topics of a request with their partitions, each handled as it is read.\<close>

definition rtopics :: "(string \<Rightarrow> ('s, 'a) reader) \<Rightarrow> ('s, (string \<times> 'a list) list) reader" where
  "rtopics r = rarray (rbind (rread ReadString) (\<lambda>name. rbind (rarray (r name)) (\<lambda>ps. rreturn (name, ps))))"

definition write_topics :: "('a \<Rightarrow> bytes) \<Rightarrow> (string \<times> 'a list) list \<Rightarrow> bytes" where
  "write_topics w = WriteArray (\<lambda>(name, ps). WriteString name @ WriteArray w ps)"

section \<open>Produce, fetch, list offsets\<close>

definition bytes_of :: "bytes option \<Rightarrow> bytes" where
  "bytes_of b = (case b of None \<Rightarrow> [] | Some bs \<Rightarrow> bs)"

definition writeProduceResponse :: "(string \<times> producePartitionResponse list) list \<Rightarrow> bytes" where
  "writeProduceResponse =
     write_topics (\<lambda>p. WriteInt32 (ppIndex p) @ WriteInt16 (ppErrorCode p) @ WriteInt64 (ppBaseOffset p))"

definition handleProduce ::
    "(BrokerNode \<Rightarrow> BrokerNode) \<Rightarrow> int \<Rightarrow> BrokerNode \<Rightarrow> bytes \<Rightarrow> BrokerNode \<times> (go_error + bytes)" where
  "handleProduce env now b body = run_reader
     (rbind (rread ReadInt16) (\<lambda>acks.
      rbind (rread ReadInt32) (\<lambda>timeoutMS.
      rbind (rtopics (\<lambda>name.
        rbind (rread ReadInt32) (\<lambda>idx.
        rbind (rread ReadBytes) (\<lambda>batch.
        rdo (producePartition env now name idx (bytes_of batch) acks))))) (\<lambda>responses.
      rreturn (writeProduceResponse responses))))) b body"

definition writeFetchResponse :: "(string \<times> fetchPartitionResponse list) list \<Rightarrow> bytes" where
  "writeFetchResponse =
     write_topics (\<lambda>p. WriteInt32 (fpIndex p) @ WriteInt16 (fpErrorCode p) @ WriteInt64 (fpHighWatermark p)
       @ WriteBytes (fpRecords p))"

definition handleFetch :: "int \<Rightarrow> BrokerNode \<Rightarrow> bytes \<Rightarrow> BrokerNode \<times> (go_error + bytes)" where
  "handleFetch now b body = run_reader
     (rbind (rread ReadInt32) (\<lambda>replicaID.
      rbind (rread ReadInt32) (\<lambda>_.
      rbind (rread ReadInt32) (\<lambda>_.
      rbind (rtopics (\<lambda>name.
        rbind (rread ReadInt32) (\<lambda>idx.
        rbind (rread ReadInt64) (\<lambda>fetchOffset.
        rbind (rread ReadInt32) (\<lambda>maxBytes.
        rdo (fetchPartition now replicaID name idx fetchOffset maxBytes)))))) (\<lambda>responses.
      rreturn (writeFetchResponse responses)))))) b body"

definition writeListOffsetsResponse :: "(string \<times> listOffsetsPartitionResponse list) list \<Rightarrow> bytes" where
  "writeListOffsetsResponse =
     write_topics (\<lambda>p. WriteInt32 (loIndex p) @ WriteInt16 (loErrorCode p) @ WriteInt64 (loTimestamp p)
       @ WriteInt64 (loOffset p))"

definition handleListOffsets :: "BrokerNode \<Rightarrow> bytes \<Rightarrow> BrokerNode \<times> (go_error + bytes)" where
  "handleListOffsets b body = run_reader
     (rbind (rread ReadInt32) (\<lambda>_.
      rbind (rtopics (\<lambda>name.
        rbind (rread ReadInt32) (\<lambda>idx.
        rbind (rread ReadInt64) (\<lambda>timestamp.
        rdo (listOffset name idx timestamp))))) (\<lambda>responses.
      rreturn (writeListOffsetsResponse responses)))) b body"

section \<open>Committed offsets\<close>

text \<open>A nil store makes the commit panic; any other error becomes an error code.\<close>

definition commit_partition :: "int64 \<Rightarrow> string \<Rightarrow> string \<Rightarrow> (BrokerNode, int32 \<times> int16) reader" where
  "commit_partition now g name =
     rbind (rread ReadInt32) (\<lambda>idx.
     rbind (rread ReadInt64) (\<lambda>off.
     rbind (rread ReadNullableString) (\<lambda>_.
     rbind (rdo (commit_offset now g name idx off)) (\<lambda>err.
     case err of
       None \<Rightarrow> rreturn (idx, ErrNone)
     | Some Panic \<Rightarrow> rread (dfail Panic)
     | Some _ \<Rightarrow> rreturn (idx, ErrUnknown)))))"

definition writeOffsetCommitResponse :: "(string \<times> (int32 \<times> int16) list) list \<Rightarrow> bytes" where
  "writeOffsetCommitResponse = write_topics (\<lambda>(idx, code). WriteInt32 idx @ WriteInt16 code)"

definition handleOffsetCommit :: "int64 \<Rightarrow> BrokerNode \<Rightarrow> bytes \<Rightarrow> BrokerNode \<times> (go_error + bytes)" where
  "handleOffsetCommit now b body = run_reader
     (rbind (rread ReadString) (\<lambda>g.
      rbind (rtopics (commit_partition now g)) (\<lambda>responses.
      rreturn (writeOffsetCommitResponse responses)))) b body"

record offsetFetchPartitionResponse =
  ofIndex :: int32
  ofOffset :: int64
  ofMetadata :: "string option"
  ofErrorCode :: int16

definition writeOffsetFetchResponse :: "(string \<times> offsetFetchPartitionResponse list) list \<Rightarrow> bytes" where
  "writeOffsetFetchResponse =
     write_topics (\<lambda>p. WriteInt32 (ofIndex p) @ WriteInt64 (ofOffset p) @ WriteNullableString (ofMetadata p)
       @ WriteInt16 (ofErrorCode p))"

definition handleOffsetFetch :: "BrokerNode \<Rightarrow> bytes \<Rightarrow> BrokerNode \<times> (go_error + bytes)" where
  "handleOffsetFetch b body = run_reader
     (rbind (rread ReadString) (\<lambda>g.
      rbind (rtopics (\<lambda>name.
        rbind (rread ReadInt32) (\<lambda>idx.
        case fetch_offset g name idx b of
          Inl err \<Rightarrow> rread (dfail err)
        | Inr off \<Rightarrow> rreturn \<lparr>ofIndex = idx, ofOffset = off, ofMetadata = None, ofErrorCode = ErrNone\<rparr>))) (\<lambda>responses.
      rreturn (writeOffsetFetchResponse responses)))) b body"

section \<open>Topics\<close>

definition writeTopicResults :: "(string \<times> int16) list \<Rightarrow> bytes" where
  "writeTopicResults = WriteArray (\<lambda>(name, code). WriteString name @ WriteInt16 code)"

text \<open>\<open>for i := 0; i < n\<close> without \<open>make\<close>: a negative count is an empty loop.\<close>

definition drain :: "'a decoder \<Rightarrow> unit decoder" where
  "drain d = dbind ReadArrayLen (\<lambda>n. dbind (dtimes (nat n) d) (\<lambda>_. dreturn ()))"

definition drainCreateTopicAssignments :: "unit decoder" where
  "drainCreateTopicAssignments = drain (dbind ReadInt32 (\<lambda>_. drain ReadInt32))"

definition drainCreateTopicConfigs :: "unit decoder" where
  "drainCreateTopicConfigs = drain (dbind ReadString (\<lambda>_. ReadNullableString))"

definition handleCreateTopics :: "int \<Rightarrow> BrokerNode \<Rightarrow> bytes \<Rightarrow> BrokerNode \<times> (go_error + bytes)" where
  "handleCreateTopics now b body = run_reader
     (rbind (rarray
        (rbind (rread ReadString) (\<lambda>name.
         rbind (rread ReadInt32) (\<lambda>numPartitions.
         rbind (rread ReadInt16) (\<lambda>replicationFactor.
         rbind (rread drainCreateTopicAssignments) (\<lambda>_.
         rbind (rread drainCreateTopicConfigs) (\<lambda>_.
         rdo (\<lambda>b. if refuses_topics b then (b, (name, ErrNotController))
                   else (case createTopic now name numPartitions replicationFactor True b of
                           (b', code) \<Rightarrow> (b', (name, code)))))))))))
        (\<lambda>results.
      rbind (rread ReadInt32) (\<lambda>_.
      rreturn (writeTopicResults results)))) b body"

definition handleDeleteTopics :: "int \<Rightarrow> BrokerNode \<Rightarrow> bytes \<Rightarrow> BrokerNode \<times> (go_error + bytes)" where
  "handleDeleteTopics now b body = run_reader
     (rbind (rarray
        (rbind (rread ReadString) (\<lambda>name.
         rdo (\<lambda>b. if refuses_topics b then (b, (name, ErrNotController))
                   else (case deleteTopic now name b of (b', code) \<Rightarrow> (b', (name, code)))))))
        (\<lambda>results.
      rbind (rread ReadInt32) (\<lambda>_.
      rreturn (writeTopicResults results)))) b body"

definition handleApplyTopic :: "int \<Rightarrow> BrokerNode \<Rightarrow> bytes \<Rightarrow> BrokerNode \<times> (go_error + bytes)" where
  "handleApplyTopic now b body =
     (case decodeApplyTopic body of
        Inl err \<Rightarrow> (b, Inl err)
      | Inr ((name, parts), _) \<Rightarrow> (applyTopic now name parts b, Inr (writeTopicResults [(name, ErrNone)])))"

section \<open>Groups\<close>

definition readJoinGroupProtocols :: "Protocol list decoder" where
  "readJoinGroupProtocols =
     ReadArray (dbind ReadString (\<lambda>name. dbind ReadBytes (\<lambda>metadata.
       dreturn \<lparr>ProtocolName = name, ProtocolMetadata = metadata\<rparr>)))"

definition read_join :: "string option \<Rightarrow> JoinRequest decoder" where
  "read_join client =
     dbind ReadString (\<lambda>g.
     dbind ReadInt32 (\<lambda>sessionTimeoutMS.
     dbind ReadString (\<lambda>mid.
     dbind ReadString (\<lambda>protocolType.
     dbind readJoinGroupProtocols (\<lambda>protocols.
     dreturn \<lparr>jrGroupID = g, jrClientID = (case client of None \<Rightarrow> [] | Some c \<Rightarrow> c),
       jrSessionTimeoutMS = sessionTimeoutMS, jrMemberID = mid, jrProtocolType = protocolType,
       jrProtocols = protocols\<rparr>)))))"

definition write_join_result :: "JoinResult \<Rightarrow> bytes" where
  "write_join_result r =
     WriteInt16 (resErrorCode r) @ WriteInt32 (resGenerationID r) @ WriteString (resProtocol r)
     @ WriteString (resLeaderID r) @ WriteString (resMemberID r)
     @ WriteArray (\<lambda>m. WriteString (jmID m) @ WriteBytes (bytes_of (jmMetadata m))) (resMembers r)"

text \<open>The call is parked in \<open>Join\<close> until its channel has a result; \<open>env\<close> is what happens meanwhile.\<close>

definition handleJoinGroup ::
    "(BrokerNode \<Rightarrow> BrokerNode) \<Rightarrow> RequestHeader \<Rightarrow> BrokerNode \<Rightarrow> bytes \<Rightarrow> BrokerNode \<times> (go_error + bytes) option" where
  "handleJoinGroup env header b body =
     (case read_join (ClientID header) body of
        Inl err \<Rightarrow> (b, Some (Inl err))
      | Inr (req, _) \<Rightarrow>
          (case Join (bGroups b) req of
             (c, ch) \<Rightarrow>
               (let b = env (b\<lparr>bGroups := c\<rparr>)
                in (b, map_option (\<lambda>r. Inr (write_join_result r)) (map_of (joinOut (bGroups b)) ch)))))"

definition readSyncGroupAssignments :: "(string, bytes option) gomap decoder" where
  "readSyncGroupAssignments =
     dbind ReadArrayLen (\<lambda>n. dbind (dtimes (nat n) (dbind ReadString (\<lambda>mid. dbind ReadBytes (\<lambda>a. dreturn (mid, a)))))
       (\<lambda>xs. dreturn (fold (\<lambda>(k, v). mput k v) xs [])))"

definition read_sync :: "SyncRequest decoder" where
  "read_sync =
     dbind ReadString (\<lambda>g.
     dbind ReadInt32 (\<lambda>gen.
     dbind ReadString (\<lambda>mid.
     dbind readSyncGroupAssignments (\<lambda>as.
     dreturn \<lparr>srGroupID = g, srGenerationID = gen, srMemberID = mid, srAssignments = as\<rparr>))))"

definition write_sync_result :: "SyncResult \<Rightarrow> bytes" where
  "write_sync_result r = WriteInt16 (syErrorCode r) @ WriteBytes (bytes_of (syAssignment r))"

definition handleSyncGroup ::
    "(BrokerNode \<Rightarrow> BrokerNode) \<Rightarrow> BrokerNode \<Rightarrow> bytes \<Rightarrow> BrokerNode \<times> (go_error + bytes) option" where
  "handleSyncGroup env b body =
     (case read_sync body of
        Inl err \<Rightarrow> (b, Some (Inl err))
      | Inr (req, _) \<Rightarrow>
          (case Sync (bGroups b) req of
             (c, Returned r) \<Rightarrow> (b\<lparr>bGroups := c\<rparr>, Some (Inr (write_sync_result r)))
           | (c, Waiting w) \<Rightarrow>
               (let b = env (b\<lparr>bGroups := c\<rparr>)
                in (b, map_option (\<lambda>r. Inr (write_sync_result r)) (map_of (syncOut (bGroups b)) w)))))"

definition handleHeartbeat :: "BrokerNode \<Rightarrow> bytes \<Rightarrow> BrokerNode \<times> (go_error + bytes)" where
  "handleHeartbeat b body = run_reader
     (rbind (rread ReadString) (\<lambda>g.
      rbind (rread ReadInt32) (\<lambda>gen.
      rbind (rread ReadString) (\<lambda>mid.
      rdo (\<lambda>b. case Heartbeat (bGroups b) \<lparr>hrGroupID = g, hrGenerationID = gen, hrMemberID = mid\<rparr> of
                 (c, code) \<Rightarrow> (b\<lparr>bGroups := c\<rparr>, WriteInt16 code)))))) b body"

definition handleLeaveGroup :: "BrokerNode \<Rightarrow> bytes \<Rightarrow> BrokerNode \<times> (go_error + bytes)" where
  "handleLeaveGroup b body = run_reader
     (rbind (rread ReadString) (\<lambda>g.
      rbind (rread ReadString) (\<lambda>mid.
      rdo (\<lambda>b. case Leave (bGroups b) \<lparr>lrGroupID = g, lrMemberID = mid\<rparr> of
                 (c, code) \<Rightarrow> (b\<lparr>bGroups := c\<rparr>, WriteInt16 code))))) b body"

section \<open>The small handlers\<close>

record supportedAPI =
  apiKey :: int16
  MinVersion :: int16
  MaxVersion :: int16

definition supportedAPIs :: "supportedAPI list" where
  "supportedAPIs = map (\<lambda>(k, lo, hi). \<lparr>apiKey = k, MinVersion = lo, MaxVersion = hi\<rparr>)
     [(0, 0, 0), (1, 0, 0), (2, 1, 1), (3, 0, 0), (8, 0, 0), (9, 0, 0), (10, 0, 0), (11, 0, 0), (12, 0, 0),
      (13, 0, 0), (14, 0, 0), (18, 0, 0), (19, 0, 0), (20, 0, 0), (22, 0, 0)]"

definition handleApiVersions :: "BrokerNode \<Rightarrow> bytes \<Rightarrow> BrokerNode \<times> (go_error + bytes)" where
  "handleApiVersions b body =
     (b, Inr (WriteInt16 0 @ WriteArray (\<lambda>a. WriteInt16 (apiKey a) @ WriteInt16 (MinVersion a) @ WriteInt16 (MaxVersion a))
        supportedAPIs))"

definition handleFindCoordinator :: "BrokerNode \<Rightarrow> bytes \<Rightarrow> BrokerNode \<times> (go_error + bytes)" where
  "handleFindCoordinator b body =
     (b, map_sum id (\<lambda>_. WriteInt16 ErrNone @ WriteInt32 (NodeID b) @ WriteString (bHost b) @ WriteInt32 (bPort b))
        (ReadString body))"

definition handleInitProducerID :: "BrokerNode \<Rightarrow> bytes \<Rightarrow> BrokerNode \<times> (go_error + bytes)" where
  "handleInitProducerID b body = run_reader
     (rbind (rread ReadNullableString) (\<lambda>_.
      rbind (rread ReadInt32) (\<lambda>_.
      rdo (\<lambda>b. case InitProducerID (bProducers b) of
                 (pm, pd, epoch) \<Rightarrow>
                   (b\<lparr>bProducers := pm\<rparr>, WriteInt32 0 @ WriteInt16 ErrNone @ WriteInt64 pd @ WriteInt16 epoch))))) b body"

definition handlePing :: "BrokerNode \<Rightarrow> bytes \<Rightarrow> BrokerNode \<times> (go_error + bytes)" where
  "handlePing b body = (b, if DropPings (bFaults b) then Inl ErrPingDropped else Inr [])"

end
