(* ===== verification/Broker_Views.thy ===== *)
theory Broker_Views
  imports Broker_Handlers
begin

text \<open>
  The operations that the HTTP API calls and the views it shows
  (\<open>internal/network/broker_ops.go\<close>), the metadata handler, which is built on them, the
  dispatcher (\<open>dispatch.go\<close>), the loop over a connection and the start of a broker
  (\<open>cmd/broker/main.go\<close>).
\<close>

section \<open>Errors of the operations\<close>

datatype op_error =
    OpNotController
  | OpUnknownTopicOrPartition
  | OpNotLeader
  | OpCorruptBatch
  | OpOffsetOutOfRange
  | OpInvalidPartitions
  | OpInvalidReplicationFactor
  | OpTopicExists
  | OpTopicNotFound
  | OpFailed
  | OpIO go_error

text \<open>The registry's errors are \<open>topic.ErrTopicExists\<close> and \<open>topic.ErrTopicNotFound\<close>.\<close>

definition codeToError :: "int16 \<Rightarrow> op_error option" where
  "codeToError code =
     (if code = ErrNone then None
      else if code = ErrTopicAlreadyExists then Some OpTopicExists
      else if code = ErrUnknownTopicOrPartition then Some OpTopicNotFound
      else if code = ErrInvalidPartitions then Some OpInvalidPartitions
      else if code = ErrInvalidReplicationFactor then Some OpInvalidReplicationFactor
      else if code = ErrNotController then Some OpNotController
      else Some OpFailed)"

definition wireError :: "op_error option \<Rightarrow> int16" where
  "wireError err =
     (case err of
        None \<Rightarrow> ErrNone
      | Some OpNotController \<Rightarrow> ErrNotController
      | Some OpTopicExists \<Rightarrow> ErrTopicAlreadyExists
      | Some OpTopicNotFound \<Rightarrow> ErrUnknownTopicOrPartition
      | Some OpUnknownTopicOrPartition \<Rightarrow> ErrUnknownTopicOrPartition
      | Some OpNotLeader \<Rightarrow> ErrNotLeaderForPartition
      | Some OpCorruptBatch \<Rightarrow> ErrCorruptMessage
      | Some OpOffsetOutOfRange \<Rightarrow> ErrOffsetOutOfRange
      | Some OpInvalidPartitions \<Rightarrow> ErrInvalidPartitions
      | Some OpInvalidReplicationFactor \<Rightarrow> ErrInvalidReplicationFactor
      | _ \<Rightarrow> ErrUnknown)"

text \<open>The status codes of the HTTP API (\<open>internal/httpapi/httpapi.go\<close>).\<close>

definition statusFor :: "op_error \<Rightarrow> nat" where
  "statusFor err =
     (case err of
        OpNotController \<Rightarrow> 421
      | OpNotLeader \<Rightarrow> 421
      | OpTopicExists \<Rightarrow> 409
      | OpTopicNotFound \<Rightarrow> 404
      | OpUnknownTopicOrPartition \<Rightarrow> 404
      | OpCorruptBatch \<Rightarrow> 400
      | OpOffsetOutOfRange \<Rightarrow> 400
      | OpInvalidPartitions \<Rightarrow> 400
      | OpInvalidReplicationFactor \<Rightarrow> 400
      | _ \<Rightarrow> 500)"

section \<open>Operations\<close>

definition CreateTopic :: "int \<Rightarrow> string \<Rightarrow> int32 \<Rightarrow> int16 \<Rightarrow> BrokerNode \<Rightarrow> BrokerNode \<times> op_error option" where
  "CreateTopic now name parts rf b =
     (if refuses_topics b then (b, Some OpNotController)
      else case createTopic now name parts rf True b of (b', code) \<Rightarrow> (b', codeToError code))"

definition DeleteTopic :: "int \<Rightarrow> string \<Rightarrow> BrokerNode \<Rightarrow> BrokerNode \<times> op_error option" where
  "DeleteTopic now name b =
     (if refuses_topics b then (b, Some OpNotController)
      else case deleteTopic now name b of (b', code) \<Rightarrow> (b', codeToError code))"

text \<open>On an error the code returns the offset \<open>-1\<close> beside it.\<close>

definition Broker_Produce :: "string \<Rightarrow> int32 \<Rightarrow> bytes \<Rightarrow> BrokerNode \<Rightarrow> BrokerNode \<times> (op_error + int64)" where
  "Broker_Produce name idx batch b =
     (case partition_at (bTopics b) name idx of
        None \<Rightarrow> (b, Inl OpUnknownTopicOrPartition)
      | Some p \<Rightarrow>
          (if Leader p \<noteq> NodeID b then (b, Inl OpNotLeader)
           else if \<not> validRecordBatch batch then (b, Inl OpCorruptBatch)
           else case Manager_Log (bLogs b) name idx of
               (st, Inl err) \<Rightarrow> (b\<lparr>bLogs := st\<rparr>, Inl (OpIO err))
             | (st, Inr partitionLog) \<Rightarrow>
                 (case append_stamped batch partitionLog of
                    (l, res) \<Rightarrow> (b\<lparr>bLogs := put_log st name idx l\<rparr>, map_sum OpIO id res))))"

text \<open>Records, high watermark and error, as the code returns them together.\<close>

definition Broker_Fetch ::
    "int \<Rightarrow> string \<Rightarrow> int32 \<Rightarrow> int64 \<Rightarrow> int32 \<Rightarrow> BrokerNode \<Rightarrow> BrokerNode \<times> LogRecord list \<times> int64 \<times> op_error option" where
  "Broker_Fetch now name idx off maxBytes b =
     (case partition_at (bTopics b) name idx of
        None \<Rightarrow> (b, [], 0, Some OpUnknownTopicOrPartition)
      | Some p \<Rightarrow>
          (case Manager_Log (bLogs b) name idx of
             (st, Inl err) \<Rightarrow> (b\<lparr>bLogs := st\<rparr>, [], 0, Some (OpIO err))
           | (st, Inr partitionLog) \<Rightarrow>
               (let endOffset = EndOffset partitionLog;
                    (b, hw) = high_watermark now name idx endOffset (b\<lparr>bLogs := st\<rparr>)
                in if sint off < 0 \<or> sint endOffset < sint off then (b, [], hw, Some OpOffsetOutOfRange)
                   else if off = endOffset then (b, [], hw, None)
                   else case Read partitionLog off (sint maxBytes) of
                       Inl err \<Rightarrow> (b, [], hw, Some (OpIO err))
                     | Inr rs \<Rightarrow> (b, rs, hw, None))))"

definition ResetGroupOffset ::
    "int64 \<Rightarrow> string \<Rightarrow> string \<Rightarrow> int32 \<Rightarrow> int64 \<Rightarrow> BrokerNode \<Rightarrow> BrokerNode \<times> op_error option" where
  "ResetGroupOffset now g name idx off b =
     (if bOffsets b = None then (b, Some OpFailed)
      else case commit_offset now g name idx off b of (b', err) \<Rightarrow> (b', map_option OpIO err))"

section \<open>Group and producer views\<close>

record GroupPartitionInfo =
  gpTopic :: string
  gpPartition :: int32
  CommittedOffset :: int64
  gpHighWatermark :: int64
  Lag :: int64

record GroupMemberInfo =
  gmID :: string
  gmAssignment :: "GroupPartitionInfo list"

record GroupInfo =
  giID :: string
  giState :: string
  giGenerationID :: int32
  giLeaderID :: string
  giProtocol :: string
  giMembers :: "GroupMemberInfo list"

definition highWatermarkOf :: "int \<Rightarrow> string \<Rightarrow> int32 \<Rightarrow> BrokerNode \<Rightarrow> BrokerNode \<times> int64" where
  "highWatermarkOf now name idx b =
     (case Manager_Log (bLogs b) name idx of
        (st, Inl err) \<Rightarrow> (b\<lparr>bLogs := st\<rparr>, 0)
      | (st, Inr partitionLog) \<Rightarrow> high_watermark now name idx (EndOffset partitionLog) (b\<lparr>bLogs := st\<rparr>))"

definition groupPartitionInfo :: "int \<Rightarrow> string \<Rightarrow> string \<Rightarrow> int32 \<Rightarrow> BrokerNode \<Rightarrow> BrokerNode \<times> GroupPartitionInfo" where
  "groupPartitionInfo now g name idx b =
     (let committed = (case fetch_offset g name idx b of Inl _ \<Rightarrow> -1 | Inr off \<Rightarrow> off);
          (b, hwm) = highWatermarkOf now name idx b;
          from = (if sint committed < 0 then 0 else committed);
          lag = hwm - from;
          lag = (if sint lag < 0 then 0 else lag)
      in (b, \<lparr>gpTopic = name, gpPartition = idx, CommittedOffset = committed, gpHighWatermark = hwm, Lag = lag\<rparr>))"

text \<open>A loop that threads the state through and collects the results.\<close>

fun map_state :: "('a \<Rightarrow> 's \<Rightarrow> 's \<times> 'b) \<Rightarrow> 'a list \<Rightarrow> 's \<Rightarrow> 's \<times> 'b list" where
  "map_state f [] s = (s, [])"
| "map_state f (x # xs) s =
     (case f x s of (s', y) \<Rightarrow> case map_state f xs s' of (s'', ys) \<Rightarrow> (s'', y # ys))"

text \<open>The same for a step that may panic, which ends the loop.\<close>

fun map_stateE :: "('a \<Rightarrow> 's \<Rightarrow> 's \<times> (go_error + 'b)) \<Rightarrow> 'a list \<Rightarrow> 's \<Rightarrow> 's \<times> (go_error + 'b list)" where
  "map_stateE f [] s = (s, Inr [])"
| "map_stateE f (x # xs) s =
     (case f x s of
        (s', Inl e) \<Rightarrow> (s', Inl e)
      | (s', Inr y) \<Rightarrow>
          (case map_stateE f xs s' of (s'', Inl e) \<Rightarrow> (s'', Inl e) | (s'', Inr ys) \<Rightarrow> (s'', Inr (y # ys))))"

text \<open>An assignment that does not decode shows as empty; a negative count in it panics.\<close>

definition group_member_info :: "int \<Rightarrow> string \<Rightarrow> MemberSnapshot \<Rightarrow> BrokerNode \<Rightarrow> BrokerNode \<times> (go_error + GroupMemberInfo)" where
  "group_member_info now g m b =
     (case DecodeAssignment (bytes_of (msAssignment m)) of
        Inl Panic \<Rightarrow> (b, Inl Panic)
      | Inl _ \<Rightarrow> (b, Inr \<lparr>gmID = msID m, gmAssignment = []\<rparr>)
      | Inr tps \<Rightarrow>
          (case map_state (\<lambda>(name, idx). groupPartitionInfo now g name idx)
                  (concat (map (\<lambda>x. map (Pair (TopicPartitions.Topic x)) (TopicPartitions.Partitions x)) tps)) b of
             (b', infos) \<Rightarrow> (b', Inr \<lparr>gmID = msID m, gmAssignment = infos\<rparr>)))"

definition group_info :: "int \<Rightarrow> GroupSnapshot \<Rightarrow> BrokerNode \<Rightarrow> BrokerNode \<times> (go_error + GroupInfo)" where
  "group_info now g b =
     (case map_stateE (group_member_info now (gsID g)) (gsMembers g) b of
        (b', Inl e) \<Rightarrow> (b', Inl e)
      | (b', Inr ms) \<Rightarrow>
          (b', Inr \<lparr>giID = gsID g, giState = gsState g, giGenerationID = gsGenerationID g,
            giLeaderID = gsLeaderID g, giProtocol = gsProtocol g, giMembers = ms\<rparr>))"

definition GroupInfos :: "int \<Rightarrow> BrokerNode \<Rightarrow> BrokerNode \<times> (go_error + GroupInfo list)" where
  "GroupInfos now b =
     (case map_stateE (group_info now) (Coordinator_Snapshot (bGroups b)) b of
        (b', res) \<Rightarrow> (b', map_sum id (sort_key giID) res))"

record ProducerPartitionInfo =
  piTopic :: string
  piPartition :: int32
  piLastSequence :: int32
  piLastOffset :: int64

record ProducerInfo =
  piProducerID :: int64
  piEpoch :: int16
  piPartitions :: "ProducerPartitionInfo list"

definition ProducerInfos :: "BrokerNode \<Rightarrow> ProducerInfo list" where
  "ProducerInfos b =
     map (\<lambda>s. \<lparr>piProducerID = ProducerID s, piEpoch = Epoch s,
        piPartitions = map (\<lambda>p. \<lparr>piTopic = ProducerPartition.Topic p, piPartition = ProducerPartition.Partition p,
          piLastSequence = LastSequence p, piLastOffset = LastOffset p\<rparr>) (ProducerSnapshot.Partitions s)\<rparr>)
      (Snapshot (bProducers b))"

section \<open>Cluster and topic views\<close>

record BrokerInfo =
  biNodeID :: int32
  biHost :: string
  biPort :: int32
  biControllerID :: int32

record PeerReachability =
  prID :: int32
  prAlive :: bool

record ClusterInfo =
  ciBrokers :: "BrokerInfo list"
  ciControllerID :: int32
  ciSelf :: int32
  ciPeers :: "PeerReachability list"

definition Broker_Info :: "BrokerNode \<Rightarrow> BrokerInfo" where
  "Broker_Info b =
     \<lparr>biNodeID = NodeID b, biHost = bHost b, biPort = bPort b,
      biControllerID = (case bControllerID b of None \<Rightarrow> NodeID b | Some c \<Rightarrow> c)\<rparr>"

definition metadataBrokers :: "BrokerNode \<Rightarrow> Broker list" where
  "metadataBrokers b =
     (case bCluster b of
        None \<Rightarrow> [\<lparr>BrokerID = NodeID b, Host = bHost b, Port = bPort b\<rparr>]
      | Some ms \<Rightarrow> Membership_All ms)"

definition Cluster_Info :: "BrokerNode \<Rightarrow> ClusterInfo" where
  "Cluster_Info b =
     (let c = biControllerID (Broker_Info b)
      in \<lparr>ciBrokers = map (\<lambda>br. \<lparr>biNodeID = BrokerID br, biHost = Host br, biPort = Port br, biControllerID = c\<rparr>)
            (metadataBrokers b),
          ciControllerID = c, ciSelf = NodeID b,
          ciPeers = map (\<lambda>br. \<lparr>prID = BrokerID br,
              prAlive = (if BrokerID br = NodeID b then True
                         else case bIsPeerAlive b of Some f \<Rightarrow> f (BrokerID br) | None \<Rightarrow> True)\<rparr>)
            (metadataBrokers b)\<rparr>)"

record PartitionInfo =
  pinfoID :: int32
  pinfoLeader :: int32
  pinfoReplicas :: "int32 list"
  pinfoISR :: "int32 list"
  pinfoStart :: int64
  pinfoEnd :: int64
  pinfoHW :: int64

record TopicInfo =
  tinfoName :: string
  tinfoPartitions :: "PartitionInfo list"

definition containsInt32 :: "int32 list \<Rightarrow> int32 \<Rightarrow> bool" where
  "containsInt32 values want = list_ex (\<lambda>v. v = want) values"

definition partition_info :: "int \<Rightarrow> string \<Rightarrow> Partition \<Rightarrow> BrokerNode \<Rightarrow> BrokerNode \<times> PartitionInfo" where
  "partition_info now name p b =
     (let (b, start, fin) =
            (if containsInt32 (Replicas p) (NodeID b) then
               (case Manager_Log (bLogs b) name (ID p) of
                  (st, Inl err) \<Rightarrow> (b\<lparr>bLogs := st\<rparr>, 0, 0)
                | (st, Inr l) \<Rightarrow> (b\<lparr>bLogs := st\<rparr>, StartOffset l, EndOffset l))
             else (b, 0, 0));
          (b, hw, sync) =
            (case bReplication b of
               None \<Rightarrow> (b, fin, ISR p)
             | Some rm \<Rightarrow>
                 (case Manager_HighWatermark now name (ID p) fin rm of
                    (rm, hw) \<Rightarrow>
                      (case Manager_ISR now name (ID p) rm of
                         (rm, live) \<Rightarrow>
                           (b\<lparr>bReplication := Some rm\<rparr>, hw, if live = [] then ISR p else live))))
      in (b, \<lparr>pinfoID = ID p, pinfoLeader = Leader p, pinfoReplicas = Replicas p, pinfoISR = sync,
              pinfoStart = start, pinfoEnd = fin, pinfoHW = hw\<rparr>))"

definition TopicInfos :: "int \<Rightarrow> BrokerNode \<Rightarrow> BrokerNode \<times> TopicInfo list" where
  "TopicInfos now b =
     map_state (\<lambda>t b. case map_state (partition_info now (Name t)) (PartitionList t) b of
         (b', ps) \<Rightarrow> (b', \<lparr>tinfoName = Name t, tinfoPartitions = ps\<rparr>))
       (Registry_All (bTopics b)) b"

section \<open>Metadata (metadata.go)\<close>

definition writeMetadataTopic :: "TopicInfo \<Rightarrow> bytes" where
  "writeMetadataTopic t =
     WriteInt16 ErrNone @ WriteString (tinfoName t)
     @ WriteArray (\<lambda>p. WriteInt16 ErrNone @ WriteInt32 (pinfoID p) @ WriteInt32 (pinfoLeader p)
         @ writeInt32Array (pinfoReplicas p) @ writeInt32Array (pinfoISR p)) (tinfoPartitions t)"

definition metadata_response :: "BrokerNode \<Rightarrow> TopicInfo list \<Rightarrow> string list \<Rightarrow> bytes" where
  "metadata_response b infos unknown =
     WriteArray (\<lambda>br. WriteInt32 (BrokerID br) @ WriteString (Host br) @ WriteInt32 (Port br)) (metadataBrokers b)
     @ WriteInt32 (biControllerID (Broker_Info b))
     @ WriteArrayLen (int (length infos) + int (length unknown))
     @ concat (map writeMetadataTopic infos)
     @ concat (map (\<lambda>name. WriteInt16 ErrUnknownTopicOrPartition @ WriteString name @ WriteArrayLen 0) unknown)"

text \<open>The topics are looked up after the count is read, before the names are.\<close>

definition handleMetadata :: "int \<Rightarrow> BrokerNode \<Rightarrow> bytes \<Rightarrow> BrokerNode \<times> (go_error + bytes)" where
  "handleMetadata now b body =
     (case ReadArrayLen body of
        Inl err \<Rightarrow> (b, Inl err)
      | Inr (topicCount, rest) \<Rightarrow>
          (case TopicInfos now b of
             (b', infos) \<Rightarrow>
               (let byName = map_of (map (\<lambda>i. (tinfoName i, i)) (rev infos))
                in (b', if topicCount \<le> 0 then Inr (metadata_response b' infos [])
                        else map_sum id (\<lambda>(names, _). metadata_response b' (List.map_filter byName names)
                               (filter (\<lambda>n. byName n = None) names)) (dtimes (nat topicCount) ReadString rest)))))"

section \<open>Dispatch (dispatch.go)\<close>

definition at_once :: "BrokerNode \<times> (go_error + bytes) \<Rightarrow> BrokerNode \<times> (go_error + bytes) option" where
  "at_once r = (fst r, Some (snd r))"

definition dispatchTable ::
    "(BrokerNode \<Rightarrow> BrokerNode) \<Rightarrow> int \<Rightarrow> RequestHeader \<Rightarrow> (int16, BrokerNode \<Rightarrow> bytes \<Rightarrow> BrokerNode \<times> (go_error + bytes) option) gomap" where
  "dispatchTable env now header =
     [(0, \<lambda>b body. at_once (handleProduce env now b body)),
      (1, \<lambda>b body. at_once (handleFetch now b body)),
      (2, \<lambda>b body. at_once (handleListOffsets b body)),
      (3, \<lambda>b body. at_once (handleMetadata now b body)),
      (8, \<lambda>b body. at_once (handleOffsetCommit (word_of_int now) b body)),
      (9, \<lambda>b body. at_once (handleOffsetFetch b body)),
      (10, \<lambda>b body. at_once (handleFindCoordinator b body)),
      (11, handleJoinGroup env header),
      (12, \<lambda>b body. at_once (handleHeartbeat b body)),
      (13, \<lambda>b body. at_once (handleLeaveGroup b body)),
      (14, handleSyncGroup env),
      (18, \<lambda>b body. at_once (handleApiVersions b body)),
      (19, \<lambda>b body. at_once (handleCreateTopics now b body)),
      (20, \<lambda>b body. at_once (handleDeleteTopics now b body)),
      (22, \<lambda>b body. at_once (handleInitProducerID b body)),
      (internalApplyTopicKey, \<lambda>b body. at_once (handleApplyTopic now b body)),
      (InternalPingKey, \<lambda>b body. at_once (handlePing b body)),
      (InternalFetchMetadataLogKey, \<lambda>b body. (b, handleFetchMetadataLog (bMetadataLog b) body))]"

text \<open>
  The payload of the response frame; an error closes the connection. The whole frame is
  written by \<^const>\<open>WriteFrame\<close>.
\<close>

definition Dispatch ::
    "(BrokerNode \<Rightarrow> BrokerNode) \<Rightarrow> int \<Rightarrow> BrokerNode \<Rightarrow> bytes \<Rightarrow> BrokerNode \<times> (go_error + bytes) option" where
  "Dispatch env now b payload =
     (case ReadRequestHeader payload of
        Inl err \<Rightarrow> (b, Some (Inl err))
      | Inr (header, body) \<Rightarrow>
          (case (case map_of (dispatchTable env now header) (APIKey header) of
                   Some handler \<Rightarrow> handler b body
                 | None \<Rightarrow> (b, Some (Inr (WriteInt16 (-1))))) of
             (b', res) \<Rightarrow>
               (b', map_option (map_sum id (\<lambda>response. WriteResponseHeader (CorrelationID header) @ response)) res)))"

lemma ReadFrame_shorter: "ReadFrame input = Inr (payload, rest) \<Longrightarrow> length rest < length input"
  by (auto simp: ReadFrame_def ReadInt32_def dbind_eq_Inr ReadFull_Inr split: if_splits)

text \<open>
  The loop of \<open>handleConnection\<close> over the bytes a client sent: what the broker writes, until
  the input ends, a request fails, a call does not return or a write fails. \<open>ws\<close> are the
  outcomes of the writes to the connection.
\<close>

function handleConnection ::
    "(BrokerNode \<Rightarrow> BrokerNode) \<Rightarrow> int \<Rightarrow> write_outcome list \<Rightarrow> BrokerNode \<Rightarrow> bytes \<Rightarrow> BrokerNode \<times> bytes" where
  "handleConnection env now ws b input =
     (case ReadFrame input of
        Inl err \<Rightarrow> (b, [])
      | Inr (payload, rest) \<Rightarrow>
          (case Dispatch env now b payload of
             (b', Some (Inr response)) \<Rightarrow>
               (case WriteFrame ws response of
                  (Some err, out, ws') \<Rightarrow> (b', out)
                | (None, out, ws') \<Rightarrow>
                    (case handleConnection env now ws' b' rest of (b'', out') \<Rightarrow> (b'', out @ out')))
           | (b', _) \<Rightarrow> (b', [])))"
  by pat_completeness auto
termination
  by (relation "measure (\<lambda>(env, now, ws, b, input). length input)") (auto dest: ReadFrame_shorter)

declare handleConnection.simps [simp del]

section \<open>Start (cmd/broker/main.go)\<close>

definition new_broker :: "int32 \<Rightarrow> int32 \<Rightarrow> Membership \<Rightarrow> Manager \<Rightarrow> Log \<Rightarrow> BrokerNode" where
  "new_broker nodeID brokerPort ms st ml =
     \<lparr>NodeID = nodeID, bHost = ''localhost'', bPort = brokerPort, bTopics = NewRegistry, bLogs = st,
      bGroups = NewCoordinator (3 * 10 ^ 9), bOffsets = None, bProducers = NewProducerManager,
      bCluster = Some ms,
      bReplication = Some (UseFaults (Some NewConfig) (NewReplicationManager nodeID ms)),
      bIsPeerAlive = None, bControllerID = None, bMetadataLog = Some ml, bFaults = Some NewConfig, sent = []\<rparr>"

definition follow_topic :: "int \<Rightarrow> Topic \<Rightarrow> BrokerNode \<Rightarrow> BrokerNode" where
  "follow_topic now t b =
     (case bReplication b of
        None \<Rightarrow> b
      | Some rm \<Rightarrow>
          (case StartFollowing now t (rm, bLogs b) of (rm', st) \<Rightarrow> b\<lparr>bReplication := Some rm', bLogs := st\<rparr>))"

text \<open>
  The part of \<open>main\<close> between reading the flags and listening, given the storage manager and
  the metadata log as they were found on disk; the liveness monitor is installed in between.
\<close>

definition start_broker ::
    "int \<Rightarrow> int32 \<Rightarrow> int32 \<Rightarrow> Membership \<Rightarrow> Manager \<Rightarrow> Log \<Rightarrow> (int32 \<Rightarrow> bool) \<Rightarrow> int32 \<Rightarrow> (go_error + BrokerNode) option" where
  "start_broker now nodeID brokerPort ms st ml peers controller =
     (let b = (new_broker nodeID brokerPort ms st ml)\<lparr>bIsPeerAlive := Some peers, bControllerID := Some controller\<rparr>
      in case Manager_Log (bLogs b) offsets_topic 0 of
          (st, Inl err) \<Rightarrow> Some (Inl err)
        | (st, Inr offsetLog) \<Rightarrow>
            (case NewStore offsetLog of
               None \<Rightarrow> None
             | Some (Inl err) \<Rightarrow> Some (Inl err)
             | Some (Inr store) \<Rightarrow>
                 (case ReadFrom ml 0 of
                    None \<Rightarrow> None
                  | Some (Inl err) \<Rightarrow> Some (Inl err)
                  | Some (Inr records) \<Rightarrow>
                      (let b = fold (ApplyMetadataRecord now) records
                                 (b\<lparr>bLogs := st, bOffsets := Some (offsets store)\<rparr>)
                       in Some (Inr (fold (follow_topic now) (Registry_All (bTopics b)) b))))))"

end
