(* ===== verification/Replication_Correct.thy ===== *)
theory Replication_Correct
  imports Replication
begin

text \<open>
  What replication guarantees: the high watermark is the smallest offset of the replicas in
  sync; a produce request with \<open>acks=all\<close> is answered only when all of them have the record,
  and as soon as they do; the follower's copy of the leader's log.
\<close>

section \<open>The high watermark\<close>

text \<open>The offsets that count: the leader's end and those of the followers in sync.\<close>

definition in_sync_offsets :: "PartitionState \<Rightarrow> int \<Rightarrow> int set" where
  "in_sync_offsets s now = insert (sint (leaderEndOffset s))
     {sint (offset_of s b) | b. b \<in> set (replicas s) \<and> b \<noteq> leaderID s \<and> followerInISR s b now}"

lemma Min_insert2: "finite A \<Longrightarrow> Min (insert a (insert b A)) = Min (insert (min a b) A)"
  for a b :: int
  by (cases "A = {}") (simp_all add: min.assoc)

lemma next_hw_Min:
  "sint (next_hw s now ids nxt) = Min (insert (sint nxt)
     {sint (offset_of s b) | b. b \<in> set ids \<and> b \<noteq> leaderID s \<and> followerInISR s b now})"
proof (induction ids arbitrary: nxt)
  case (Cons b ids)
  let ?A = "\<lambda>ids. {sint (offset_of s b) | b. b \<in> set ids \<and> b \<noteq> leaderID s \<and> followerInISR s b now}"
  have fin: "finite (?A ids)" by simp
  show ?case
  proof (cases "b \<noteq> leaderID s \<and> followerInISR s b now")
    case True
    then have A: "?A (b # ids) = insert (sint (offset_of s b)) (?A ids)" by auto
    show ?thesis using True Cons unfolding A Min_insert2 [OF fin] by (simp add: min_def)
  next
    case False
    then have "?A (b # ids) = ?A ids" by auto
    then show ?thesis using False Cons by auto
  qed
qed simp

lemma recompute_hw: "sint (highWatermark (fst (recompute now s))) = Min (in_sync_offsets s now)"
  by (simp add: recompute_def Let_def next_hw_Min in_sync_offsets_def)

lemma finite_in_sync: "finite (in_sync_offsets s now)"
  by (simp add: in_sync_offsets_def)

lemma in_sync_fields:
  "replicas s' = replicas s \<Longrightarrow> leaderID s' = leaderID s \<Longrightarrow> followerOffset s' = followerOffset s \<Longrightarrow>
    followerSeen s' = followerSeen s \<Longrightarrow> leaderEndOffset s' = leaderEndOffset s \<Longrightarrow>
    lagTimeout s' = lagTimeout s \<Longrightarrow> in_sync_offsets s' now = in_sync_offsets s now"
  by (simp add: in_sync_offsets_def followerInISR_def offset_of_def cong: option.case_cong)

lemma in_sync_offsets_cong [simp]:
  "in_sync_offsets (s\<lparr>highWatermark := h\<rparr>) now = in_sync_offsets s now"
  "in_sync_offsets (s\<lparr>waiters := ws\<rparr>) now = in_sync_offsets s now"
  "in_sync_offsets (s\<lparr>next_waiter := n\<rparr>) now = in_sync_offsets s now"
  "in_sync_offsets (releaseWaiters s) now = in_sync_offsets s now"
  by (rule in_sync_fields; simp add: releaseWaiters_def)+

lemma recompute_release_hw:
  "sint (highWatermark (recompute_release now s)) = Min (in_sync_offsets s now)"
  "in_sync_offsets (recompute_release now s) now' = in_sync_offsets s now'"
proof -
  have "highWatermark (releaseWaiters x) = highWatermark x" for x by (simp add: releaseWaiters_def)
  then show "sint (highWatermark (recompute_release now s)) = Min (in_sync_offsets s now)"
    using recompute_hw [of now s] by (simp add: recompute_release_def case_prod_beta)
  show "in_sync_offsets (recompute_release now s) now' = in_sync_offsets s now'"
    by (simp add: recompute_release_def recompute_def Let_def)
qed

section \<open>Calls that wait\<close>

text \<open>What happens to a partition, in any order: fetches, waits, queries and timeouts.\<close>

datatype partition_event =
    FollowerFetch int int int32 int64 int64
  | Wait int int64
  | QueryHighWatermark int int64
  | Timeout nat

fun apply_partition_event :: "partition_event \<Rightarrow> PartitionState \<Rightarrow> PartitionState" where
  "apply_partition_event (FollowerFetch now now' b off fin) s = RecordFollowerFetch now now' b off fin s"
| "apply_partition_event (Wait now target) s = fst (WaitForHighWatermark now target s)"
| "apply_partition_event (QueryHighWatermark now fin) s = fst (HighWatermark now fin s)"
| "apply_partition_event (Timeout w) s = removeWaiter w s"

fun event_time :: "partition_event \<Rightarrow> int" where
  "event_time (FollowerFetch now now' b off fin) = now'"
| "event_time (Wait now target) = now"
| "event_time (QueryHighWatermark now fin) = now"
| "event_time (Timeout w) = 0"

inductive partition_reach :: "PartitionState \<Rightarrow> bool" where
  new: "partition_reach (NewPartitionState u now rs lead lag)"
| event: "partition_reach s \<Longrightarrow> partition_reach (apply_partition_event ev s)"

text \<open>No call waits for a target that is reached; a closed waiter does not wait any more.\<close>

definition waiting_inv :: "PartitionState \<Rightarrow> bool" where
  "waiting_inv s \<longleftrightarrow> (\<forall>(w, target) \<in> set (waiters s). sint (highWatermark s) < sint target)
     \<and> distinct (map fst (waiters s)) \<and> (\<forall>w \<in> fst ` set (waiters s) \<union> set (closed s). w < next_waiter s)
     \<and> fst ` set (waiters s) \<inter> set (closed s) = {}"

lemma distinct_fst_filter: "distinct (map fst xs) \<Longrightarrow> distinct (map fst (filter P xs))"
  by (induction xs) auto

lemma waiting_inv_update [simp]:
  "waiting_inv (s\<lparr>followerOffset := fo\<rparr>) = waiting_inv s"
  "waiting_inv (s\<lparr>followerSeen := sn\<rparr>) = waiting_inv s"
  "waiting_inv (s\<lparr>leaderEndOffset := le\<rparr>) = waiting_inv s"
  by (simp_all add: waiting_inv_def)

lemma recompute_release_waiting:
  assumes "waiting_inv s"
  shows "waiting_inv (recompute_release now s)"
    and "set (waiters (recompute_release now s)) = {x \<in> set (waiters s). sint (highWatermark (recompute_release now s)) < sint (snd x)}"
    and "set (closed (recompute_release now s)) = set (closed s)
      \<union> {w. \<exists>t. (w, t) \<in> set (waiters s) \<and> sint t \<le> sint (highWatermark (recompute_release now s))}"
    and "next_waiter (recompute_release now s) = next_waiter s"
proof -
  let ?h = "next_hw s now (replicas s) (leaderEndOffset s)"
  define s' where "s' = recompute_release now s"
  have eq: "s' = (if ?h \<noteq> highWatermark s then releaseWaiters (s\<lparr>highWatermark := ?h\<rparr>) else s\<lparr>highWatermark := ?h\<rparr>)"
    by (simp add: s'_def recompute_release_def recompute_def Let_def)
  have h: "highWatermark s' = ?h" by (simp add: eq releaseWaiters_def)
  show n: "next_waiter (recompute_release now s) = next_waiter s"
    unfolding s'_def [symmetric] by (simp add: eq releaseWaiters_def)
  have old: "sint (highWatermark s) < sint t" if "(w, t) \<in> set (waiters s)" for w t
    using assms that by (auto simp: waiting_inv_def)
  show w: "set (waiters (recompute_release now s)) = {x \<in> set (waiters s). sint (highWatermark (recompute_release now s)) < sint (snd x)}"
    unfolding s'_def [symmetric] h using old by (auto simp: eq releaseWaiters_def)
  show c: "set (closed (recompute_release now s)) = set (closed s)
      \<union> {w. \<exists>t. (w, t) \<in> set (waiters s) \<and> sint t \<le> sint (highWatermark (recompute_release now s))}"
  proof (cases "?h = highWatermark s")
    case True
    have none: "{w. \<exists>t. (w, t) \<in> set (waiters s) \<and> sint t \<le> sint (highWatermark s)} = {}"
      using old by (auto simp: not_le)
    show ?thesis unfolding s'_def [symmetric] h True none using True by (simp add: eq)
  next
    case False
    then show ?thesis unfolding s'_def [symmetric] h by (auto simp: eq releaseWaiters_def image_iff)
  qed
  have d: "distinct (map fst (waiters s'))"
    using assms by (simp add: eq releaseWaiters_def waiting_inv_def distinct_fst_filter)
  have uniq: "t = t'" if "(w, t) \<in> set (waiters s)" "(w, t') \<in> set (waiters s)" for w t t'
    using assms that by (auto simp: waiting_inv_def dest: eq_key_imp_eq_value)
  have "fst ` set (waiters s') \<inter> set (closed s') = {}"
  proof -
    have "False" if mem: "(x, t) \<in> set (waiters s')" and cl: "x \<in> set (closed s')" for x t
    proof -
      have x: "(x, t) \<in> set (waiters s)" "sint (highWatermark s') < sint t"
        using mem unfolding w [folded s'_def] by simp_all
      have "x \<notin> set (closed s)" using assms imageI [OF x(1), of fst] by (auto simp: waiting_inv_def)
      then obtain t' where "(x, t') \<in> set (waiters s)" "sint t' \<le> sint (highWatermark s')"
        using cl unfolding c [folded s'_def] by blast
      then show False using uniq [OF x(1)] x(2) by simp
    qed
    then show ?thesis by auto
  qed
  moreover have "\<forall>w \<in> fst ` set (waiters s') \<union> set (closed s'). w < next_waiter s'"
  proof -
    have "w < next_waiter s" if "w \<in> fst ` set (waiters s) \<union> set (closed s)" for w
      using assms that unfolding waiting_inv_def by blast
    moreover have "fst ` set (waiters s') \<union> set (closed s') \<subseteq> fst ` set (waiters s) \<union> set (closed s)"
      unfolding w [folded s'_def] c [folded s'_def] by (auto intro: rev_image_eqI)
    ultimately show ?thesis unfolding n [folded s'_def] by blast
  qed
  ultimately show "waiting_inv (recompute_release now s)"
    using d w unfolding s'_def waiting_inv_def by auto
qed

lemma Wait_waiting:
  assumes "waiting_inv s"
  shows "waiting_inv (fst (WaitForHighWatermark now target s))"
proof -
  define s0 where "s0 = (if sint (leaderEndOffset s) < sint target then s\<lparr>leaderEndOffset := target\<rparr> else s)"
  have "waiting_inv s0" using assms by (simp add: s0_def)
  note r = recompute_release_waiting [OF this, of now]
  show ?thesis
    using r(1) unfolding WaitForHighWatermark_def Let_def s0_def [symmetric]
    by (auto simp: waiting_inv_def not_le less_Suc_eq)
qed

lemma removeWaiter_waiting: "waiting_inv s \<Longrightarrow> waiting_inv (removeWaiter w s)"
  by (auto simp: waiting_inv_def removeWaiter_def distinct_fst_filter)

lemma partition_reach_waiting: "partition_reach s \<Longrightarrow> waiting_inv s"
proof (induction rule: partition_reach.induct)
  case (new u now rs lead lag)
  show ?case by (simp add: NewPartitionState_def recompute_def Let_def waiting_inv_def)
next
  case (event s ev)
  then show ?case
    by (cases ev) (simp_all add: RecordFollowerFetch_def HighWatermark_def Let_def recompute_release_waiting(1)
        Wait_waiting removeWaiter_waiting)
qed

lemma Min_le_all:
  "x \<le> Min (in_sync_offsets s now) \<longleftrightarrow> x \<le> sint (leaderEndOffset s)
    \<and> (\<forall>b \<in> set (replicas s). b \<noteq> leaderID s \<longrightarrow> followerInISR s b now \<longrightarrow> x \<le> sint (offset_of s b))"
proof -
  have "in_sync_offsets s now \<noteq> {}" by (simp add: in_sync_offsets_def)
  then show ?thesis using finite_in_sync [of s now] by (auto simp: in_sync_offsets_def)
qed

text \<open>Every event but a timeout recomputes the high watermark and releases.\<close>

lemma event_release:
  assumes "waiting_inv s" "\<And>w. ev \<noteq> Timeout w" "(w, target) \<in> set (waiters s)"
  defines "s' \<equiv> apply_partition_event ev s"
  shows "sint (highWatermark s') = Min (in_sync_offsets s' (event_time ev))"
    and "w \<in> set (closed s') \<longleftrightarrow> sint target \<le> sint (highWatermark s')"
    and "(w, target) \<in> set (waiters s') \<longleftrightarrow> \<not> sint target \<le> sint (highWatermark s')"
proof -
  obtain s0 t where s0: "waiting_inv s0" "waiters s0 = waiters s" "closed s0 = closed s"
    "highWatermark s' = highWatermark (recompute_release (event_time ev) s0)"
    "closed s' = closed (recompute_release (event_time ev) s0)"
    "in_sync_offsets s' (event_time ev) = in_sync_offsets (recompute_release (event_time ev) s0) (event_time ev)"
    "waiters s' = waiters (recompute_release (event_time ev) s0)
      \<or> waiters s' = waiters (recompute_release (event_time ev) s0) @ [(next_waiter s, t)]"
  proof (cases ev)
    case (Wait now t)
    let ?s0 = "if sint (leaderEndOffset s) < sint t then s\<lparr>leaderEndOffset := t\<rparr> else s"
    have i: "waiting_inv ?s0" using assms(1) by simp
    show ?thesis
      by (rule that [of ?s0 t]) (use i recompute_release_waiting(4) [OF i, of now] in
          \<open>auto simp: s'_def Wait WaitForHighWatermark_def Let_def\<close>)
  next
    case (FollowerFetch now now' b off fin)
    show ?thesis
      by (rule that [of "s\<lparr>followerOffset := mput b off (followerOffset s), followerSeen := mput b now (followerSeen s),
            leaderEndOffset := fin\<rparr>"]) (simp_all add: s'_def FollowerFetch RecordFollowerFetch_def assms(1))
  next
    case (QueryHighWatermark now fin)
    show ?thesis
      by (rule that [of "s\<lparr>leaderEndOffset := fin\<rparr>"])
        (simp_all add: s'_def QueryHighWatermark HighWatermark_def Let_def assms(1))
  qed (use assms(2) in simp)
  let ?r = "recompute_release (event_time ev) s0"
  note r = recompute_release_waiting [OF s0(1), of "event_time ev"]
  have new: "w \<notin> set (closed s)" "w < next_waiter s"
    using assms(1) imageI [OF assms(3), of fst] unfolding waiting_inv_def by (simp_all, blast+)
  have uniq: "t = target" if "(w, t) \<in> set (waiters s)" for t
    using assms(1,3) that by (auto simp: waiting_inv_def dest: eq_key_imp_eq_value)
  have f: "(w, target) \<in> set (waiters s') \<longleftrightarrow> (w, target) \<in> set (waiters ?r)"
    using s0(7) new(2) by auto
  note f = this s0(4-6)
  show "sint (highWatermark s') = Min (in_sync_offsets s' (event_time ev))"
    unfolding f recompute_release_hw ..
  show "w \<in> set (closed s') \<longleftrightarrow> sint target \<le> sint (highWatermark s')"
    unfolding f r(3) s0(2,3) using new(1) assms(3) uniq by blast
  show "(w, target) \<in> set (waiters s') \<longleftrightarrow> \<not> sint target \<le> sint (highWatermark s')"
    unfolding f r(2) s0(2) using assms(3) by auto
qed

section \<open>Properties\<close>


definition demo_waiting :: PartitionState where
  "demo_waiting = fst (WaitForHighWatermark 1 5 (NewPartitionState 0 0 [1, 2, 3] 1 10))"


section \<open>What an ISR query does to the calls that wait\<close>

text \<open>
  \<open>ISR\<close> recomputes the high watermark and forgets to release: the waiters it satisfies stay
  parked, and the next recomputation finds nothing changed. Here the only other follower has
  been silent for longer than the lag timeout, so the record counts as replicated, yet the
  request that waits for it is released neither by the query nor by the next fetch.
\<close>

theorem isr_query_loses_wakeup:
  "let s = fst (WaitForHighWatermark 1 5 (NewPartitionState 0 0 [1, 2] 1 10));
       s' = fst (PartitionState_ISR 20 20 s);
       s'' = fst (HighWatermark 21 5 s')
   in closed (fst (HighWatermark 21 5 s)) = [0]
      \<and> highWatermark s' = 5 \<and> waiters s'' = [(0, 5)] \<and> closed s'' = []"
  by code_simp

text \<open>
  A follower is in sync from its first fetch on, wherever that fetch starts; so the high
  watermark moves back when a follower returns.
\<close>

theorem high_watermark_moves_back:
  "let s = fst (HighWatermark 20 5 (NewPartitionState 0 0 [1, 2] 1 10))
   in highWatermark s = 5 \<and> highWatermark (RecordFollowerFetch 21 21 2 0 5 s) = 0"
  by code_simp

section \<open>Copying the leader's log\<close>

text \<open>A batch whose length field is right, which is all that \<open>splitBatches\<close> relies on.\<close>

definition framed :: "bytes \<Rightarrow> bool" where
  "framed b \<longleftrightarrow> 12 \<le> length b \<and> frame_len b = length b"

lemma frame_len_append: "12 \<le> length b \<Longrightarrow> frame_len (b @ c) = frame_len b"
  by (simp add: frame_len_def)

lemma splitBatches_concat: "list_all framed bs \<Longrightarrow> splitBatches (concat bs) = bs"
proof (induction bs)
  case Nil
  show ?case by (subst splitBatches.simps) simp
next
  case (Cons b bs)
  then have "12 \<le> length b" "frame_len b = length b" by (simp_all add: framed_def)
  then show ?case using Cons by (subst splitBatches.simps) (simp add: frame_len_append)
qed

lemma framed_stamp: "framed b \<Longrightarrow> framed (stampOffset off b)"
  by (auto simp: framed_def frame_len_def stampOffset_def)

text \<open>Whatever the input, the pieces are framed and make up a prefix of it.\<close>

lemma splitBatches_prefix:
  "list_all framed (splitBatches b) \<and> prefix (concat (splitBatches b)) b"
proof (induction b rule: splitBatches.induct)
  case (1 b)
  show ?case
  proof (cases "12 \<le> length b \<and> frame_len b \<le> length b")
    case True
    have "frame_len (take (frame_len b) b) = frame_len b" by (simp add: frame_len_def drop_take)
    then have "framed (take (frame_len b) b)" using True by (simp add: framed_def frame_len_def)
    moreover have "prefix (take (frame_len b) b @ concat (splitBatches (drop (frame_len b) b))) b"
      using 1 [OF True] by (metis append_take_drop_id same_prefix_prefix)
    ultimately show ?thesis using 1 [OF True] True by (subst (1 2) splitBatches.simps) simp
  next
    case False
    then show ?thesis by (subst (1 2) splitBatches.simps) auto
  qed
qed

lemma append_batches_sound:
  assumes "log_inv l" "list_all (\<lambda>b. length b < 2 ^ 32) bs" "sint (EndOffset l) + int (length bs) < 2 ^ 63"
  shows "\<exists>k \<le> length bs. log_inv (append_batches bs l) \<and> StartOffset (append_batches bs l) = StartOffset l
    \<and> map Payload (log_entries (append_batches bs l)) = map Payload (log_entries l) @ take k bs
    \<and> (log_healthy l \<and> disk l = [] \<longrightarrow> k = length bs \<and> log_healthy (append_batches bs l)
        \<and> disk (append_batches bs l) = [])"
  using assms
proof (induction bs arbitrary: l)
  case (Cons b bs)
  obtain l1 res where ap: "Append l b = (l1, res)" by fastforce
  have small: "length b < 2 ^ 32" "sint (EndOffset l) < 2 ^ 63 - 1" using Cons.prems(2,3) by simp_all
  show ?case
  proof (cases res)
    case (Inl e)
    have "\<not> (log_healthy l \<and> disk l = [])" using Append_succeeds [of l b] Cons.prems(1) ap Inl by auto
    then show ?thesis
      using seglog.append_err [OF Cons.prems(1) ap [unfolded Inl] small] ap Inl by (intro exI [of _ 0]) simp
  next
    case (Inr off)
    note ok = seglog.append_ok [OF Cons.prems(1) ap [unfolded Inr] small]
    have "sint (EndOffset l1) = sint (EndOffset l) + 1"
      using seglog.fin_recs [of l1] seglog.fin_recs [OF Cons.prems(1)] ok by simp
    then obtain k where k: "k \<le> length bs" "log_inv (append_batches bs l1)"
      "StartOffset (append_batches bs l1) = StartOffset l1"
      "map Payload (log_entries (append_batches bs l1)) = map Payload (log_entries l1) @ take k bs"
      "log_healthy l1 \<and> disk l1 = [] \<longrightarrow> k = length bs \<and> log_healthy (append_batches bs l1)
        \<and> disk (append_batches bs l1) = []"
      using Cons.IH [of l1] Cons.prems ok by auto
    have "log_healthy l \<and> disk l = [] \<Longrightarrow> log_healthy l1 \<and> disk l1 = []"
      using Append_healthy [OF Cons.prems(1) ap [unfolded Inr]] by simp
    then show ?thesis using k ok ap Inr by (intro exI [of _ "Suc k"]) auto
  qed
qed (use assms in simp)

lemma framed_BuildRecordBatch:
  assumes "length (batch_tail rs) < 2 ^ 31"
  shows "framed (BuildRecordBatch rs)"
proof -
  have "unat (of_nat (9 + length (batch_tail rs)) :: uint32) = 9 + length (batch_tail rs)"
    using assms by (subst unat_of_nat) (simp add: take_bit_nat_eq_self)
  then show ?thesis by (simp add: framed_def frame_len_def BuildRecordBatch_def Let_def)
qed

text \<open>
  The broker does not check the length field of a batch that it accepts. With the field set
  to zero the batch is as valid as before, the leader stores it as one record, and a follower
  splits it after twelve bytes.
\<close>

theorem unframed_batch_accepted:
  assumes "validRecordBatch b"
  defines "b' \<equiv> take 8 b @ replicate 4 0 @ drop 12 b"
  shows "validRecordBatch b' \<and> length b' = length b \<and> hd (splitBatches b') = take 12 b' \<and> splitBatches b' \<noteq> [b']"
proof -
  have len: "61 \<le> length b" using assms(1) by (simp add: validRecordBatch_def split: if_splits)
  have eq: "drop n b' = drop n b" if "12 \<le> n" for n
    using that len by (simp add: b'_def)
  have "b' ! 16 = b ! 16" using len by (simp add: b'_def nth_append)
  then have "validRecordBatch b' = validRecordBatch b"
    using len eq [of 17] eq [of 21] by (simp add: validRecordBatch_def bslice_def b'_def Let_def)
  moreover have f: "frame_len b' = 12" using len by (simp add: frame_len_def b'_def be_get_def numeral_eq_Suc)
  moreover have "splitBatches b' = take 12 b' # splitBatches (drop 12 b')"
    using len f by (subst splitBatches.simps) (simp add: b'_def)
  moreover have "length (take 12 b') \<noteq> length b'" using len by (simp add: b'_def)
  ultimately show ?thesis using assms(1) len by (auto simp: b'_def)
qed

definition fetch_header :: RequestHeader where
  "fetch_header = \<lparr>APIKey = 1, APIVersion = 0, CorrelationID = 1, ClientID = None\<rparr>"

definition partition_response :: "string \<Rightarrow> int32 \<Rightarrow> int16 \<Rightarrow> int64 \<Rightarrow> bytes \<Rightarrow> bytes" where
  "partition_response topic pt code hw bs =
     WriteArrayLen 1 @ WriteString topic @ WriteArrayLen 1 @ WriteInt32 pt @ WriteInt16 code @ WriteInt64 hw
     @ WriteBytes bs"

lemma parse_partition_response:
  assumes "length topic < 2 ^ 15" "length bs < 2 ^ 31"
  shows "parseFetchPartition (partition_response topic pt code hw bs) = Inr (Some bs, code)"
proof -
  have "ReadArrayLen (WriteArrayLen 1 @ rest) = Inr (1, rest)" for rest
    using ReadArrayLen_Write [of 1 rest] by simp
  moreover have "ReadBytes (WriteBytes bs @ []) = Inr (Some bs, [])" by (rule ReadBytes_Write [OF assms(2)])
  ultimately show ?thesis
    using assms by (simp add: parseFetchPartition_def parse_fetch_def partition_response_def codec_rt)
qed

lemma fetchOnce_response:
  assumes "net (fLeader f) (WriteRequestHeader fetch_header
      @ buildFetchRequest (fSelfID f) (fTopic f) (fPartition f) (EndOffset l) (fMaxBytes f))
      = Inr (WriteResponseHeader 1 @ partition_response topic pt code hw bs)"
    and "length topic < 2 ^ 15" "length bs < 2 ^ 31" "\<not> Paused flt"
  shows "fetchOnce net flt f l = (if code = ErrNone then append_batches (splitBatches bs) l else l)"
  using assms ReadResponseHeader_Write [of 1 "partition_response topic pt code hw bs"]
    parse_partition_response [OF assms(2,3)]
  by (simp add: fetchOnce_def BrokerClient_Send_def fetch_header_def WriteResponseHeader_def)

section \<open>Roles\<close>

text \<open>A broker never leads and follows the same partition.\<close>

definition roles_ok :: "ReplicationManager \<Rightarrow> bool" where
  "roles_ok m \<longleftrightarrow> (\<forall>key. map_of (fetchers m) key = None \<or> map_of (led m) key = None)"

lemma lead_key_led: "map_of (led (lead_key now key rs m)) key \<noteq> None"
  by (simp add: lead_key_def split: option.split)

lemma lead_key_other:
  "key' \<noteq> key \<Longrightarrow> map_of (led (lead_key now key rs m)) key' = map_of (led m) key'"
  "fetchers (lead_key now key rs m) = fetchers m" "rmSelfID (lead_key now key rs m) = rmSelfID m"
  "rmMembership (lead_key now key rs m) = rmMembership m" "rmLagTimeout (lead_key now key rs m) = rmLagTimeout m"
  by (simp_all add: lead_key_def split: option.split)

lemma start_partition_fields:
  assumes "start_partition now topic pt (m, st) = (m', st')"
  shows "rmSelfID m' = rmSelfID m \<and> rmMembership m' = rmMembership m \<and> rmLagTimeout m' = rmLagTimeout m
    \<and> (\<forall>key. key \<noteq> \<lparr>tpTopic = topic, tpPartition = ID pt\<rparr> \<longrightarrow>
        map_of (fetchers m') key = map_of (fetchers m) key \<and> map_of (led m') key = map_of (led m) key)"
  using assms
  by (auto simp: start_partition_def stopFollowingKey_def lead_key_other Let_def
      split: if_splits option.splits prod.splits sum.splits)

lemma start_partition_roles:
  assumes "start_partition now topic pt (m, st) = (m', st')" "roles_ok m"
  shows "roles_ok m'"
proof -
  let ?key = "\<lparr>tpTopic = topic, tpPartition = ID pt\<rparr>"
  have "map_of (fetchers m) ?key = None \<or> map_of (led m) ?key = None"
    using assms(2) by (simp add: roles_ok_def)
  then have "map_of (fetchers m') ?key = None \<or> map_of (led m') ?key = None"
    using assms(1)
    by (auto simp: start_partition_def stopFollowingKey_def lead_key_other Let_def
        split: if_splits option.splits prod.splits sum.splits)
  then show ?thesis
    using start_partition_fields [OF assms(1)] assms(2) unfolding roles_ok_def by metis
qed

lemma StartFollowing_roles:
  assumes "roles_ok m"
  shows "roles_ok (fst (StartFollowing now t (m, st)))"
proof -
  have "roles_ok (fst (fold (start_partition now (Name t)) ps mm))" if "roles_ok (fst mm)" for ps mm
    using that
  proof (induction ps arbitrary: mm)
    case (Cons p ps)
    then show ?case using start_partition_roles [of now "Name t" p "fst mm" "snd mm"] by (cases "start_partition now (Name t) p mm") auto
  qed simp
  from this [of "(m, st)"] show ?thesis using assms by (simp add: StartFollowing_def)
qed

end
