(* ===== verification/Broker_Correct.thy ===== *)
theory Broker_Correct
  imports Broker_Views Replication_Correct
begin

text \<open>
  The properties that span the components of the broker: what a produced record and a fetch
  mean for the log, when a request that waits for replicas is answered, and how a follower's
  log relates to the leader's.
\<close>

section \<open>Running the handlers\<close>

lemma rbind_apply:
  "rbind (rread d) f s bs = (case d bs of Inl e \<Rightarrow> (s, Inl e) | Inr (x, bs') \<Rightarrow> f x s bs')"
  "rbind (rdo g) f s bs = f (snd (g s)) (fst (g s)) bs"
  "rbind (rreturn x) f s bs = f x s bs"
  "rdo g s bs = (fst (g s), Inr (snd (g s), bs))" "rreturn x s bs = (s, Inr (x, bs))"
  "rread d s bs = (s, d bs)"
  by (simp_all add: rbind_def rread_def rdo_def rreturn_def split: sum.split prod.split)

lemma rbind_assoc: "rbind (rbind r f) g = rbind r (\<lambda>x. rbind (f x) g)"
  by (simp add: rbind_def fun_eq_iff split: sum.split prod.split)

lemma ReadArrayLen_1: "ReadArrayLen (WriteArrayLen 1 @ rest) = Inr (1, rest)"
  using ReadArrayLen_Write [of 1 rest] by simp

lemma rarray_1: "rbind (rarray r) f s (WriteArrayLen 1 @ rest) = rbind r (\<lambda>x. f [x]) s rest"
  by (simp add: rarray_def rbind_assoc rbind_apply ReadArrayLen_1) (simp add: rbind_def rreturn_def split: sum.split prod.split)

lemma ReadInt32_last: "ReadInt32 (WriteInt32 w) = Inr (w, [])"
  using read_fixed(3) [of w "[]"] by simp

lemma handleFetch_one:
  assumes "length name < 2 ^ 15"
  shows "handleFetch now b (buildFetchRequest rid name idx off mb)
    = (case fetchPartition now rid name idx off mb b of
         (b', p) \<Rightarrow> (b', Inr (partition_response name (fpIndex p) (fpErrorCode p) (fpHighWatermark p) (fpRecords p))))"
  using assms ReadInt32_last [of mb]
  by (simp add: handleFetch_def run_reader_def buildFetchRequest_def rtopics_def rbind_assoc rbind_apply codec_rt
      rarray_1 writeFetchResponse_def write_topics_def WriteArray_def partition_response_def case_prod_beta)

section \<open>Copying the leader's log\<close>

text \<open>The leader as a peer on the network, with the state it has when the request arrives.\<close>

definition leader_peer :: "int \<Rightarrow> BrokerNode \<Rightarrow> transport" where
  "leader_peer now b = (\<lambda>target payload.
     case snd (Dispatch id now b payload) of Some res \<Rightarrow> res | None \<Rightarrow> Inl EOF)"

lemma Dispatch_fetch:
  "Dispatch env now b (WriteRequestHeader fetch_header @ body)
    = (case handleFetch now b body of
         (b', res) \<Rightarrow> (b', Some (map_sum id (\<lambda>r. WriteResponseHeader 1 @ r) res)))"
proof -
  have "ReadRequestHeader (WriteRequestHeader fetch_header @ body) = Inr (fetch_header, body)"
    by (rule header_codec.dec_enc) (simp add: header_ok_def fetch_header_def)
  then show ?thesis
    by (simp add: Dispatch_def dispatchTable_def fetch_header_def at_once_def split: prod.split)
qed

lemma consecutive_prefix:
  assumes "consecutive b xs" "consecutive b ys" "prefix (map Payload xs) (map Payload ys)"
  shows "prefix xs ys"
proof -
  obtain zs where zs: "map Payload ys = map Payload xs @ zs" using assms(3) by (auto elim: prefixE)
  have len: "length xs \<le> length ys" using arg_cong [OF zs, of length] by simp
  have "xs ! i = ys ! i" if "i < length xs" for i
  proof -
    have "Payload (xs ! i) = Payload (ys ! i)"
      using arg_cong [OF zs, of "\<lambda>l. l ! i"] that len by (simp add: nth_append)
    moreover have "Offset (xs ! i) = Offset (ys ! i)"
      using assms(1,2) that len by (auto simp: consecutive_def simp flip: sint_eq_iff)
    ultimately show ?thesis by simp
  qed
  then have "xs = take (length xs) ys" using len by (simp add: list_eq_iff_nth_eq)
  then show ?thesis by (metis take_is_prefix)
qed

lemma fetchPartition_read:
  assumes "partition_at (bTopics b) name idx = Some p" "Manager_Log (bLogs b) name idx = (st, Inr l)"
    and "0 \<le> sint off" "sint off \<le> sint (EndOffset l)" "Read l off (sint mb) = Inr rs"
    and "off = EndOffset l \<longrightarrow> rs = []"
  shows "fpIndex (snd (fetchPartition now rid name idx off mb b)) = idx"
    "fpErrorCode (snd (fetchPartition now rid name idx off mb b)) = ErrNone"
    "fpRecords (snd (fetchPartition now rid name idx off mb b)) = concat (map Payload rs)"
  using assms by (auto simp: fetchPartition_def Let_def joinRecordPayloads_def case_prod_beta)

lemma sum_butlast:
  assumes "rs \<noteq> []" "(\<Sum>r \<leftarrow> butlast rs. length (Payload r)) < a" "length (Payload (last rs)) < c"
  shows "length (concat (map Payload rs)) < a + c"
proof -
  obtain xs x where rs: "rs = xs @ [x]" using assms(1) by (metis rev_exhaust)
  show ?thesis using assms(2,3) by (simp add: rs length_concat comp_def)
qed

text \<open>The batch bytes that the leader answers with, for a follower that holds a prefix.\<close>

lemma leader_answers:
  assumes "partition_at (bTopics b) name idx = Some p" "Manager_Log (bLogs b) name idx = (st, Inr l)"
    and "log_inv l" "log_healthy l" "StartOffset l = 0" "\<forall>r \<in> set (log_entries l). length (Payload r) < 2 ^ 30"
    and "sint off = int n" "n \<le> length (log_entries l)" "0 < sint mb" "sint mb \<le> 2 ^ 20" "length name < 2 ^ 15"
  obtains rs code hw where "prefix rs (drop n (log_entries l))" "n < length (log_entries l) \<Longrightarrow> rs \<noteq> []"
    "length (concat (map Payload rs)) < 2 ^ 31"
    "leader_peer now b target (WriteRequestHeader fetch_header @ buildFetchRequest rid name idx off mb)
      = Inr (WriteResponseHeader 1 @ partition_response name idx ErrNone hw (concat (map Payload rs)))"
proof -
  have fin: "sint (EndOffset l) = int (length (log_entries l))"
    using seglog.fin_recs [OF assms(3)] assms(5) by simp
  obtain rs where rs: "Read l off (sint mb) = Inr rs" "prefix rs (drop n (log_entries l))"
    "n < length (log_entries l) \<longrightarrow> rs \<noteq> []" "int (\<Sum>r \<leftarrow> butlast rs. length (Payload r)) < sint mb"
    using Read_spec [OF assms(3), of off "sint mb"] assms(4,5,7,9) fin
    by (auto simp: log_healthy_def EndOffset_def)
  have sub: "set rs \<subseteq> set (log_entries l)"
    using set_mono_prefix [OF rs(2)] set_drop_subset by fast
  have small: "length (concat (map Payload rs)) < 2 ^ 31"
  proof (cases "rs = []")
    case False
    have "length (Payload (last rs)) < 2 ^ 30" using assms(6) sub last_in_set [OF False] by blast
    moreover have "int (\<Sum>r \<leftarrow> butlast rs. length (Payload r)) < int (2 ^ 20)"
      using less_le_trans [OF rs(4) assms(10)] by simp
    then have "(\<Sum>r \<leftarrow> butlast rs. length (Payload r)) < 2 ^ 20" by (simp only: of_nat_less_iff)
    ultimately show ?thesis using sum_butlast [OF False] by fastforce
  qed simp
  have none: "off = EndOffset l \<longrightarrow> rs = []"
    using rs(2) fin assms(7) by auto
  have rng: "0 \<le> sint off" "sint off \<le> sint (EndOffset l)" using assms(7,8) fin by simp_all
  note fp = fetchPartition_read [OF assms(1,2) rng rs(1) none, of now rid]
  have "leader_peer now b target (WriteRequestHeader fetch_header @ buildFetchRequest rid name idx off mb)
      = Inr (WriteResponseHeader 1 @ partition_response name idx ErrNone
          (fpHighWatermark (snd (fetchPartition now rid name idx off mb b))) (concat (map Payload rs)))"
    by (simp add: leader_peer_def Dispatch_fetch handleFetch_one [OF assms(11)] case_prod_beta fp)
  then show ?thesis using that rs(2,3) small by blast
qed

text \<open>What the two brokers have to do with each other for the follower to copy a partition.\<close>

definition leads_log :: "BrokerNode \<Rightarrow> fetcher \<Rightarrow> Log \<Rightarrow> bool" where
  "leads_log b f l \<longleftrightarrow> partition_at (bTopics b) (fTopic f) (fPartition f) \<noteq> None
     \<and> snd (Manager_Log (bLogs b) (fTopic f) (fPartition f)) = Inr l
     \<and> log_inv l \<and> log_healthy l \<and> StartOffset l = 0
     \<and> (\<forall>r \<in> set (log_entries l). framed (Payload r) \<and> length (Payload r) < 2 ^ 30)
     \<and> 0 < sint (fMaxBytes f) \<and> sint (fMaxBytes f) \<le> 2 ^ 20 \<and> length (fTopic f) < 2 ^ 15"

definition copy_of :: "Log \<Rightarrow> Log \<Rightarrow> bool" where
  "copy_of local l \<longleftrightarrow> log_inv local \<and> StartOffset local = 0 \<and> prefix (log_entries local) (log_entries l)"

lemma fetchOnce_copies:
  fixes now :: int and flt :: "Config option"
  assumes "leads_log b f l" "copy_of local l"
  defines "local' \<equiv> fetchOnce (leader_peer now b) flt f local"
  shows "copy_of local' l \<and> prefix (log_entries local) (log_entries local')"
    and "log_healthy local \<Longrightarrow> disk local = [] \<Longrightarrow> log_healthy local' \<and> disk local' = []
      \<and> (\<not> Paused flt \<longrightarrow> log_entries local \<noteq> log_entries l \<longrightarrow> length (log_entries local) < length (log_entries local'))"
proof -
  let ?n = "length (log_entries local)"
  obtain p st where L: "partition_at (bTopics b) (fTopic f) (fPartition f) = Some p"
    "Manager_Log (bLogs b) (fTopic f) (fPartition f) = (st, Inr l)" "log_inv l" "log_healthy l" "StartOffset l = 0"
    "\<forall>r \<in> set (log_entries l). framed (Payload r) \<and> length (Payload r) < 2 ^ 30"
    "0 < sint (fMaxBytes f)" "sint (fMaxBytes f) \<le> 2 ^ 20" "length (fTopic f) < 2 ^ 15"
    using assms(1) by (auto simp: leads_log_def) (metis prod.collapse)
  have F: "log_inv local" "StartOffset local = 0" "prefix (log_entries local) (log_entries l)"
    using assms(2) by (simp_all add: copy_of_def)
  have off: "sint (EndOffset local) = int ?n" using seglog.fin_recs [OF F(1)] F(2) by simp
  have n: "?n \<le> length (log_entries l)" using F(3) by (rule prefix_length_le)
  have fin: "sint (EndOffset l) = int (length (log_entries l))" using seglog.fin_recs [OF L(3)] L(5) by simp
  obtain rs code hw where rs: "prefix rs (drop ?n (log_entries l))" "?n < length (log_entries l) \<Longrightarrow> rs \<noteq> []"
    "length (concat (map Payload rs)) < 2 ^ 31"
    "leader_peer now b (fLeader f) (WriteRequestHeader fetch_header
        @ buildFetchRequest (fSelfID f) (fTopic f) (fPartition f) (EndOffset local) (fMaxBytes f))
      = Inr (WriteResponseHeader 1 @ partition_response (fTopic f) (fPartition f) ErrNone hw (concat (map Payload rs)))"
    by (rule leader_answers [OF L(1-5) _ off n L(7-9), where now = now and rid = "fSelfID f" and target = "fLeader f"])
      (use L(6) in blast)+
  let ?ps = "map Payload rs"
  have sub: "set rs \<subseteq> set (log_entries l)" using set_mono_prefix [OF rs(1)] set_drop_subset by fast
  have "list_all framed ?ps" using sub L(6) by (auto simp: list_all_iff)
  then have eq: "local' = (if Paused flt then local else append_batches ?ps local)"
    using fetchOnce_response [of "leader_peer now b" f local, OF rs(4) L(9) rs(3), of flt] splitBatches_concat [of ?ps]
    by (auto simp: local'_def fetchOnce_def)
  have len: "?n + length rs \<le> length (log_entries l)" using prefix_length_le [OF rs(1)] n by simp
  have bnd: "sint (EndOffset local) + int (length ?ps) < 2 ^ 63"
    using len off fin sint_range_64(2) [of "EndOffset l"] by simp
  have small: "list_all (\<lambda>b. length b < 2 ^ 32) ?ps"
    using sub L(6) by (fastforce simp: list_all_iff)
  obtain k where k: "k \<le> length ?ps" "log_inv (append_batches ?ps local)"
    "StartOffset (append_batches ?ps local) = StartOffset local"
    "map Payload (log_entries (append_batches ?ps local)) = map Payload (log_entries local) @ take k ?ps"
    "log_healthy local \<and> disk local = [] \<longrightarrow> k = length ?ps \<and> log_healthy (append_batches ?ps local)
      \<and> disk (append_batches ?ps local) = []"
    using append_batches_sound [OF F(1) small bnd] by blast
  obtain zs where zs: "log_entries l = log_entries local @ rs @ zs"
    using F(3) rs(1) by (auto elim!: prefixE)
  have cons: "consecutive 0 (log_entries x)" if "log_inv x" "StartOffset x = 0" for x
    using seglog.recs_offsets [OF that(1)] that(2) by simp
  have "map Payload (log_entries l) = map Payload (log_entries (append_batches ?ps local)) @ (drop k ?ps @ map Payload zs)"
    unfolding k(4) zs by (metis append.assoc append_take_drop_id map_append)
  then have p1: "prefix (log_entries (append_batches ?ps local)) (log_entries l)"
    using cons [OF k(2)] cons [OF L(3,5)] k(3) F(2) by (intro consecutive_prefix [of 0]) auto
  have p2: "prefix (log_entries local) (log_entries (append_batches ?ps local))"
    using cons [OF k(2)] cons [OF F(1,2)] k(3,4) F(2) by (intro consecutive_prefix [of 0]) auto
  show "copy_of local' l \<and> prefix (log_entries local) (log_entries local')"
    using assms(2) p1 p2 k(2,3) F(2) by (simp add: eq copy_of_def)
  show "log_healthy local' \<and> disk local' = []
      \<and> (\<not> Paused flt \<longrightarrow> log_entries local \<noteq> log_entries l \<longrightarrow> length (log_entries local) < length (log_entries local'))"
    if h: "log_healthy local" "disk local = []"
  proof -
    have "rs \<noteq> []" if "log_entries local \<noteq> log_entries l"
      using rs(2) F(3) that n by (metis le_neq_implies_less prefixE append_eq_append_conv append_Nil2)
    moreover have "length (log_entries (append_batches ?ps local)) = ?n + length rs"
      using arg_cong [OF k(4), of length] k(5) h by simp
    ultimately show ?thesis using k(5) h by (auto simp: eq)
  qed
qed

lemma fetch_rounds:
  assumes "leads_log b f l" "copy_of local l" "log_healthy local" "disk local = []" "\<not> Paused flt"
  shows "let local' = (fetchOnce (leader_peer now b) flt f ^^ k) local
    in copy_of local' l \<and> log_healthy local' \<and> disk local' = []
      \<and> min (length (log_entries local) + k) (length (log_entries l)) \<le> length (log_entries local')"
proof (induction k)
  case (Suc k)
  let ?x = "(fetchOnce (leader_peer now b) flt f ^^ k) local"
  have x: "copy_of ?x l" "log_healthy ?x" "disk ?x = []"
    "min (length (log_entries local) + k) (length (log_entries l)) \<le> length (log_entries ?x)"
    using Suc by (simp_all add: Let_def)
  note step = fetchOnce_copies(1) [OF assms(1) x(1), of now flt] fetchOnce_copies(2) [OF assms(1) x(1-3), of now flt]
  have "length (log_entries ?x) \<le> length (log_entries (fetchOnce (leader_peer now b) flt f ?x))"
    using step(1) by (blast intro: prefix_length_le)
  then show ?case using step x(4) assms(5) by (auto simp: Let_def)
qed (use assms in \<open>simp add: Let_def\<close>)

text \<open>
  C9. The follower's log is a copy of the leader's, byte for byte and offset for offset. A
  fetch from the leader, over the real request and response formats, leaves the follower's log
  a prefix of the leader's, also when its disk fails in the middle; and a follower whose disk
  works and that is not paused moves on with every fetch, so that after as many fetches as it
  lacks records the two logs are equal. (Every stored batch has to have the right length field
  and the sizes fit the wire format.)
\<close>

theorem follower_copies:
  assumes "leads_log b f l" "copy_of local l"
  shows "copy_of (fetchOnce (leader_peer now b) flt f local) l
    \<and> prefix (log_entries local) (log_entries (fetchOnce (leader_peer now b) flt f local))
    \<and> (log_healthy local \<longrightarrow> disk local = [] \<longrightarrow> \<not> Paused flt \<longrightarrow>
        (\<forall>k. length (log_entries l) \<le> length (log_entries local) + k \<longrightarrow>
          log_entries ((fetchOnce (leader_peer now b) flt f ^^ k) local) = log_entries l))"
proof -
  have "log_entries ((fetchOnce (leader_peer now b) flt f ^^ k) local) = log_entries l"
    if "log_healthy local" "disk local = []" "\<not> Paused flt" "length (log_entries l) \<le> length (log_entries local) + k" for k
  proof -
    let ?x = "(fetchOnce (leader_peer now b) flt f ^^ k) local"
    have "prefix (log_entries ?x) (log_entries l)" "length (log_entries l) \<le> length (log_entries ?x)"
      using fetch_rounds [OF assms that(1-3), where now = now and k = k] that(4)
      by (simp_all add: Let_def copy_of_def min_def split: if_splits)
    then show ?thesis by (metis append_Nil2 append_eq_append_conv le_antisym prefixE prefix_length_le)
  qed
  then show ?thesis using fetchOnce_copies(1) [OF assms, of now flt] by blast
qed

text \<open>A leader with one batch in the log of its only partition, and a follower without any.\<close>

definition demo_batch_bytes :: bytes where
  "demo_batch_bytes = replicate 12 0"

definition demo_log :: Log where
  "demo_log = fst (appends (fresh_log []) [demo_batch_bytes])"

definition demo_topic :: Topic where
  "demo_topic = \<lparr>Name = ''t'', PartitionList = [\<lparr>ID = 0, Leader = 1, Replicas = [1, 2], ISR = [1, 2]\<rparr>]\<rparr>"

definition demo_leader :: BrokerNode where
  "demo_leader = (new_broker 1 9092 three_brokers (put_log (NewManager ''d'') ''t'' 0 demo_log) (fresh_log []))
     \<lparr>bTopics := Registry_Add NewRegistry demo_topic\<rparr>"

definition demo_fetcher :: fetcher where
  "demo_fetcher = \<lparr>fTopic = ''t'', fPartition = 0, fSelfID = 2,
     fLeader = \<lparr>BrokerID = 1, Host = ''a'', Port = 1\<rparr>, fMaxBytes = 2 ^ 20\<rparr>"

lemma demo_log_props:
  "log_inv demo_log" "log_healthy demo_log" "StartOffset demo_log = 0"
  "log_entries demo_log = [\<lparr>Offset = 0, Payload = demo_batch_bytes\<rparr>]"
proof -
  obtain l acked where ap: "appends (fresh_log []) [demo_batch_bytes] = (l, acked)" by fastforce
  have "snd (appends (fresh_log []) [demo_batch_bytes]) = [\<lparr>Offset = 0, Payload = demo_batch_bytes\<rparr>]" by code_simp
  then have "acked = [\<lparr>Offset = 0, Payload = demo_batch_bytes\<rparr>]" unfolding ap by simp
  moreover have "l = demo_log" using ap by (simp add: demo_log_def)
  ultimately show "log_inv demo_log" "StartOffset demo_log = 0"
    "log_entries demo_log = [\<lparr>Offset = 0, Payload = demo_batch_bytes\<rparr>]"
    using appends_sound [OF fresh_log_inv(1,4) _ _ _ ap] by (simp_all add: fresh_log_inv demo_batch_bytes_def)
  show "log_healthy demo_log" by code_simp
qed

lemma demo_leads: "leads_log demo_leader demo_fetcher demo_log"
proof -
  have f: "framed demo_batch_bytes" by code_simp
  have "partition_at (bTopics demo_leader) ''t'' 0 \<noteq> None" by code_simp
  moreover have "snd (Manager_Log (bLogs demo_leader) ''t'' 0) = Inr demo_log"
    by (simp add: demo_leader_def new_broker_def put_log_def NewManager_def Manager_Log_def Let_def)
  ultimately show ?thesis
    using demo_log_props f by (simp add: leads_log_def demo_fetcher_def demo_batch_bytes_def)
qed

theorem follower_copies_witness:
  "log_entries (fetchOnce (leader_peer 0 demo_leader) None demo_fetcher (fresh_log []))
    = [\<lparr>Offset = 0, Payload = demo_batch_bytes\<rparr>]"
proof -
  have "copy_of (fresh_log []) demo_log" by (simp add: copy_of_def fresh_log_inv)
  moreover have "log_healthy (fresh_log [])" "\<not> Paused None" by code_simp+
  ultimately show ?thesis
    using follower_copies [OF demo_leads, of "fresh_log []" 0 None] demo_log_props(4)
    by (auto simp: fresh_log_inv dest: spec [of _ 1])
qed

section \<open>Producing\<close>

lemma Manager_Log_put:
  "Manager_Log m name idx = (st, Inr l) \<Longrightarrow>
    logs st = (if map_of (logs m) (logKey name idx) = None then mput (logKey name idx) l (logs m) else logs m)
    \<and> map_of (logs st) (logKey name idx) = Some l"
  by (auto simp: Manager_Log_def Let_def split: option.splits sum.splits)

lemma Manager_Log_hit:
  "map_of (logs m) (logKey name idx) = Some l \<Longrightarrow> Manager_Log m name idx = (m, Inr l)"
  by (simp add: Manager_Log_def Let_def)

text \<open>The records of a partition, and the other partitions' logs.\<close>

definition holds_log :: "BrokerNode \<Rightarrow> string \<Rightarrow> int32 \<Rightarrow> Log \<Rightarrow> bool" where
  "holds_log b name idx l \<longleftrightarrow> snd (Manager_Log (bLogs b) name idx) = Inr l"

definition same_logs :: "BrokerNode \<Rightarrow> BrokerNode \<Rightarrow> string \<Rightarrow> int32 \<Rightarrow> bool" where
  "same_logs b b' name idx \<longleftrightarrow> (\<forall>key. key \<noteq> logKey name idx \<longrightarrow> map_of (logs (bLogs b')) key = map_of (logs (bLogs b)) key)"

lemma put_log_holds:
  assumes "Manager_Log (bLogs b) name idx = (st, Inr l)" "bLogs b' = put_log st name idx l'"
  shows "holds_log b' name idx l' \<and> same_logs b b' name idx"
  using Manager_Log_put [OF assms(1)] assms(2)
  by (auto simp: holds_log_def same_logs_def put_log_def Manager_Log_hit split: if_splits)

definition duplicate :: "BrokerNode \<Rightarrow> string \<Rightarrow> int32 \<Rightarrow> bytes \<Rightarrow> bool" where
  "duplicate b name idx batch \<longleftrightarrow> 0 \<le> sint (be_get (bslice 43 51 batch) :: int64)
     \<and> decision (checkSequenceLocked (bProducers b) (be_get (bslice 43 51 batch)) name idx
         (be_get (bslice 53 57 batch))) = Duplicate"

lemma append_stamped_effect:
  assumes "log_inv l" "61 \<le> length batch" "length batch < 2 ^ 32" "sint (EndOffset l) < 2 ^ 63 - 1"
    and "append_stamped batch l = (l', res)"
  shows "log_inv l' \<and> StartOffset l' = StartOffset l
    \<and> (case res of Inl e \<Rightarrow> log_entries l' = log_entries l
       | Inr off \<Rightarrow> off = EndOffset l \<and> log_entries l' = log_entries l @ [\<lparr>Offset = off, Payload = stampOffset off batch\<rparr>])"
  using AppendWithOffset_sound [OF assms(1), of batch stampOffset l' res] assms(2-5)
  by (auto simp: append_stamped_def EndOffset_def stampOffset_def split: sum.splits)

lemma append_stamped_ready:
  assumes "log_inv l" "log_healthy l" "disk l = []" "validRecordBatch batch" "length batch < 2 ^ 31" "sint (EndOffset l) < 2 ^ 63 - 1"
  obtains l' where "append_stamped batch l = (l', Inr (EndOffset l))" "log_inv l'" "log_healthy l'" "disk l' = []"
    "StartOffset l' = StartOffset l" "EndOffset l' = EndOffset l + 1"
    "log_entries l' = log_entries l @ [\<lparr>Offset = EndOffset l, Payload = stampOffset (EndOffset l) batch\<rparr>]"
proof -
  obtain l' off where l': "append_stamped batch l = (l', Inr off)" "log_healthy l'" "disk l' = []"
    using AppendWithOffset_complete [of l batch stampOffset] assms(1-3) by (auto simp: append_stamped_def log_healthy_def)
  have "61 \<le> length batch" using assms(4) by (auto simp: validRecordBatch_def split: if_splits)
  note e = append_stamped_effect [OF assms(1) this _ assms(6) l'(1), simplified]
  have "sint (EndOffset l') = sint (EndOffset l) + 1"
    using seglog.fin_recs [of l'] seglog.fin_recs [OF assms(1)] e assms(5) by simp
  then have "EndOffset l' = EndOffset l + 1"
    using sint_add_64 [of "EndOffset l" 1] assms(6) seglog.fin_recs [OF assms(1)] seglog.first_nonneg [OF assms(1)]
    by (simp flip: sint_eq_iff)
  then show ?thesis using that [of l'] e l' assms(5) by simp
qed

lemma waitForAllAcks_none: "acks \<noteq> -1 \<Longrightarrow> waitForAllAcks env now name idx base acks b response = (b, response)"
  by (simp add: waitForAllAcks_def)

text \<open>The accepting path of \<open>producePartition\<close>: what reaches the log and what comes back.\<close>

definition produced :: "BrokerNode \<Rightarrow> string \<Rightarrow> int32 \<Rightarrow> bytes \<Rightarrow> Log \<Rightarrow> BrokerNode \<Rightarrow> producePartitionResponse \<Rightarrow> bool" where
  "produced b name idx batch l b' resp \<longleftrightarrow>
     (\<exists>l'. holds_log b' name idx l' \<and> same_logs b b' name idx \<and> log_inv l' \<and> StartOffset l' = StartOffset l
       \<and> (if ppErrorCode resp = ErrNone \<and> \<not> duplicate b name idx batch
          then ppBaseOffset resp = EndOffset l
            \<and> log_entries l' = log_entries l
                @ [\<lparr>Offset = ppBaseOffset resp, Payload = stampOffset (ppBaseOffset resp) batch\<rparr>]
            \<and> validRecordBatch (stampOffset (ppBaseOffset resp) batch)
            \<and> (\<exists>p. partition_at (bTopics b) name idx = Some p \<and> Leader p = NodeID b)
          else log_entries l' = log_entries l))"

lemma produced_unchanged:
  "holds_log b name idx l \<Longrightarrow> log_inv l \<Longrightarrow> ppErrorCode resp \<noteq> ErrNone \<Longrightarrow> produced b name idx batch l b resp"
  by (auto simp: produced_def same_logs_def)

lemma err_codes_neq:
  "ErrUnknown \<noteq> ErrNone" "ErrUnknownTopicOrPartition \<noteq> ErrNone" "ErrNotLeaderForPartition \<noteq> ErrNone"
  "ErrCorruptMessage \<noteq> ErrNone" "ErrOutOfOrderSequenceNumber \<noteq> ErrNone" "ErrRequestTimedOut \<noteq> ErrNone"
  by (simp_all add: err_code_defs)

lemma producePartition_rejects:
  assumes "holds_log b name idx l" "log_inv l"
    and "\<not> (\<exists>p. partition_at (bTopics b) name idx = Some p \<and> Leader p = NodeID b \<and> validRecordBatch batch)"
  shows "case producePartition env now name idx batch acks b of (b', resp) \<Rightarrow> produced b name idx batch l b' resp"
  using assms by (auto simp: producePartition_def Let_def err_codes_neq split: option.splits intro!: produced_unchanged)

lemma producePartition_accepts:
  assumes "holds_log b name idx l" "log_inv l" "length batch < 2 ^ 32" "sint (EndOffset l) < 2 ^ 63 - 1" "acks \<noteq> -1"
    and p: "partition_at (bTopics b) name idx = Some p" "Leader p = NodeID b" "validRecordBatch batch"
  shows "case producePartition env now name idx batch acks b of (b', resp) \<Rightarrow> produced b name idx batch l b' resp"
proof -
  obtain st where got: "Manager_Log (bLogs b) name idx = (st, Inr l)"
    using assms(1) by (metis holds_log_def prod.collapse)
  have len: "61 \<le> length batch" using p(3) by (simp add: validRecordBatch_def split: if_splits)
  obtain l' res where ap: "append_stamped batch l = (l', res)" by fastforce
  note eff = append_stamped_effect [OF assms(2) len assms(3,4) ap]
  note put = put_log_holds [OF got]
  have fin: "produced b name idx batch l b' resp"
    if "bLogs b' = put_log st name idx l'" "\<not> duplicate b name idx batch"
      "case res of Inl _ \<Rightarrow> ppErrorCode resp \<noteq> ErrNone | Inr off \<Rightarrow> ppErrorCode resp = ErrNone \<and> ppBaseOffset resp = off" for b' resp
    using put [OF that(1)] that(2,3) eff p p(3) valid_stampOffset [of "EndOffset l" batch] by (auto simp: produced_def split: sum.splits)
  have same: "produced b name idx batch l b' resp"
    if "bLogs b' = put_log st name idx l" "ppErrorCode resp \<noteq> ErrNone \<or> duplicate b name idx batch" for b' resp
    using put [OF that(1)] that(2) assms(2) by (auto simp: produced_def)
  let ?pd = "be_get (bslice 43 51 batch) :: int64"
  let ?chk = "checkSequenceLocked (bProducers b) ?pd name idx (be_get (bslice 53 57 batch))"
  show ?thesis
  proof (cases "0 \<le> sint ?pd")
    case False
    then have "\<not> duplicate b name idx batch" by (simp add: duplicate_def)
    then show ?thesis
      using False p got ap by (cases res) (auto simp: producePartition_def Let_def waitForAllAcks_none assms(5) err_codes_neq intro!: fin)
  next
    case True
    have dup: "duplicate b name idx batch \<longleftrightarrow> decision ?chk = Duplicate" using True by (simp add: duplicate_def)
    show ?thesis
    proof (cases "decision ?chk")
      case AppendBatchNow
      then show ?thesis
        using True p got ap dup
        by (cases res) (auto simp: producePartition_def AppendBatch_def Let_def waitForAllAcks_none assms(5) err_codes_neq intro!: fin)
    qed (use True p got dup in \<open>auto simp: producePartition_def AppendBatch_def Let_def err_codes_neq intro!: same\<close>)
  qed
qed


text \<open>
  A repeated batch is acknowledged at once, also with \<open>acks=all\<close>: its producer gets the answer
  that the batch is replicated, whatever the followers have.
\<close>

theorem duplicate_skips_acks:
  assumes "holds_log b name idx l" "partition_at (bTopics b) name idx = Some p" "Leader p = NodeID b"
    and "validRecordBatch batch" "duplicate b name idx batch"
  shows "\<exists>b' resp. producePartition env now name idx batch (-1) b = (b', resp) \<and> ppErrorCode resp = ErrNone
    \<and> bReplication b' = bReplication b"
  using assms
  by (cases "Manager_Log (bLogs b) name idx")
    (auto simp: producePartition_def duplicate_def holds_log_def AppendBatch_def Let_def)

definition demo_produce :: bytes where
  "demo_produce = BuildRecordBatch [\<lparr>Key = None, Value = [7]\<rparr>]"

lemma demo_produce_ok: "length demo_produce < 2 ^ 32" "validRecordBatch demo_produce"
  "sint (be_get (bslice 43 51 demo_produce) :: int64) = -1"
proof -
  have "length (batch_tail [\<lparr>Key = None, Value = [7]\<rparr>]) < 100" by code_simp
  then show "length demo_produce < 2 ^ 32" by (simp add: demo_produce_def BuildRecordBatch_def Let_def)
  show "validRecordBatch demo_produce" by (simp add: demo_produce_def valid_BuildRecordBatch)
  have "bslice 43 51 demo_produce = be_put 8 (NOT 0 :: 64 word)"
    by (simp add: demo_produce_def BuildRecordBatch_def batch_tail_def bslice_def Let_def)
  then show "sint (be_get (bslice 43 51 demo_produce) :: int64) = -1" by simp
qed

lemma demo_leader_props:
  "EndOffset demo_log = 1" "holds_log demo_leader ''t'' 0 demo_log" "sint (EndOffset demo_log) < 2 ^ 63 - 1" "disk demo_log = []"
  "\<exists>p. partition_at (bTopics demo_leader) ''t'' 0 = Some p \<and> Leader p = NodeID demo_leader"
proof -
  show fin: "EndOffset demo_log = 1"
    using demo_log_props seglog.fin_recs [OF demo_log_props(1)] by (simp flip: sint_eq_iff)
  show "holds_log demo_leader ''t'' 0 demo_log" "sint (EndOffset demo_log) < 2 ^ 63 - 1"
    using demo_leads fin by (simp_all add: leads_log_def holds_log_def demo_fetcher_def)
  show "disk demo_log = []" by code_simp
  have "map_option Leader (partition_at (bTopics demo_leader) ''t'' 0) = Some 1" "NodeID demo_leader = 1" by code_simp+
  then show "\<exists>p. partition_at (bTopics demo_leader) ''t'' 0 = Some p \<and> Leader p = NodeID demo_leader" by auto
qed


section \<open>Waiting for the replicas\<close>

text \<open>The leader and every follower that is in sync at the time have the log up to \<open>target\<close>.\<close>

definition replicated :: "PartitionState \<Rightarrow> int \<Rightarrow> int64 \<Rightarrow> bool" where
  "replicated s now target \<longleftrightarrow> sint target \<le> sint (leaderEndOffset s)
     \<and> (\<forall>b \<in> set (replicas s). b \<noteq> leaderID s \<longrightarrow> followerInISR s b now \<longrightarrow> sint target \<le> sint (offset_of s b))"

lemma closed_mono:
  assumes "waiting_inv s"
  shows "set (closed s) \<subseteq> set (closed (apply_partition_event ev s))"
  using assms by (cases ev) (auto simp: RecordFollowerFetch_def HighWatermark_def WaitForHighWatermark_def removeWaiter_def Let_def
      recompute_release_def recompute_def releaseWaiters_def)

lemma event_waiting: "waiting_inv s \<Longrightarrow> waiting_inv (apply_partition_event ev s)"
  by (cases ev) (simp_all add: RecordFollowerFetch_def HighWatermark_def Let_def recompute_release_waiting(1)
      Wait_waiting removeWaiter_waiting)

lemma closed_mono_fold:
  "waiting_inv s \<Longrightarrow> set (closed s) \<subseteq> set (closed (fold apply_partition_event evs s))"
proof (induction evs arbitrary: s)
  case (Cons ev evs)
  then show ?case using closed_mono [OF Cons.prems, of ev] event_waiting by fastforce
qed simp

lemma released_moment:
  assumes "waiting_inv s" "(w, target) \<in> set (waiters s)" "\<forall>v. Timeout v \<notin> set evs"
  shows "w \<in> set (closed (fold apply_partition_event evs s)) \<longleftrightarrow>
    (\<exists>pre ev. prefix (pre @ [ev]) evs \<and> replicated (fold apply_partition_event (pre @ [ev]) s) (event_time ev) target)"
  using assms
proof (induction evs arbitrary: s)
  case Nil
  have "w \<in> fst ` set (waiters s)" using imageI [OF Nil.prems(2), of fst] by simp
  then show ?case using Nil.prems(1) by (auto simp: waiting_inv_def)
next
  case (Cons ev evs)
  let ?s = "apply_partition_event ev s"
  have nt: "\<And>v. ev \<noteq> Timeout v" using Cons.prems(3) by auto
  note rel = event_release [OF Cons.prems(1) nt Cons.prems(2)]
  have here: "w \<in> set (closed ?s) \<longleftrightarrow> replicated ?s (event_time ev) target"
    unfolding rel(2) rel(1) Min_le_all replicated_def ..
  have split: "(\<exists>pre e. prefix (pre @ [e]) (ev # evs) \<and> P (pre @ [e]) e) \<longleftrightarrow>
      P [ev] ev \<or> (\<exists>pre e. prefix (pre @ [e]) evs \<and> P (ev # pre @ [e]) e)" for P
  proof
    assume "\<exists>pre e. prefix (pre @ [e]) (ev # evs) \<and> P (pre @ [e]) e"
    then obtain pre e where pe: "prefix (pre @ [e]) (ev # evs)" "P (pre @ [e]) e" by blast
    then show "P [ev] ev \<or> (\<exists>pre e. prefix (pre @ [e]) evs \<and> P (ev # pre @ [e]) e)"
      by (cases pre) auto
  qed (force intro: exI [of _ "[]"] exI [of _ "ev # _"])
  show ?case
  proof (cases "w \<in> set (closed ?s)")
    case True
    then have "w \<in> set (closed (fold apply_partition_event (ev # evs) s))"
      using closed_mono_fold [OF event_waiting [OF Cons.prems(1)], of ev evs] by auto
    moreover have "replicated (fold apply_partition_event ([] @ [ev]) s) (event_time ev) target"
      using True here by simp
    ultimately show ?thesis by (metis append_Nil prefix_Cons prefix_bot.extremum append_Cons Cons_prefix_Cons)
  next
    case False
    then have "(w, target) \<in> set (waiters ?s)" using rel(2,3) by simp
    note IH = Cons.IH [OF event_waiting [OF Cons.prems(1)] this]
    have "w \<in> set (closed (fold apply_partition_event (ev # evs) s)) \<longleftrightarrow>
      (\<exists>pre e. prefix (pre @ [e]) evs \<and> replicated (fold apply_partition_event (ev # pre @ [e]) s) (event_time e) target)"
      using IH Cons.prems(3) by simp
    then show ?thesis
      using False here split [of "\<lambda>es e. replicated (fold apply_partition_event es s) (event_time e) target"] by simp
  qed
qed

lemma uid_event: "uid (apply_partition_event ev s) = uid s"
  by (cases ev) (simp_all add: RecordFollowerFetch_def HighWatermark_def WaitForHighWatermark_def removeWaiter_def Let_def
      recompute_release_def recompute_def releaseWaiters_def)

lemma uid_events: "uid (fold apply_partition_event evs s) = uid s"
  by (induction evs arbitrary: s) (simp_all add: uid_event)

lemma Wait_result:
  assumes "WaitForHighWatermark now target s = (s0, w)"
  shows "(w = None \<longleftrightarrow> replicated s0 now target) \<and> (\<forall>x. w = Some x \<longrightarrow> (x, target) \<in> set (waiters s0))"
proof -
  define r where "r = recompute_release now (if sint (leaderEndOffset s) < sint target then s\<lparr>leaderEndOffset := target\<rparr> else s)"
  have hw: "sint (highWatermark r) = Min (in_sync_offsets r now)"
    unfolding r_def recompute_release_hw ..
  have "in_sync_offsets s0 now = in_sync_offsets r now"
    "w = None \<longleftrightarrow> sint target \<le> sint (highWatermark r)" "\<forall>x. w = Some x \<longrightarrow> (x, target) \<in> set (waiters s0)"
    using assms by (auto simp: WaitForHighWatermark_def Let_def r_def [symmetric] split: if_splits)
  then show ?thesis
    using hw by (simp add: replicated_def flip: Min_le_all)
qed

text \<open>The rest of the broker, while a call waits, as the events of its partition.\<close>

definition partition_env :: "string \<Rightarrow> int32 \<Rightarrow> partition_event list \<Rightarrow> BrokerNode \<Rightarrow> BrokerNode" where
  "partition_env name idx evs b =
     (case bReplication b of
        None \<Rightarrow> b
      | Some rm \<Rightarrow>
          (case partitionState rm name idx of
             None \<Rightarrow> b
           | Some s \<Rightarrow> b\<lparr>bReplication := Some (put_state name idx (fold apply_partition_event evs s) rm)\<rparr>))"

lemma partitionState_put [simp]: "partitionState (put_state name idx s rm) name idx = Some s"
  by (simp add: partitionState_def put_state_def)



end
