(* ===== verification/Broker_Metadata.thy ===== *)
theory Broker_Metadata
  imports Broker_Views
begin

text \<open>
  The registry of a broker is at all times the replay of its metadata log: through creation,
  deletion, failover, the follower of the metadata log and restarts, on a disk that may fail.
\<close>

section \<open>The metadata follower of a broker (cmd/broker/main.go)\<close>

text \<open>
  \<open>main\<close> starts the follower on the broker's own metadata log, with
  \<^const>\<open>ApplyMetadataRecord\<close> as the callback; this is one round of it.
\<close>

definition follow_metadata :: "transport \<Rightarrow> int \<Rightarrow> BrokerNode \<Rightarrow> BrokerNode" where
  "follow_metadata net now b =
     (case (bMetadataLog b, bCluster b) of
        (Some ml, Some ms) \<Rightarrow>
          (case MetadataFollower_fetchOnce net (bControllerID b) (ApplyMetadataRecord now)
                  \<lparr>metadataLog = ml, membership = ms, selfID = NodeID b\<rparr> b of
             (f, b') \<Rightarrow> b'\<lparr>bMetadataLog := Some (metadataLog f)\<rparr>)
      | _ \<Rightarrow> b)"

section \<open>The registry as a replay\<close>

definition registry_ok :: "Registry \<Rightarrow> bool" where
  "registry_ok reg \<longleftrightarrow> distinct (mkeys reg) \<and> (\<forall>(k, t) \<in> set reg. Name t = k)"

definition apply_record :: "Record \<Rightarrow> (string \<rightharpoonup> Topic) \<Rightarrow> (string \<rightharpoonup> Topic)" where
  "apply_record r m =
     (case Type r of
        TopicUpsert \<Rightarrow> m(RecordTopic r \<mapsto> \<lparr>Name = RecordTopic r, PartitionList = RecordPartitions r\<rparr>)
      | TopicDelete \<Rightarrow> m(RecordTopic r := None))"

definition topics_after :: "Record list \<Rightarrow> string \<rightharpoonup> Topic" where
  "topics_after rs = fold apply_record rs Map.empty"

text \<open>A durable metadata log with the records \<open>rs\<close>, and a broker whose registry is their replay.\<close>

definition logged :: "Log \<Rightarrow> Record list \<Rightarrow> bool" where
  "logged ml rs \<longleftrightarrow> durable ml \<and> StartOffset ml = 0 \<and> list_all record_valid rs
     \<and> map (\<lambda>e. decodeMetadataRecord (Payload e)) (log_entries ml) = map Inr rs"

definition replays :: "BrokerNode \<Rightarrow> Record list \<Rightarrow> bool" where
  "replays b rs \<longleftrightarrow> (\<exists>ml. bMetadataLog b = Some ml \<and> logged ml rs) \<and> registry_ok (bTopics b)
     \<and> Registry_Get (bTopics b) = topics_after rs"

lemma topics_after_snoc: "topics_after (rs @ [r]) = apply_record r (topics_after rs)"
  by (simp add: topics_after_def)

lemma topics_after_record:
  "topics_after rs name = Some t \<Longrightarrow>
    \<exists>r \<in> set rs. Type r = TopicUpsert \<and> r = \<lparr>Type = TopicUpsert, RecordTopic = name, RecordPartitions = PartitionList t\<rparr>"
  by (induction rs rule: rev_induct)
    (auto simp: topics_after_def apply_record_def split: RecordType.splits if_splits)

lemma registry_ok_mput: "registry_ok reg \<Longrightarrow> registry_ok (mput (Name t) t reg)"
  using set_mput [of "Name t" t reg] by (auto simp: registry_ok_def)

lemma registry_ok_mdel: "registry_ok reg \<Longrightarrow> registry_ok (mdel k reg)"
  by (simp add: registry_ok_def) (auto simp: AList.delete_eq)

lemma registry_lookup: "registry_ok reg \<Longrightarrow> t \<in> set (Registry_All reg) \<Longrightarrow> Registry_Get reg (Name t) = Some t"
  by (auto simp: registry_ok_def Registry_All_def Registry_Get_def)

lemma registry_ok_names: "registry_ok reg \<Longrightarrow> distinct (map Name (Registry_All reg))"
proof -
  assume "registry_ok reg"
  then have "map Name (Registry_All reg) = mkeys reg"
    by (auto simp: registry_ok_def Registry_All_def)
  then show ?thesis using \<open>registry_ok reg\<close> by (simp add: registry_ok_def)
qed

lemma applyTopic_fields:
  "bTopics (applyTopic now name parts b) = Registry_Upsert (bTopics b) \<lparr>Name = name, PartitionList = parts\<rparr>"
  "bMetadataLog (applyTopic now name parts b) = bMetadataLog b" "NodeID (applyTopic now name parts b) = NodeID b"
  "bControllerID (applyTopic now name parts b) = bControllerID b" "bCluster (applyTopic now name parts b) = bCluster b"
  "bIsPeerAlive (applyTopic now name parts b) = bIsPeerAlive b" "bOffsets (applyTopic now name parts b) = bOffsets b"
  by (simp_all add: applyTopic_def Let_def split: option.split prod.split)

lemma Apply_fields:
  "bMetadataLog (ApplyMetadataRecord now r b) = bMetadataLog b" "NodeID (ApplyMetadataRecord now r b) = NodeID b"
  "bControllerID (ApplyMetadataRecord now r b) = bControllerID b" "bCluster (ApplyMetadataRecord now r b) = bCluster b"
  "bIsPeerAlive (ApplyMetadataRecord now r b) = bIsPeerAlive b" "bOffsets (ApplyMetadataRecord now r b) = bOffsets b"
  by (simp_all add: ApplyMetadataRecord_def applyTopic_fields split: RecordType.split)

lemma Apply_registry:
  "Registry_Get (bTopics (ApplyMetadataRecord now r b)) = apply_record r (Registry_Get (bTopics b))"
  by (rule ext) (auto simp: ApplyMetadataRecord_def apply_record_def applyTopic_fields Registry_Delete_def
      Registry_Get_def Registry_Upsert_def split: RecordType.split option.split)

lemma Apply_registry_ok: "registry_ok (bTopics b) \<Longrightarrow> registry_ok (bTopics (ApplyMetadataRecord now r b))"
  using registry_ok_mput [of "bTopics b" "\<lparr>Name = RecordTopic r, PartitionList = RecordPartitions r\<rparr>"]
  by (auto simp: ApplyMetadataRecord_def applyTopic_fields Registry_Delete_def Registry_Upsert_def registry_ok_mdel
      split: RecordType.split option.split)

lemma logged_end: "logged ml rs \<Longrightarrow> sint (EndOffset ml) = int (length rs)"
  using seglog.fin_recs [of ml] by (simp add: logged_def durable_def) (metis length_map)

lemma logged_append:
  assumes "logged ml rs" "Append ml p = (ml', res)" "length p < 2 ^ 32" "int (length rs) < 2 ^ 63 - 1"
    and "decodeMetadataRecord p = Inr r" "record_valid r"
  shows "logged ml' (case res of Inl e \<Rightarrow> rs | Inr off \<Rightarrow> rs @ [r])"
  using Append_durable [of ml p ml' res] assms logged_end [OF assms(1)]
  by (auto simp: logged_def split: sum.splits)

text \<open>The step shared by creation, deletion and failover: the record is appended, then applied.\<close>

definition append_apply :: "int \<Rightarrow> Record \<Rightarrow> BrokerNode \<Rightarrow> BrokerNode" where
  "append_apply now r b =
     (case bMetadataLog b of
        None \<Rightarrow> b
      | Some ml \<Rightarrow>
          (case MetadataLog_Append ml r of
             (ml', Inl err) \<Rightarrow> b\<lparr>bMetadataLog := Some ml'\<rparr>
           | (ml', Inr _) \<Rightarrow> ApplyMetadataRecord now r (b\<lparr>bMetadataLog := Some ml'\<rparr>)))"

lemma append_apply_replays:
  assumes "replays b rs" "record_valid r" "int (length rs) < 2 ^ 63 - 1"
  shows "\<exists>rs'. replays (append_apply now r b) rs' \<and> (rs' = rs \<or> rs' = rs @ [r])"
proof -
  obtain ml where ml: "bMetadataLog b = Some ml" "logged ml rs" using assms(1) by (auto simp: replays_def)
  obtain ml' res where ap: "Append ml (encodeMetadataRecord r) = (ml', res)" by fastforce
  have "length (encodeMetadataRecord r) < 2 ^ 32" using assms(2) by (simp add: record_valid_def)
  from logged_append [OF ml(2) ap this assms(3) decode_encode [OF assms(2)] assms(2)]
  show ?thesis
    using assms(1) ml(1) ap
    by (cases res) (auto simp: replays_def append_apply_def MetadataLog_Append_def Apply_registry Apply_fields
        Apply_registry_ok topics_after_snoc)
qed

lemma append_apply_fields:
  "NodeID (append_apply now r b) = NodeID b" "bControllerID (append_apply now r b) = bControllerID b"
  "bIsPeerAlive (append_apply now r b) = bIsPeerAlive b" "bCluster (append_apply now r b) = bCluster b"
  "bMetadataLog (append_apply now r b) = None \<longleftrightarrow> bMetadataLog b = None"
  by (simp_all add: append_apply_def Apply_fields split: option.split prod.split sum.split)

section \<open>Creation and deletion\<close>

definition created :: "string \<Rightarrow> int32 \<Rightarrow> int16 \<Rightarrow> BrokerNode \<Rightarrow> Partition list" where
  "created name n rf b = new_partitions (AssignReplicas n (brokerIDs b) (sint rf))"

lemma createTopic_log:
  assumes "bMetadataLog b \<noteq> None"
  shows "fst (createTopic now name n rf fanOut b) =
    (if 0 < sint n \<and> 0 < sint rf \<and> sint rf \<le> int (length (brokerIDs b)) \<and> Registry_Get (bTopics b) name = None
     then append_apply now \<lparr>Type = TopicUpsert, RecordTopic = name, RecordPartitions = created name n rf b\<rparr> b
     else b)"
  using assms by (auto simp: createTopic_def append_apply_def created_def Let_def split: option.split prod.split sum.split)

lemma deleteTopic_log:
  assumes "bMetadataLog b \<noteq> None"
  shows "fst (deleteTopic now name b) =
    (if Registry_Get (bTopics b) name \<noteq> None
     then append_apply now \<lparr>Type = TopicDelete, RecordTopic = name, RecordPartitions = []\<rparr> b
     else b)"
  using assms by (auto simp: deleteTopic_def append_apply_def Let_def split: option.split prod.split sum.split)

lemma length_write_partition: "length (write_partition p) = 16 + 4 * length (Replicas p) + 4 * length (ISR p)"
  by (simp add: write_partition_def writeMetadataIDs_def WriteArray_def WriteInt32_def WriteArrayLen_def
      length_concat comp_def sum_list_triv)

lemma length_encodeMetadataRecord:
  "length (encodeMetadataRecord r) = 3 + length (RecordTopic r)
    + (if Type r = TopicUpsert then 4 + (\<Sum>p \<leftarrow> RecordPartitions r. 16 + 4 * length (Replicas p) + 4 * length (ISR p)) else 0)"
  by (cases "Type r") (simp_all add: encodeMetadataRecord_def WriteString_def WriteInt8_def WriteInt16_def string_bytes_def
      WriteArray_def WriteArrayLen_def WriteInt32_def length_concat comp_def length_write_partition)

lemma AssignReplicas_shape:
  assumes "0 < sint n" "ids \<noteq> []" "0 < rf"
  shows "length (AssignReplicas n ids rf) = nat (sint n)"
    "rs \<in> set (AssignReplicas n ids rf) \<Longrightarrow> length rs = nat rf \<and> set rs \<subseteq> set ids"
  using assms by (auto simp: AssignReplicas_def Let_def)

lemma set_new_partitions: "p \<in> set (new_partitions rss) \<Longrightarrow> Replicas p \<in> set rss \<and> ISR p = Replicas p \<and> Leader p = hd (Replicas p)"
  by (auto simp: new_partitions_def in_set_enumerate_eq)

lemma created_valid:
  assumes "length name < 2 ^ 15" "0 < sint n" "0 < sint rf" "sint rf \<le> int (length (brokerIDs b))"
    and "sint n * (16 + 8 * sint rf) < 2 ^ 30"
  shows "record_valid \<lparr>Type = TopicUpsert, RecordTopic = name, RecordPartitions = created name n rf b\<rparr>"
proof -
  let ?ps = "created name n rf b"
  have ne: "brokerIDs b \<noteq> []" using assms(3,4) by auto
  have len: "length ?ps = nat (sint n)"
    using AssignReplicas_shape(1) [OF assms(2) ne assms(3)] by (simp add: created_def new_partitions_def)
  have p: "length (Replicas p) = nat (sint rf) \<and> length (ISR p) = nat (sint rf)" if "p \<in> set ?ps" for p
    using set_new_partitions that AssignReplicas_shape(2) [OF assms(2) ne assms(3)] unfolding created_def by metis
  then have "(\<Sum>p \<leftarrow> ?ps. 16 + 4 * length (Replicas p) + 4 * length (ISR p)) = (\<Sum>p \<leftarrow> ?ps. 16 + 8 * nat (sint rf))"
    by (intro arg_cong [where f = sum_list] map_cong) auto
  then have "int (\<Sum>p \<leftarrow> ?ps. 16 + 4 * length (Replicas p) + 4 * length (ISR p)) < 2 ^ 30"
    using assms(2,3,5) by (simp add: sum_list_triv len)
  then have sum: "(\<Sum>p \<leftarrow> ?ps. 16 + 4 * length (Replicas p) + 4 * length (ISR p)) < 2 ^ 30" by simp
  have "sint rf \<le> sint n * (16 + 8 * sint rf)" "sint n \<le> sint n * (16 + 8 * sint rf)"
    using assms(2,3) mult_right_mono [of 1 "sint n" "16 + 8 * sint rf"] by (auto simp: algebra_simps)
  then have "sint rf < 2 ^ 30" "sint n < 2 ^ 30" using assms(5) by (auto intro: le_less_trans)
  then have "nat (sint rf) < 2 ^ 30" "nat (sint n) < 2 ^ 30" by simp_all
  then show ?thesis
    using assms(1) sum len p by (simp add: record_valid_def length_encodeMetadataRecord partition_ok_def list_all_iff)
qed

lemma deleted_valid:
  "length name < 2 ^ 15 \<Longrightarrow> record_valid \<lparr>Type = TopicDelete, RecordTopic = name, RecordPartitions = []\<rparr>"
  by (simp add: record_valid_def length_encodeMetadataRecord)

section \<open>Failover\<close>

lemma reassign_smaller: "length (ISR (fst (reassign b d p))) \<le> length (ISR p)"
  "Replicas (fst (reassign b d p)) = Replicas p" "ID (fst (reassign b d p)) = ID p"
  by (auto simp: reassign_def liveISR_def Let_def)

lemma reassigned_valid:
  assumes "record_valid \<lparr>Type = TopicUpsert, RecordTopic = name, RecordPartitions = ps\<rparr>"
  shows "record_valid \<lparr>Type = TopicUpsert, RecordTopic = name, RecordPartitions = map (fst \<circ> reassign b d) ps\<rparr>"
proof -
  have "(\<Sum>p \<leftarrow> map (fst \<circ> reassign b d) ps. 16 + 4 * length (Replicas p) + 4 * length (ISR p))
      \<le> (\<Sum>p \<leftarrow> ps. 16 + 4 * length (Replicas p) + 4 * length (ISR p))"
    unfolding map_map by (intro sum_list_mono) (simp add: reassign_smaller)
  moreover have "partition_ok (fst (reassign b d p))" if "partition_ok p" for p
    using that reassign_smaller [of b d p] by (simp add: partition_ok_def)
  ultimately show ?thesis
    using assms by (simp add: record_valid_def length_encodeMetadataRecord list_all_iff)
qed

lemma failover_topic_log:
  assumes "bMetadataLog b \<noteq> None"
  shows "failover_topic now d t b =
    (if list_ex (\<lambda>p. snd (reassign b d p)) (PartitionList t)
     then append_apply now \<lparr>Type = TopicUpsert, RecordTopic = Name t,
       RecordPartitions = map (fst \<circ> reassign b d) (PartitionList t)\<rparr> b
     else b)"
  using assms
  by (auto simp: failover_topic_def append_apply_def Let_def list_ex_iff split: option.split prod.split sum.split)

lemma failover_replays:
  assumes "replays b rs" "int (length rs) + int (length ts) < 2 ^ 63 - 1"
    and "\<forall>t \<in> set ts. record_valid \<lparr>Type = TopicUpsert, RecordTopic = Name t, RecordPartitions = PartitionList t\<rparr>"
  shows "\<exists>rs'. replays (fold (failover_topic now d) ts b) rs' \<and> prefix rs rs'
    \<and> length rs' \<le> length rs + length ts"
  using assms
proof (induction ts arbitrary: b rs)
  case (Cons t ts)
  have m: "bMetadataLog b \<noteq> None" using Cons.prems(1) by (auto simp: replays_def)
  have "\<exists>rs1. replays (failover_topic now d t b) rs1 \<and> prefix rs rs1 \<and> length rs1 \<le> Suc (length rs)"
    using append_apply_replays [OF Cons.prems(1) reassigned_valid, where now = now and b1 = b and d1 = d] Cons.prems
    by (force simp: failover_topic_log [OF m])
  then obtain rs1 where r: "replays (failover_topic now d t b) rs1" "prefix rs rs1" "length rs1 \<le> Suc (length rs)"
    by blast
  from Cons.IH [OF r(1)] r(3) Cons.prems(2,3) obtain rs' where
    "replays (fold (failover_topic now d) ts (failover_topic now d t b)) rs'" "prefix rs1 rs'"
    "length rs' \<le> length rs1 + length ts" by force
  then show ?case using r(2,3) by (auto intro!: exI [of _ rs'] dest: prefix_order.trans)
qed auto

lemma OnPeerDown_replays:
  assumes "replays b rs" "int (length rs) + int (length (bTopics b)) < 2 ^ 63 - 1"
  shows "\<exists>rs'. replays (OnPeerDown now d b) rs' \<and> prefix rs rs'"
proof -
  have reg: "registry_ok (bTopics b)" "Registry_Get (bTopics b) = topics_after rs"
    using assms(1) by (simp_all add: replays_def)
  have "record_valid \<lparr>Type = TopicUpsert, RecordTopic = Name t, RecordPartitions = PartitionList t\<rparr>"
    if "t \<in> set (Registry_All (bTopics b))" for t
    using topics_after_record [of rs "Name t" t] registry_lookup [OF reg(1) that] reg(2) assms(1)
    by (auto simp: replays_def logged_def list_all_iff)
  then show ?thesis
    using failover_replays [OF assms(1), of "Registry_All (bTopics b)" now d] assms
    by (auto simp: OnPeerDown_def Registry_All_def)
qed

section \<open>The follower and the start of a broker\<close>

text \<open>What a peer's answer may hold for the follower: records of a sound metadata log.\<close>

fun records_ok :: "nat \<Rightarrow> bytes \<Rightarrow> bool" where
  "records_ok 0 bs \<longleftrightarrow> True"
| "records_ok (Suc n) bs \<longleftrightarrow>
     (case ReadBytes bs of
        Inl _ \<Rightarrow> True
      | Inr (p, rest) \<Rightarrow>
          (case decodeMetadataRecord (case p of None \<Rightarrow> [] | Some b \<Rightarrow> b) of Inl _ \<Rightarrow> False | Inr r \<Rightarrow> record_valid r)
          \<and> records_ok n rest)"

definition sound_peers :: "transport \<Rightarrow> bool" where
  "sound_peers net \<longleftrightarrow> (\<forall>target header body response cnt rest.
     BrokerClient_Send net target header body = Inr response \<longrightarrow> ReadArrayLen response = Inr (cnt, rest) \<longrightarrow>
     records_ok (nat cnt) rest)"

lemma ReadBytes_length: "ReadBytes bs = Inr (p, rest) \<Longrightarrow> length (case p of None \<Rightarrow> [] | Some b \<Rightarrow> b) < 2 ^ 31"
  by (auto simp: ReadBytes_def ReadInt32_def dbind_eq_Inr ReadFull_Inr nat_less_iff sint_range_32(2) [simplified] split: if_splits)

lemma ReadArrayLen_bound: "ReadArrayLen bs = Inr (cnt, rest) \<Longrightarrow> cnt < 2 ^ 31"
  by (auto simp: ReadArrayLen_def ReadInt32_def dbind_eq_Inr ReadFull_Inr sint_range_32(2) [simplified])

lemma apply_records_replay:
  assumes "logged ml rs" "registry_ok (bTopics b)" "Registry_Get (bTopics b) = topics_after rs"
    and "records_ok n bs" "int (length rs) + int n < 2 ^ 63 - 1"
    and "apply_records (ApplyMetadataRecord now) n bs ml b = (ml', b')"
  shows "\<exists>rs'. logged ml' rs' \<and> registry_ok (bTopics b') \<and> Registry_Get (bTopics b') = topics_after rs' \<and> prefix rs rs'"
  using assms
proof (induction n arbitrary: bs ml b rs)
  case (Suc n)
  show ?case
  proof (cases "ReadBytes bs")
    case (Inl e)
    then show ?thesis using Suc.prems by auto
  next
    case (Inr pr)
    obtain p rest where p: "pr = (p, rest)" by fastforce
    let ?p = "case p of None \<Rightarrow> [] | Some b \<Rightarrow> b"
    obtain r where r: "decodeMetadataRecord ?p = Inr r" "record_valid r" "records_ok n rest"
      using Suc.prems(4) Inr p by (auto split: sum.splits)
    obtain ml1 res where ap: "Append ml ?p = (ml1, res)" by fastforce
    have "length ?p < 2 ^ 32" using ReadBytes_length Inr p by fastforce
    note l = logged_append [OF Suc.prems(1) ap this _ r(1,2)]
    show ?thesis
    proof (cases res)
      case (Inl e)
      then show ?thesis using Suc.prems Inr p ap l by (auto simp: AppendRaw_def)
    next
      case (Inr off)
      then have "logged ml1 (rs @ [r])" "apply_records (ApplyMetadataRecord now) n rest ml1 (ApplyMetadataRecord now r b) = (ml', b')"
        using Suc.prems \<open>ReadBytes bs = Inr pr\<close> p ap l r(1) by (auto simp: AppendRaw_def)
      from Suc.IH [OF this(1) Apply_registry_ok _ r(3) _ this(2)] Suc.prems(2,3,5) show ?thesis
        by (auto simp: Apply_registry topics_after_snoc dest: append_prefixD)
    qed
  qed
qed auto

lemma follow_metadata_replays:
  assumes "replays b rs" "sound_peers net" "int (length rs) < 2 ^ 62"
  shows "\<exists>rs'. replays (follow_metadata net now b) rs' \<and> prefix rs rs'"
proof -
  obtain ml where ml: "bMetadataLog b = Some ml" "logged ml rs" using assms(1) by (auto simp: replays_def)
  have reg: "registry_ok (bTopics b)" "Registry_Get (bTopics b) = topics_after rs" using assms(1) by (simp_all add: replays_def)
  have same: "b\<lparr>bMetadataLog := Some ml\<rparr> = b" using ml(1) by simp
  have step: "\<exists>rs'. replays (b'\<lparr>bMetadataLog := Some ml'\<rparr>) rs' \<and> prefix rs rs'"
    if "BrokerClient_Send net target header body = Inr response" "ReadArrayLen response = Inr (cnt, rest)"
      "apply_records (ApplyMetadataRecord now) (nat cnt) rest ml b = (ml', b')" for target header body response cnt rest ml' b'
  proof -
    have "records_ok (nat cnt) rest" "cnt < 2 ^ 31"
      using assms(2) that(1,2) ReadArrayLen_bound unfolding sound_peers_def by blast+
    then show ?thesis using apply_records_replay [OF ml(2) reg _ _ that(3)] assms(3) by (auto simp: replays_def)
  qed
  have fetch: "f = \<lparr>metadataLog = ml, membership = ms, selfID = NodeID b\<rparr> \<and> b' = b
      \<or> (\<exists>target header body response cnt rest. BrokerClient_Send net target header body = Inr response
        \<and> ReadArrayLen response = Inr (cnt, rest)
        \<and> apply_records (ApplyMetadataRecord now) (nat cnt) rest ml b = (metadataLog f, b'))"
    if "MetadataFollower_fetchOnce net (bControllerID b) (ApplyMetadataRecord now)
      \<lparr>metadataLog = ml, membership = ms, selfID = NodeID b\<rparr> b = (f, b')" for ms f b'
    using that by (auto simp: MetadataFollower_fetchOnce_def Let_def split: if_splits option.splits sum.splits prod.splits)
  show ?thesis
  proof (cases "bCluster b")
    case None
    then show ?thesis using assms(1) by (auto simp: follow_metadata_def ml(1))
  next
    case (Some ms)
    obtain f b' where f: "MetadataFollower_fetchOnce net (bControllerID b) (ApplyMetadataRecord now)
        \<lparr>metadataLog = ml, membership = ms, selfID = NodeID b\<rparr> b = (f, b')" by fastforce
    then have "follow_metadata net now b = b'\<lparr>bMetadataLog := Some (metadataLog f)\<rparr>"
      using Some ml(1) by (simp add: follow_metadata_def)
    then show ?thesis using fetch [OF f] step assms(1) same by auto
  qed
qed

lemma foldE_decoded:
  "map (\<lambda>e. decodeMetadataRecord (Payload e)) es = map Inr rs \<Longrightarrow>
    foldE (\<lambda>payload records. case decodeMetadataRecord payload of
      Inl err \<Rightarrow> Inl err | Inr r \<Rightarrow> Inr (records @ [r])) (map Payload es) acc = Inr (acc @ rs)"
  by (induction es arbitrary: rs acc) (auto simp: Cons_eq_map_conv)

lemma ReadFrom_logged:
  assumes "logged ml rs" "log_healthy ml"
  shows "ReadFrom ml 0 = Some (Inr rs)"
proof -
  have l: "log_inv ml" "StartOffset ml = 0" "map (\<lambda>e. decodeMetadataRecord (Payload e)) (log_entries ml) = map Inr rs"
    using assms(1) by (simp_all add: logged_def durable_def)
  from foldE_decoded [OF l(3), of "[]"] show ?thesis
    using ReadRawFrom_spec [OF l(1) assms(2), of 0] l(2) logged_end [OF assms(1)] by (simp add: ReadFrom_def)
qed

lemma fold_Apply:
  "Registry_Get (bTopics (fold (ApplyMetadataRecord now) rs b)) = fold apply_record rs (Registry_Get (bTopics b))"
  "registry_ok (bTopics b) \<Longrightarrow> registry_ok (bTopics (fold (ApplyMetadataRecord now) rs b))"
  "bMetadataLog (fold (ApplyMetadataRecord now) rs b) = bMetadataLog b"
  "bOffsets (fold (ApplyMetadataRecord now) rs b) = bOffsets b"
  by (induction rs arbitrary: b) (simp_all add: Apply_registry Apply_registry_ok Apply_fields)

lemma follow_topic_fields:
  "bTopics (follow_topic now t b) = bTopics b" "bMetadataLog (follow_topic now t b) = bMetadataLog b"
  "bOffsets (follow_topic now t b) = bOffsets b"
  by (simp_all add: follow_topic_def split: option.split prod.split)

lemma fold_follow_topic_fields:
  "bTopics (fold (follow_topic now) ts b) = bTopics b" "bMetadataLog (fold (follow_topic now) ts b) = bMetadataLog b"
  "bOffsets (fold (follow_topic now) ts b) = bOffsets b"
  by (induction ts arbitrary: b) (simp_all add: follow_topic_fields)

lemma NewRegistry_replay: "registry_ok NewRegistry" "Registry_Get NewRegistry = Map.empty"
  by (auto simp: registry_ok_def NewRegistry_def Registry_Get_def)

lemma start_broker_replays:
  assumes "logged ml rs" "log_healthy ml" "start_broker now i port ms st ml peers ctl = Some (Inr b)"
  shows "replays b rs"
  using assms NewRegistry_replay
  by (auto simp: start_broker_def Let_def ReadFrom_logged replays_def fold_follow_topic_fields fold_Apply
      new_broker_def topics_after_def split: sum.splits option.splits prod.splits)

lemma start_broker_succeeds:
  assumes "logged ml rs" "log_healthy ml" "Manager_Log st offsets_topic 0 = (st', Inr ol)"
    and "commits ol cs" "log_healthy ol"
  shows "\<exists>b offs. start_broker now i port ms st ml peers ctl = Some (Inr b) \<and> bOffsets b = Some offs \<and> map_of offs = map_of cs"
  using NewStore_commits [OF assms(4,5)] assms(3)
  by (auto simp: start_broker_def new_broker_def Let_def ReadFrom_logged [OF assms(1,2)] fold_follow_topic_fields fold_Apply)

lemma reopened:
  assumes "logged ml rs" "list_all (\<lambda>io. indexShort io = None) dsk"
  shows "\<exists>ml'. OpenMetadataLog dsk (log_dir ml) = Inr ml' \<and> logged ml' rs \<and> log_healthy ml'"
  using Open_log_dir [of ml dsk] assms by (auto simp: OpenMetadataLog_def logged_def durable_def)

section \<open>Histories of a broker's topics\<close>

text \<open>
  What happens to the topics of a broker: it starts on an empty metadata log, on a disk that
  may fail (but tears no index entry); topics are created and deleted, peers fail, the
  metadata log of the controller is followed, requests of all other kinds change neither the
  registry nor the metadata log; the process stops and starts again on its directory.
\<close>

definition metadata_room :: "BrokerNode \<Rightarrow> bool" where
  "metadata_room b \<longleftrightarrow> int (length (bTopics b)) < 2 ^ 62
     \<and> (case bMetadataLog b of None \<Rightarrow> True | Some ml \<Rightarrow> sint (EndOffset ml) < 2 ^ 62)"

inductive topic_reach :: "BrokerNode \<Rightarrow> bool" where
  start: "list_all (\<lambda>io. indexShort io = None) dsk \<Longrightarrow>
    start_broker now i port ms st (fresh_log dsk) peers ctl = Some (Inr b) \<Longrightarrow> topic_reach b"
| create: "topic_reach b \<Longrightarrow> metadata_room b \<Longrightarrow> length name < 2 ^ 15 \<Longrightarrow>
    sint n * (16 + 8 * sint rf) < 2 ^ 30 \<Longrightarrow> topic_reach (fst (CreateTopic now name n rf b))"
| delete: "topic_reach b \<Longrightarrow> metadata_room b \<Longrightarrow> topic_reach (fst (DeleteTopic now name b))"
| peer_down: "topic_reach b \<Longrightarrow> metadata_room b \<Longrightarrow> topic_reach (OnPeerDown now d b)"
| follow: "topic_reach b \<Longrightarrow> metadata_room b \<Longrightarrow> sound_peers net \<Longrightarrow> topic_reach (follow_metadata net now b)"
| other: "topic_reach b \<Longrightarrow> bTopics b' = bTopics b \<Longrightarrow> bMetadataLog b' = bMetadataLog b \<Longrightarrow> topic_reach b'"
| restart: "topic_reach b \<Longrightarrow> bMetadataLog b = Some ml \<Longrightarrow> list_all (\<lambda>io. indexShort io = None) dsk \<Longrightarrow>
    OpenMetadataLog dsk (log_dir ml) = Inr ml' \<Longrightarrow>
    start_broker now i port ms st ml' peers ctl = Some (Inr b') \<Longrightarrow> topic_reach b'"

lemma replays_room: "replays b rs \<Longrightarrow> metadata_room b \<Longrightarrow> int (length rs) < 2 ^ 62 \<and> int (length (bTopics b)) < 2 ^ 62"
  using logged_end by (auto simp: replays_def metadata_room_def)

lemma topic_reach_replays: "topic_reach b \<Longrightarrow> \<exists>rs. replays b rs"
proof (induction rule: topic_reach.induct)
  case (start dsk now i port ms st peers ctl b)
  then have "logged (fresh_log dsk) []" "log_healthy (fresh_log dsk)"
    by (simp_all add: logged_def durable_def fresh_log_inv)
  then show ?case using start_broker_replays start by blast
next
  case (create b name n rf now)
  then obtain rs where r: "replays b rs" "int (length rs) < 2 ^ 63 - 1" using replays_room by fastforce
  then have m: "bMetadataLog b \<noteq> None" by (auto simp: replays_def)
  show ?case
    using append_apply_replays [OF r(1) created_valid r(2), of name n rf b now] create(3,4) r(1)
    by (auto simp: CreateTopic_def createTopic_log [OF m] case_prod_beta)
next
  case (delete b now name)
  then obtain rs where r: "replays b rs" "int (length rs) < 2 ^ 63 - 1" using replays_room by fastforce
  then have m: "bMetadataLog b \<noteq> None" by (auto simp: replays_def)
  have "length name < 2 ^ 15" if "Registry_Get (bTopics b) name \<noteq> None"
    using that topics_after_record [of rs name] r(1) by (force simp: replays_def logged_def list_all_iff record_valid_def)
  then show ?case
    using append_apply_replays [OF r(1) deleted_valid r(2), of name now] r(1)
    by (auto simp: DeleteTopic_def deleteTopic_log [OF m] case_prod_beta)
next
  case (peer_down b now d)
  then obtain rs where r: "replays b rs" "int (length rs) + int (length (bTopics b)) < 2 ^ 63 - 1"
    using replays_room by fastforce
  then show ?case using OnPeerDown_replays by blast
next
  case (follow b net now)
  then show ?case using follow_metadata_replays replays_room by blast
next
  case (other b b')
  then show ?case by (simp add: replays_def)
next
  case (restart b ml dsk ml' now i port ms st peers ctl b')
  then obtain rs where "logged ml rs" by (auto simp: replays_def)
  then show ?case using reopened [OF _ restart(3)] start_broker_replays restart(4,5) by fastforce
qed

text \<open>
  C11. The registry of a broker is the replay of its metadata log, at all times: after any history
  of creations, deletions, failovers, rounds of the metadata follower and restarts, with
  failing appends in between. If the process stops at any moment, the metadata log opens, the
  broker starts, and it has the same topics, with the same leaders, replicas and in-sync
  replicas; and the committed offsets are the last ones committed for each key, as long as the
  log of the offsets opens to well-formed entries.
\<close>

theorem restart_keeps_topics:
  assumes "topic_reach b" "bMetadataLog b = Some ml" "list_all (\<lambda>io. indexShort io = None) dsk"
    and "Manager_Log st offsets_topic 0 = (st', Inr ol)" "commits ol cs" "log_healthy ol"
  shows "\<exists>ml' b' rs offs. OpenMetadataLog dsk (log_dir ml) = Inr ml' \<and> ReadFrom ml' 0 = Some (Inr rs)
    \<and> start_broker now i port ms st ml' peers ctl = Some (Inr b')
    \<and> Registry_Get (bTopics b) = topics_after rs \<and> Registry_Get (bTopics b') = Registry_Get (bTopics b)
    \<and> bOffsets b' = Some offs \<and> map_of offs = map_of cs"
proof -
  obtain rs where rs: "logged ml rs" "Registry_Get (bTopics b) = topics_after rs"
    using topic_reach_replays [OF assms(1)] assms(2) by (auto simp: replays_def)
  obtain ml' where ml': "OpenMetadataLog dsk (log_dir ml) = Inr ml'" "logged ml' rs" "log_healthy ml'"
    using reopened [OF rs(1) assms(3)] by blast
  obtain b' offs where b': "start_broker now i port ms st ml' peers ctl = Some (Inr b')"
    "bOffsets b' = Some offs" "map_of offs = map_of cs"
    using start_broker_succeeds [OF ml'(2,3) assms(4-6)] by blast
  show ?thesis
    using ml' b' rs(2) ReadFrom_logged [OF ml'(2,3)] start_broker_replays [OF ml'(2,3) b'(1)]
    by (auto simp: replays_def)
qed

text \<open>A broker started on an empty directory, on which one topic is created.\<close>

definition demo_start :: "(go_error + BrokerNode) option" where
  "demo_start = start_broker 0 3 9092 three_brokers (NewManager ''data'') (fresh_log []) (\<lambda>_. True) 3"

lemma demo_start_created:
  obtains b b1 ml where "demo_start = Some (Inr b)" "b1 = fst (CreateTopic 1 ''orders'' 3 2 b)" "topic_reach b1"
    "metadata_room b1" "controllerID b1 = NodeID b1" "bMetadataLog b1 = Some ml" "log_healthy ml" "disk ml = []"
    "map_option (map Leader \<circ> PartitionList) (Registry_Get (bTopics b1) ''orders'') = Some [1, 2, 3]"
proof -
  have "case demo_start of Some (Inr b) \<Rightarrow> metadata_room b
      \<and> (let b1 = fst (CreateTopic 1 ''orders'' 3 2 b)
         in metadata_room b1 \<and> controllerID b1 = NodeID b1
          \<and> (case bMetadataLog b1 of Some ml \<Rightarrow> log_healthy ml \<and> disk ml = [] | None \<Rightarrow> False)
          \<and> map_option (map Leader \<circ> PartitionList) (Registry_Get (bTopics b1) ''orders'') = Some [1, 2, 3]) | _ \<Rightarrow> False"
    by code_simp
  then obtain b ml where b: "demo_start = Some (Inr b)" "metadata_room b" "metadata_room (fst (CreateTopic 1 ''orders'' 3 2 b))"
    "controllerID (fst (CreateTopic 1 ''orders'' 3 2 b)) = NodeID (fst (CreateTopic 1 ''orders'' 3 2 b))"
    "bMetadataLog (fst (CreateTopic 1 ''orders'' 3 2 b)) = Some ml" "log_healthy ml" "disk ml = []"
    "map_option (map Leader \<circ> PartitionList) (Registry_Get (bTopics (fst (CreateTopic 1 ''orders'' 3 2 b))) ''orders'')
      = Some [1, 2, 3]"
    by (auto simp: Let_def split: option.splits sum.splits)
  have "topic_reach b" by (rule topic_reach.start [OF _ b(1) [unfolded demo_start_def]]) simp
  then have "topic_reach (fst (CreateTopic 1 ''orders'' 3 2 b))" by (rule topic_reach.create) (use b(2) in simp_all)
  then show ?thesis using that b by blast
qed

theorem restart_keeps_topics_witness:
  "\<exists>b ml ml' b'. demo_start = Some (Inr b) \<and> bMetadataLog (fst (CreateTopic 1 ''orders'' 3 2 b)) = Some ml
    \<and> OpenMetadataLog [] (log_dir ml) = Inr ml'
    \<and> start_broker 5 3 9092 three_brokers (NewManager ''data'') ml' (\<lambda>_. True) 3 = Some (Inr b')
    \<and> map_option (map Leader \<circ> PartitionList) (Registry_Get (bTopics b') ''orders'') = Some [1, 2, 3]"
proof -
  obtain b b1 ml where b: "demo_start = Some (Inr b)" "b1 = fst (CreateTopic 1 ''orders'' 3 2 b)" "topic_reach b1"
    "bMetadataLog b1 = Some ml"
    "map_option (map Leader \<circ> PartitionList) (Registry_Get (bTopics b1) ''orders'') = Some [1, 2, 3]"
    by (rule demo_start_created)
  obtain st' where "Manager_Log (NewManager ''data'') offsets_topic 0 = (st', Inr (fresh_log []))"
    by (simp add: Manager_Log_def NewManager_def dir_of_def Open_empty)
  moreover have "commits (fresh_log []) []" "log_healthy (fresh_log [])" by (simp_all add: commits_def fresh_log_inv)
  ultimately show ?thesis using restart_keeps_topics [OF b(3,4), of "[]"] b by fastforce
qed

section \<open>Names that do not fit\<close>

text \<open>
  The name of a topic is not checked. One of 32768 to 65535 bytes, which the HTTP interface lets
  through, is written to the metadata log with a negative length; from then on the log cannot
  be replayed, so the broker does not start any more.
\<close>

theorem long_topic_name_poisons:
  assumes "logged ml rs" "2 ^ 15 \<le> length name" "length name < 2 ^ 16" "int (length rs) < 2 ^ 63 - 1"
    and "length (encodeMetadataRecord \<lparr>Type = TopicUpsert, RecordTopic = name, RecordPartitions = ps\<rparr>) < 2 ^ 32"
    and "MetadataLog_Append ml \<lparr>Type = TopicUpsert, RecordTopic = name, RecordPartitions = ps\<rparr> = (ml', Inr off)"
  shows "\<exists>e. ReadFrom ml' 0 = Some (Inl e)"
proof -
  let ?p = "encodeMetadataRecord \<lparr>Type = TopicUpsert, RecordTopic = name, RecordPartitions = ps\<rparr>"
  have l: "log_inv ml" "StartOffset ml = 0" "map (\<lambda>e. decodeMetadataRecord (Payload e)) (log_entries ml) = map Inr rs"
    using assms(1) by (simp_all add: logged_def durable_def)
  have ap: "Append ml ?p = (ml', Inr off)" using assms(6) by (simp add: MetadataLog_Append_def)
  have ml': "log_inv ml'" "log_healthy ml'" "StartOffset ml' = 0" "log_entries ml' = log_entries ml @ [\<lparr>Offset = off, Payload = ?p\<rparr>]"
    using seglog.append_ok [OF l(1) ap assms(5)] logged_end [OF assms(1)] assms(4) l(2) Append_healthy [OF l(1) ap] by simp_all
  obtain n where "ReadString (WriteString name @ WriteArray write_partition ps) = Inl (ErrNegativeLength n)"
    using ReadString_overflow [OF assms(2,3)] by blast
  then have bad: "decodeMetadataRecord ?p = Inl (ErrNegativeLength n)"
    by (simp add: decodeMetadataRecord_def decode_record_def encodeMetadataRecord_def type_code_def codec_rt
        ReadInt8_def WriteInt8_def dbind_apply)
  have "0 \<le> sint (EndOffset ml')" using seglog.fin_recs [OF ml'(1)] ml'(3) by simp
  then show ?thesis
    using ReadRawFrom_spec [OF ml'(1,2), of 0] ml'(3,4) foldE_decoded [OF l(3), of "[]"] bad
    by (simp add: ReadFrom_def foldE_append)
qed

section \<open>Replays end\<close>

text \<open>
  C26. Reading a log to its end always ends, whatever bytes its files hold: a broker starts or
  reports an error, the offset store and the metadata log are replayed or refused, and a broker
  that asks for metadata from any offset is answered.
\<close>

theorem replays_end:
  "start_broker now nodeID port ms st ml peers ctl \<noteq> None \<and> NewStore l \<noteq> None \<and> ReadFrom ml off \<noteq> None
    \<and> handleFetchMetadataLog mlog body \<noteq> None"
proof (intro conjI)
  have store: "NewStore x \<noteq> None" and raw: "ReadRawFrom x fro \<noteq> None" for x fro
    using scan_ends [of x "-1" replay_record 0 "[]"] scan_ends [of x "-1" "\<lambda>r payloads. Inr (payloads @ [Payload r])" fro "[]"]
    by (simp_all add: NewStore_def replay_def ReadRawFrom_def)
  have read: "ReadFrom x fro \<noteq> None" for x fro using raw [of x fro] by (simp add: ReadFrom_def)
  show "NewStore l \<noteq> None" "ReadFrom ml off \<noteq> None" using store read by blast+
  show "handleFetchMetadataLog mlog body \<noteq> None" using raw by (auto simp: handleFetchMetadataLog_def split: option.split sum.split)
  show "start_broker now nodeID port ms st ml peers ctl \<noteq> None"
    by (simp add: start_broker_def Let_def store read split: prod.split sum.split option.split)
qed

end
