(* ===== verification/Broker_Topics.thy ===== *)
theory Broker_Topics
  imports Broker_Metadata
begin

text \<open>
  What a creation and a deletion of a topic do on every path, and which leaders a failover
  elects.
\<close>

section \<open>What the topic requests do\<close>

definition laid_out :: "int32 list \<Rightarrow> int32 \<Rightarrow> int16 \<Rightarrow> Partition list \<Rightarrow> bool" where
  "laid_out ids n rf ps \<longleftrightarrow> int (length ps) = sint n
     \<and> (\<forall>i < length ps. ID (ps ! i) = of_nat i \<and> Leader (ps ! i) = hd (Replicas (ps ! i)) \<and> ISR (ps ! i) = Replicas (ps ! i)
          \<and> int (length (Replicas (ps ! i))) = sint rf \<and> distinct (Replicas (ps ! i)) \<and> set (Replicas (ps ! i)) \<subseteq> set ids)"

lemma created_laid_out:
  assumes "distinct (brokerIDs b)" "0 < sint n" "0 < sint rf" "sint rf \<le> int (length (brokerIDs b))"
  shows "laid_out (brokerIDs b) n rf (created name n rf b)"
  using AssignReplicas_rows [OF assms] assms(2)
  by (simp add: laid_out_def created_def new_partitions_def nth_enumerate_eq)

definition logs_record :: "BrokerNode \<Rightarrow> Record \<Rightarrow> bool" where
  "logs_record b r = (case bMetadataLog b of None \<Rightarrow> True | Some ml \<Rightarrow> \<not> isl (snd (MetadataLog_Append ml r)))"

lemma createTopic_code:
  "snd (createTopic now name n rf fanOut b) =
    (if sint n \<le> 0 then ErrInvalidPartitions
     else if sint rf \<le> 0 \<or> int (length (brokerIDs b)) < sint rf then ErrInvalidReplicationFactor
     else if Registry_Get (bTopics b) name \<noteq> None then ErrTopicAlreadyExists
     else if logs_record b \<lparr>Type = TopicUpsert, RecordTopic = name, RecordPartitions = created name n rf b\<rparr> then ErrNone
     else ErrUnknown)"
  by (auto simp: createTopic_def created_def Let_def logs_record_def Registry_Create_def Registry_Get_def
      split: option.splits prod.splits sum.splits registry_error.splits)

lemma createTopic_keeps:
  assumes "snd (createTopic now name n rf fanOut b) \<noteq> ErrNone"
  shows "bTopics (fst (createTopic now name n rf fanOut b)) = bTopics b
    \<and> bReplication (fst (createTopic now name n rf fanOut b)) = bReplication b
    \<and> bLogs (fst (createTopic now name n rf fanOut b)) = bLogs b"
  using assms
  by (auto simp: createTopic_def Let_def Registry_Create_def split: option.splits prod.splits sum.splits registry_error.splits)

lemma fanOutTopic_fields:
  "bTopics (fanOutTopic name ps b) = bTopics b" "bReplication (fanOutTopic name ps b) = bReplication b"
  "bLogs (fanOutTopic name ps b) = bLogs b"
  by (simp_all add: fanOutTopic_def split: option.split)

lemma createTopic_registers:
  assumes "snd (createTopic now name n rf fanOut b) = ErrNone"
  shows "Registry_Get (bTopics (fst (createTopic now name n rf fanOut b)))
    = (Registry_Get (bTopics b))(name \<mapsto> \<lparr>Name = name, PartitionList = created name n rf b\<rparr>)"
proof -
  have reg: "Registry_Get (mput name t reg) = (Registry_Get reg)(name \<mapsto> t)" for reg and t :: Topic
    by (auto simp: Registry_Get_def)
  show ?thesis
    using assms
    by (auto simp: createTopic_def created_def Let_def Registry_Create_def Apply_registry apply_record_def reg err_code_defs
        fanOutTopic_fields split: option.splits prod.splits sum.splits registry_error.splits if_splits)
qed

text \<open>
  C29. Creating a topic, on every path. The request is refused by a broker that is not the
  controller, for a partition count or a replication factor that is not positive, for a factor
  above the number of brokers, for a name that is taken, and when the metadata log cannot be
  written, each with its own error; then registry, replication and logs are as before.
  Otherwise the topic is registered, and no other one is touched: the partitions are numbered
  from 0, each has as many replicas as asked, all different brokers of the cluster, led by the
  first one and all in sync.
\<close>

theorem create_topic_exact:
  assumes "distinct (brokerIDs b)" "CreateTopic now name n rf b = (b', err)"
  defines "r \<equiv> \<lparr>Type = TopicUpsert, RecordTopic = name, RecordPartitions = created name n rf b\<rparr>"
  shows "err =
      (if refuses_topics b then Some OpNotController
       else if sint n \<le> 0 then Some OpInvalidPartitions
       else if sint rf \<le> 0 \<or> int (length (brokerIDs b)) < sint rf then Some OpInvalidReplicationFactor
       else if Registry_Get (bTopics b) name \<noteq> None then Some OpTopicExists
       else if logs_record b r then None else Some OpFailed)
    \<and> (if err = None
       then laid_out (brokerIDs b) n rf (created name n rf b)
         \<and> Registry_Get (bTopics b') = (Registry_Get (bTopics b))(name \<mapsto> \<lparr>Name = name, PartitionList = created name n rf b\<rparr>)
       else bTopics b' = bTopics b \<and> bReplication b' = bReplication b \<and> bLogs b' = bLogs b)"
proof (cases "refuses_topics b")
  case True
  then show ?thesis using assms(2) by (auto simp: CreateTopic_def)
next
  case False
  let ?c = "createTopic now name n rf True b"
  have r: "b' = fst ?c" "err = codeToError (snd ?c)" using assms(2) False by (auto simp: CreateTopic_def split: prod.splits)
  have ok: "err = None \<longleftrightarrow> snd ?c = ErrNone" by (simp add: r(2) codeToError_def err_code_defs)
  have "laid_out (brokerIDs b) n rf (created name n rf b)" if "snd ?c = ErrNone"
    using that created_laid_out [OF assms(1)] by (auto simp: createTopic_code err_code_defs split: if_splits)
  moreover have "err = (if sint n \<le> 0 then Some OpInvalidPartitions
       else if sint rf \<le> 0 \<or> int (length (brokerIDs b)) < sint rf then Some OpInvalidReplicationFactor
       else if Registry_Get (bTopics b) name \<noteq> None then Some OpTopicExists
       else if logs_record b r then None else Some OpFailed)"
    unfolding r(2) createTopic_code r_def by (simp add: codeToError_def err_code_defs)
  ultimately show ?thesis
    using False ok createTopic_registers [of now name n rf True b] createTopic_keeps [of now name n rf True b] r(1) by simp
qed

definition demo_node :: BrokerNode where
  "demo_node = new_broker 3 9092 three_brokers (NewManager ''data'') (fresh_log [])"

theorem create_topic_exact_witness:
  "laid_out [1, 2, 3] 4 2 (created ''orders'' 4 2 demo_node)
    \<and> Registry_Get (bTopics (fst (CreateTopic 1 ''orders'' 4 2 demo_node))) ''orders''
      = Some \<lparr>Name = ''orders'', PartitionList = created ''orders'' 4 2 demo_node\<rparr>"
proof -
  have "brokerIDs demo_node = [1, 2, 3]" "snd (CreateTopic 1 ''orders'' 4 2 demo_node) = None" by code_simp+
  then show ?thesis
    using create_topic_exact [OF _ prod.collapse [symmetric], of demo_node 1 "''orders''" 4 2] by auto
qed

lemma deleteTopic_exact:
  "snd (deleteTopic now name b) =
    (if Registry_Get (bTopics b) name = None then ErrUnknownTopicOrPartition
     else if logs_record b \<lparr>Type = TopicDelete, RecordTopic = name, RecordPartitions = []\<rparr> then ErrNone
     else ErrUnknown)"
  "Registry_Get (bTopics (fst (deleteTopic now name b))) =
    (if snd (deleteTopic now name b) = ErrNone then (Registry_Get (bTopics b))(name := None) else Registry_Get (bTopics b))"
  "bReplication (fst (deleteTopic now name b)) = bReplication b \<and> bLogs (fst (deleteTopic now name b)) = bLogs b"
  by (auto simp: deleteTopic_def Let_def logs_record_def Registry_Delete_def Registry_Get_def ApplyMetadataRecord_def
      err_code_defs split: option.splits prod.splits sum.splits registry_error.splits)

text \<open>
  C30. Deleting a topic, on every path. The request is refused by a broker that is not the
  controller, for a name that is not registered, and when the metadata log cannot be written;
  then the registry is as before. Otherwise exactly this topic is unregistered. The logs of its
  partitions and the roles in them stay in any case.
\<close>

theorem delete_topic_exact:
  "case DeleteTopic now name b of (b', err) \<Rightarrow>
      err =
        (if refuses_topics b then Some OpNotController
         else if Registry_Get (bTopics b) name = None then Some OpTopicNotFound
         else if logs_record b \<lparr>Type = TopicDelete, RecordTopic = name, RecordPartitions = []\<rparr> then None
         else Some OpFailed)
      \<and> Registry_Get (bTopics b') =
        (if err = None then (Registry_Get (bTopics b))(name := None) else Registry_Get (bTopics b))
      \<and> bReplication b' = bReplication b \<and> bLogs b' = bLogs b"
proof (cases "refuses_topics b")
  case True
  then show ?thesis by (simp add: DeleteTopic_def)
next
  case False
  have "DeleteTopic now name b = (fst (deleteTopic now name b), codeToError (snd (deleteTopic now name b)))"
    using False by (simp add: DeleteTopic_def split: prod.split)
  moreover have "codeToError c = None \<longleftrightarrow> c = ErrNone" for c by (simp add: codeToError_def)
  ultimately show ?thesis
    using False deleteTopic_exact [of now name b] by (simp add: codeToError_def err_code_defs)
qed

section \<open>Election\<close>

text \<open>A broker whose metadata log accepts records.\<close>

definition writable :: "BrokerNode \<Rightarrow> bool" where
  "writable b \<longleftrightarrow> (\<exists>ml. bMetadataLog b = Some ml \<and> log_healthy ml \<and> disk ml = [])"

lemma append_apply_writable:
  assumes "replays b rs" "writable b" "record_valid r" "int (length rs) < 2 ^ 63 - 1"
  shows "replays (append_apply now r b) (rs @ [r])" "writable (append_apply now r b)"
    "Registry_Get (bTopics (append_apply now r b)) = apply_record r (Registry_Get (bTopics b))"
proof -
  obtain ml where ml: "bMetadataLog b = Some ml" "logged ml rs" "log_healthy ml" "disk ml = []"
    using assms(1,2) by (auto simp: replays_def writable_def)
  then have inv: "log_inv ml" by (simp add: logged_def durable_def)
  obtain ml' off where ap: "Append ml (encodeMetadataRecord r) = (ml', Inr off)"
    using Append_succeeds [OF inv ml(3,4)] by blast
  have "length (encodeMetadataRecord r) < 2 ^ 32" using assms(3) by (simp add: record_valid_def)
  note l = logged_append [OF ml(2) ap this assms(4) decode_encode [OF assms(3)] assms(3)]
  have aa: "append_apply now r b = ApplyMetadataRecord now r (b\<lparr>bMetadataLog := Some ml'\<rparr>)"
    using ml(1) ap by (simp add: append_apply_def MetadataLog_Append_def)
  show "replays (append_apply now r b) (rs @ [r])" "writable (append_apply now r b)"
    "Registry_Get (bTopics (append_apply now r b)) = apply_record r (Registry_Get (bTopics b))"
    using l assms(1) Append_healthy [OF inv ap] ml(4)
    by (auto simp: aa replays_def writable_def Apply_registry Apply_fields Apply_registry_ok topics_after_snoc)
qed

lemma append_apply_registry:
  "Registry_Get (bTopics (append_apply now r b)) = Registry_Get (bTopics b)
    \<or> Registry_Get (bTopics (append_apply now r b)) = apply_record r (Registry_Get (bTopics b))"
  by (auto simp: append_apply_def Apply_registry split: option.split prod.split sum.split)

definition reassign_topic :: "BrokerNode \<Rightarrow> int32 \<Rightarrow> Topic \<Rightarrow> Topic" where
  "reassign_topic b d t = t\<lparr>PartitionList := map (fst \<circ> reassign b d) (PartitionList t)\<rparr>"

lemma reassign_none: "\<not> list_ex (\<lambda>p. snd (reassign b d p)) ps \<Longrightarrow> map (fst \<circ> reassign b d) ps = ps"
  by (induction ps) (auto simp: reassign_def Let_def split: if_splits)

lemma reassign_cong:
  assumes "NodeID b' = NodeID b" "bIsPeerAlive b' = bIsPeerAlive b"
  shows "reassign b' d = reassign b d"
  using assms by (auto simp: reassign_def liveISR_def peerAlive_def)

lemma failover_topic_fields:
  "bMetadataLog b \<noteq> None \<Longrightarrow> NodeID (failover_topic now d t b) = NodeID b
    \<and> bIsPeerAlive (failover_topic now d t b) = bIsPeerAlive b \<and> bMetadataLog (failover_topic now d t b) \<noteq> None"
  by (simp add: failover_topic_log append_apply_fields del: not_None_eq)

lemma failover_topic_registry:
  assumes "bMetadataLog b \<noteq> None" "Registry_Get (bTopics b) (Name t) = Some t"
  shows "name \<noteq> Name t \<Longrightarrow> Registry_Get (bTopics (failover_topic now d t b)) name = Registry_Get (bTopics b) name"
    and "Registry_Get (bTopics (failover_topic now d t b)) (Name t) \<in> {Some t, Some (reassign_topic b d t)}"
    and "replays b rs \<Longrightarrow> writable b \<Longrightarrow> int (length rs) < 2 ^ 63 - 1 \<Longrightarrow>
      \<exists>rs'. replays (failover_topic now d t b) rs' \<and> length rs' \<le> Suc (length rs) \<and> writable (failover_topic now d t b)
        \<and> Registry_Get (bTopics (failover_topic now d t b)) (Name t) = Some (reassign_topic b d t)"
proof -
  let ?r = "\<lparr>Type = TopicUpsert, RecordTopic = Name t, RecordPartitions = map (fst \<circ> reassign b d) (PartitionList t)\<rparr>"
  have a: "apply_record ?r m = m(Name t \<mapsto> reassign_topic b d t)" for m
    by (cases t) (simp add: apply_record_def reassign_topic_def)
  show "name \<noteq> Name t \<Longrightarrow> Registry_Get (bTopics (failover_topic now d t b)) name = Registry_Get (bTopics b) name"
    "Registry_Get (bTopics (failover_topic now d t b)) (Name t) \<in> {Some t, Some (reassign_topic b d t)}"
    using append_apply_registry [of now ?r b] assms(2) by (auto simp: failover_topic_log [OF assms(1)] a)
  assume r: "replays b rs" "writable b" "int (length rs) < 2 ^ 63 - 1"
  have "record_valid \<lparr>Type = TopicUpsert, RecordTopic = Name t, RecordPartitions = PartitionList t\<rparr>"
    using topics_after_record [of rs "Name t" t] assms(2) r(1) by (auto simp: replays_def logged_def list_all_iff)
  note v = append_apply_writable [OF r(1,2) reassigned_valid [OF this] r(3), of now b d]
  show "\<exists>rs'. replays (failover_topic now d t b) rs' \<and> length rs' \<le> Suc (length rs) \<and> writable (failover_topic now d t b)
        \<and> Registry_Get (bTopics (failover_topic now d t b)) (Name t) = Some (reassign_topic b d t)"
  proof (cases "list_ex (\<lambda>p. snd (reassign b d p)) (PartitionList t)")
    case True
    then show ?thesis using v by (auto simp: failover_topic_log [OF assms(1)] a intro!: exI [of _ "rs @ [?r]"])
  next
    case False
    then have "reassign_topic b d t = t" by (simp add: reassign_topic_def reassign_none)
    then show ?thesis using False r assms(2) by (auto simp: failover_topic_log [OF assms(1)] intro!: exI [of _ rs])
  qed
qed

lemma fold_failover_registry:
  assumes "bMetadataLog b \<noteq> None" "distinct (map Name ts)" "\<forall>t \<in> set ts. Registry_Get (bTopics b) (Name t) = Some t"
  shows "name \<notin> Name ` set ts \<Longrightarrow> Registry_Get (bTopics (fold (failover_topic now d) ts b)) name = Registry_Get (bTopics b) name"
    and "t \<in> set ts \<Longrightarrow> Registry_Get (bTopics (fold (failover_topic now d) ts b)) (Name t)
      \<in> {Some t, Some (reassign_topic b d t)}"
    and "t \<in> set ts \<Longrightarrow> replays b rs \<Longrightarrow> writable b \<Longrightarrow> int (length rs) + int (length ts) < 2 ^ 63 - 1 \<Longrightarrow>
      Registry_Get (bTopics (fold (failover_topic now d) ts b)) (Name t) = Some (reassign_topic b d t)"
proof -
  have "(name \<notin> Name ` set ts \<longrightarrow> Registry_Get (bTopics (fold (failover_topic now d) ts b)) name = Registry_Get (bTopics b) name)
    \<and> (t \<in> set ts \<longrightarrow> Registry_Get (bTopics (fold (failover_topic now d) ts b)) (Name t) \<in> {Some t, Some (reassign_topic b d t)})
    \<and> (t \<in> set ts \<longrightarrow> replays b rs \<longrightarrow> writable b \<longrightarrow> int (length rs) + int (length ts) < 2 ^ 63 - 1 \<longrightarrow>
      Registry_Get (bTopics (fold (failover_topic now d) ts b)) (Name t) = Some (reassign_topic b d t))" for name t rs
    using assms
  proof (induction ts arbitrary: b name t rs)
    case (Cons t0 ts)
    let ?b = "failover_topic now d t0 b"
    note f = failover_topic_fields [OF Cons.prems(1), of now d t0]
    have t0: "Registry_Get (bTopics b) (Name t0) = Some t0" "Name t0 \<notin> Name ` set ts" using Cons.prems(2,3) by auto
    note one = failover_topic_registry [OF Cons.prems(1) t0(1), where now = now and d = d]
    have re: "reassign_topic ?b d = reassign_topic b d"
      using f reassign_cong [of ?b b d] by (auto simp: reassign_topic_def)
    have "\<forall>t \<in> set ts. Registry_Get (bTopics ?b) (Name t) = Some t"
      using one(1) t0(2) Cons.prems(3) by (metis image_eqI list.set_intros(2))
    note IH = Cons.IH [OF conjunct2 [OF conjunct2 [OF f]] _ this, unfolded re]
    have IH1: "Registry_Get (bTopics (fold (failover_topic now d) (t0 # ts) b)) name = Registry_Get (bTopics ?b) name"
      if "name \<notin> Name ` set ts" for name using IH [of name] that Cons.prems(2) by simp
    show ?case
    proof (intro conjI impI)
      assume "name \<notin> Name ` set (t0 # ts)"
      then show "Registry_Get (bTopics (fold (failover_topic now d) (t0 # ts) b)) name = Registry_Get (bTopics b) name"
        using IH1 one(1) by simp
    next
      assume "t \<in> set (t0 # ts)"
      then show "Registry_Get (bTopics (fold (failover_topic now d) (t0 # ts) b)) (Name t) \<in> {Some t, Some (reassign_topic b d t)}"
        using IH1 [OF t0(2)] one(2) IH [of _ t] Cons.prems(2) by auto
    next
      assume t: "t \<in> set (t0 # ts)" "replays b rs" "writable b" "int (length rs) + int (length (t0 # ts)) < 2 ^ 63 - 1"
      then obtain rs' where "replays ?b rs'" "length rs' \<le> Suc (length rs)" "writable ?b"
        "Registry_Get (bTopics ?b) (Name t0) = Some (reassign_topic b d t0)"
        using one(3) [of rs] by fastforce
      then show "Registry_Get (bTopics (fold (failover_topic now d) (t0 # ts) b)) (Name t) = Some (reassign_topic b d t)"
        using IH1 [OF t0(2)] IH [of _ t rs'] Cons.prems(2) t(1,4) by auto
    qed
  qed simp
  then show "name \<notin> Name ` set ts \<Longrightarrow> Registry_Get (bTopics (fold (failover_topic now d) ts b)) name = Registry_Get (bTopics b) name"
    "t \<in> set ts \<Longrightarrow> Registry_Get (bTopics (fold (failover_topic now d) ts b)) (Name t) \<in> {Some t, Some (reassign_topic b d t)}"
    "t \<in> set ts \<Longrightarrow> replays b rs \<Longrightarrow> writable b \<Longrightarrow> int (length rs) + int (length ts) < 2 ^ 63 - 1 \<Longrightarrow>
      Registry_Get (bTopics (fold (failover_topic now d) ts b)) (Name t) = Some (reassign_topic b d t)"
    by blast+
qed

text \<open>
  What an election does to a partition: one that the dead broker led and that has a replica in
  sync which is alive gets the one with the lowest id as its leader, and exactly these replicas
  stay in sync; any other partition is as before.
\<close>

definition elected :: "BrokerNode \<Rightarrow> int32 \<Rightarrow> Partition \<Rightarrow> Partition \<Rightarrow> bool" where
  "elected b d p p' \<longleftrightarrow>
     (let live = {i \<in> set (ISR p). i \<noteq> d \<and> peerAlive b i}
      in if Leader p = d \<and> live \<noteq> {}
         then ID p' = ID p \<and> Replicas p' = Replicas p \<and> set (ISR p') = live
           \<and> Leader p' \<in> live \<and> (\<forall>i \<in> live. sint (Leader p') \<le> sint i)
         else p' = p)"

lemma sort_key_empty: "sort_key f xs = [] \<longleftrightarrow> xs = []"
  by (metis length_0_conv length_sort)

lemma hd_sort_key: "xs \<noteq> [] \<Longrightarrow> hd (sort_key f xs) \<in> set xs \<and> (\<forall>x \<in> set xs. f (hd (sort_key f xs)) \<le> f x)"
proof -
  assume "xs \<noteq> []"
  then obtain y ys where y: "sort_key f xs = y # ys" by (metis list.exhaust sort_key_empty)
  then have "sorted (map f (y # ys))" "set (y # ys) = set xs" by (metis sorted_sort_key, metis set_sort)
  then show ?thesis using y by auto
qed

lemma reassign_elected: "elected b d p (fst (reassign b d p))"
proof -
  let ?l = "filter (\<lambda>i. i \<noteq> d \<and> peerAlive b i) (ISR p)"
  have "set ?l = {i \<in> set (ISR p). i \<noteq> d \<and> peerAlive b i}" by auto
  then show ?thesis
    using hd_sort_key [of ?l sint]
    by (cases "?l = []") (auto simp: elected_def reassign_def liveISR_def Let_def sort_key_empty filter_empty_conv)
qed



end
