(* ===== verification/Broker_Roles.thy ===== *)
theory Broker_Roles
  imports Broker_Topics Replication_Correct
begin

text \<open>
  The roles of a broker in the partitions that it replicates, as applied metadata sets them.
\<close>

section \<open>Roles\<close>

definition log_opens :: "Manager \<Rightarrow> string \<Rightarrow> int32 \<Rightarrow> bool" where
  "log_opens st name i \<longleftrightarrow> \<not> isl (snd (Manager_Log st name i))"

lemma log_opens_iff: "log_opens st name i \<longleftrightarrow> map_of (logs st) (logKey name i) \<noteq> None
    \<or> \<not> isl (Open (io st) (dir_of st (logKey name i)))"
  by (simp add: log_opens_def Manager_Log_def Let_def split: option.split sum.split)

lemma Manager_Log_fields: "io (fst (Manager_Log st name i)) = io st" "dir_of (fst (Manager_Log st name i)) = dir_of st"
  by (auto simp: Manager_Log_def Let_def dir_of_def split: option.split sum.split)

lemma log_opens_Manager_Log: "log_opens (fst (Manager_Log st name' j)) name i = log_opens st name i"
proof -
  have "map_of (logs (fst (Manager_Log st name' j))) k = map_of (logs st) k
      \<or> k = logKey name' j \<and> map_of (logs (fst (Manager_Log st name' j))) k \<noteq> None \<and> \<not> isl (Open (io st) (dir_of st k))" for k
    by (auto simp: Manager_Log_def Let_def split: option.split sum.split)
  from this [of "logKey name i"] show ?thesis by (auto simp: log_opens_iff Manager_Log_fields)
qed

lemma start_partition_logs: "log_opens (snd (start_partition now name q mm)) name' i = log_opens (snd mm) name' i"
  using log_opens_Manager_Log [of "snd mm" name "ID q" name' i]
  by (auto simp: start_partition_def Let_def split: prod.splits option.split sum.split)

lemma start_partition_other:
  "key \<noteq> \<lparr>tpTopic = name, tpPartition = ID q\<rparr> \<Longrightarrow>
    map_of (fetchers (fst (start_partition now name q mm))) key = map_of (fetchers (fst mm)) key
    \<and> map_of (led (fst (start_partition now name q mm))) key = map_of (led (fst mm)) key"
  "rmSelfID (fst (start_partition now name q mm)) = rmSelfID (fst mm)"
  "rmMembership (fst (start_partition now name q mm)) = rmMembership (fst mm)"
  "rmLagTimeout (fst (start_partition now name q mm)) = rmLagTimeout (fst mm)"
  using start_partition_fields [of now name q "fst mm" "snd mm" "fst (start_partition now name q mm)"
      "snd (start_partition now name q mm)"] by auto

lemma fold_start_other:
  "(\<And>q. q \<in> set qs \<Longrightarrow> key \<noteq> \<lparr>tpTopic = name, tpPartition = ID q\<rparr>) \<Longrightarrow>
    map_of (fetchers (fst (fold (start_partition now name) qs mm))) key = map_of (fetchers (fst mm)) key
    \<and> map_of (led (fst (fold (start_partition now name) qs mm))) key = map_of (led (fst mm)) key"
  by (induction qs arbitrary: mm) (simp_all add: start_partition_other)

text \<open>The role that a broker takes in a partition that it replicates.\<close>

definition role :: "int \<Rightarrow> string \<Rightarrow> Partition \<Rightarrow> ReplicationManager \<Rightarrow> ReplicationManager \<Rightarrow> bool" where
  "role now name p m m' \<longleftrightarrow>
     (let key = \<lparr>tpTopic = name, tpPartition = ID p\<rparr>
      in if Leader p = rmSelfID m
         then map_of (fetchers m') key = None
           \<and> (case map_of (led m) key of
                Some s \<Rightarrow> map_of (led m') key = Some s
              | None \<Rightarrow> \<exists>u. map_of (led m') key = Some (NewPartitionState u now
                  (if ISR p = [] then Replicas p else ISR p) (rmSelfID m) (rmLagTimeout m)))
         else (case Membership_Get (rmMembership m) (Leader p) of
                 None \<Rightarrow> map_of (fetchers m') key = None
               | Some leader \<Rightarrow> map_of (led m') key = None
                   \<and> map_of (fetchers m') key = Some \<lparr>fTopic = name, fPartition = ID p, fSelfID = rmSelfID m,
                       fLeader = leader, fMaxBytes = 2 ^ 20\<rparr>))"

lemma role_final:
  fixes name p
  defines "key \<equiv> \<lparr>tpTopic = name, tpPartition = ID p\<rparr>"
  assumes "map_of (fetchers m'') key = map_of (fetchers m') key" "map_of (led m'') key = map_of (led m') key"
  shows "role now name p m m'' = role now name p m m'"
  unfolding role_def Let_def key_def [symmetric] assms(2,3) ..

lemma role_initial:
  fixes name p
  defines "key \<equiv> \<lparr>tpTopic = name, tpPartition = ID p\<rparr>"
  assumes "map_of (led m1) key = map_of (led m) key" "rmSelfID m1 = rmSelfID m" "rmMembership m1 = rmMembership m"
    "rmLagTimeout m1 = rmLagTimeout m"
  shows "role now name p m1 m' = role now name p m m'"
  unfolding role_def Let_def key_def [symmetric] assms(2-5) ..

lemma start_partition_role:
  assumes "rmSelfID m \<in> set (Replicas p)" "log_opens st name (ID p)" "map_of (fetchers m) \<lparr>tpTopic = name, tpPartition = ID p\<rparr> = None"
  shows "role now name p m (fst (start_partition now name p (m, st)))"
  using assms
  by (auto simp: role_def start_partition_def log_opens_def containsBroker_def list_ex_iff Let_def stopFollowingKey_def
      lead_key_def split: option.split prod.split sum.split)

lemma fold_start_role:
  assumes "distinct (map ID ps)" "p \<in> set ps" "rmSelfID m \<in> set (Replicas p)" "log_opens st name (ID p)"
    and "map_of (fetchers m) \<lparr>tpTopic = name, tpPartition = ID p\<rparr> = None"
  shows "role now name p m (fst (fold (start_partition now name) ps (m, st)))"
  using assms
proof (induction ps arbitrary: m st)
  case (Cons q qs)
  obtain m1 st1 where st: "start_partition now name q (m, st) = (m1, st1)" by fastforce
  show ?case
  proof (cases "p = q")
    case True
    have r: "role now name p m m1" using start_partition_role [OF Cons.prems(3-5), of now] st True by simp
    have "\<lparr>tpTopic = name, tpPartition = ID p\<rparr> \<noteq> \<lparr>tpTopic = name, tpPartition = ID q'\<rparr>" if "q' \<in> set qs" for q'
      using that Cons.prems(1) True by auto
    note o = fold_start_other [OF this, where now = now and mm = "(m1, st1)", unfolded fst_conv]
    have "role now name p m (fst (fold (start_partition now name) qs (m1, st1))) = role now name p m m1"
      by (rule role_final) (simp_all only: o)
    then show ?thesis using st r by simp
  next
    case False
    then have p: "p \<in> set qs" "ID p \<noteq> ID q" using Cons.prems(1,2) by (auto simp: image_iff)
    have m1: "rmSelfID m1 = rmSelfID m" "rmMembership m1 = rmMembership m" "log_opens st1 name (ID p)" "rmLagTimeout m1 = rmLagTimeout m"
      "map_of (fetchers m1) \<lparr>tpTopic = name, tpPartition = ID p\<rparr> = None"
      "map_of (led m1) \<lparr>tpTopic = name, tpPartition = ID p\<rparr> = map_of (led m) \<lparr>tpTopic = name, tpPartition = ID p\<rparr>"
      using start_partition_other(1) [of "\<lparr>tpTopic = name, tpPartition = ID p\<rparr>" name q now "(m, st)"]
        start_partition_other(2-4) [of now name q "(m, st)"]
        start_partition_logs [of now name q "(m, st)" name "ID p"] st p(2) Cons.prems(4,5) by auto
    have "role now name p m1 (fst (fold (start_partition now name) qs (m1, st1)))"
      using Cons.IH [OF _ p(1) _ m1(3,5)] Cons.prems(1,3) m1(1) by simp
    then show ?thesis using role_initial [OF m1(6,1,2,4)] st by simp
  qed
qed simp

lemma fold_Stop:
  "map_of (fetchers (fold (\<lambda>p. StopFollowing name (ID p)) ps m)) key
    = (if \<exists>p \<in> set ps. key = \<lparr>tpTopic = name, tpPartition = ID p\<rparr> then None else map_of (fetchers m) key)"
  "led (fold (\<lambda>p. StopFollowing name (ID p)) ps m) = led m"
  "rmSelfID (fold (\<lambda>p. StopFollowing name (ID p)) ps m) = rmSelfID m"
  "rmMembership (fold (\<lambda>p. StopFollowing name (ID p)) ps m) = rmMembership m"
  "rmLagTimeout (fold (\<lambda>p. StopFollowing name (ID p)) ps m) = rmLagTimeout m"
  by (induction ps arbitrary: m) (auto simp: StopFollowing_def stopFollowingKey_def)

lemma fold_start_self: "rmSelfID (fst (fold (start_partition now name) ps mm)) = rmSelfID (fst mm)"
  by (induction ps arbitrary: mm) (simp_all add: start_partition_other)

lemma applyTopic_log_opens: "log_opens (bLogs (applyTopic now name ps b)) name' i = log_opens (bLogs b) name' i"
proof -
  have "log_opens (snd (fold (start_partition now name) qs mm)) name' i = log_opens (snd mm) name' i" for qs mm
    by (induction qs arbitrary: mm) (simp_all add: start_partition_logs)
  then show ?thesis by (simp add: applyTopic_def StartFollowing_def Let_def split_beta split: option.split)
qed

lemma applyTopic_roles:
  assumes "bReplication b = Some m" "roles_ok m"
  shows "\<exists>m'. bReplication (applyTopic now name ps b) = Some m' \<and> roles_ok m' \<and> rmSelfID m' = rmSelfID m
    \<and> (distinct (map ID ps) \<longrightarrow> (\<forall>p \<in> set ps. rmSelfID m \<in> set (Replicas p) \<longrightarrow> log_opens (bLogs b) name (ID p) \<longrightarrow>
        role now name p m m'))
    \<and> (\<forall>key. tpTopic key \<noteq> name \<longrightarrow>
        map_of (fetchers m') key = map_of (fetchers m) key \<and> map_of (led m') key = map_of (led m) key)"
proof -
  define m0 where "m0 = fold (\<lambda>p. StopFollowing name (ID p)) ps m"
  define m' where "m' = fst (fold (start_partition now name) ps (m0, bLogs b))"
  have m': "bReplication (applyTopic now name ps b) = Some m'"
    using assms(1) by (auto simp: applyTopic_def StartFollowing_def Let_def m0_def m'_def split: prod.split)
  have "roles_ok m0" using assms(2) unfolding m0_def roles_ok_def fold_Stop by auto
  then have "roles_ok m'"
    using StartFollowing_roles [of m0 now "\<lparr>Name = name, PartitionList = ps\<rparr>" "bLogs b"] by (simp add: StartFollowing_def m'_def)
  moreover have "rmSelfID m' = rmSelfID m"
    using fold_start_self [of now name ps "(m0, bLogs b)"] by (simp add: m'_def m0_def fold_Stop)
  moreover have "role now name p m m'"
    if "distinct (map ID ps)" "p \<in> set ps" "rmSelfID m \<in> set (Replicas p)" "log_opens (bLogs b) name (ID p)" for p
  proof -
    have "map_of (fetchers m0) \<lparr>tpTopic = name, tpPartition = ID p\<rparr> = None" using that(2) unfolding m0_def fold_Stop by auto
    from fold_start_role [OF that(1,2) _ that(4) this] that(3) have "role now name p m0 m'" by (simp add: m'_def m0_def fold_Stop)
    then show ?thesis using role_initial [of m0 name p m] by (simp add: m0_def fold_Stop)
  qed
  moreover have "map_of (fetchers m') key = map_of (fetchers m) key \<and> map_of (led m') key = map_of (led m) key"
    if "tpTopic key \<noteq> name" for key
  proof -
    have ne: "key \<noteq> \<lparr>tpTopic = name, tpPartition = ID q\<rparr>" for q using that by auto
    show ?thesis using fold_start_other [OF ne, where qs = ps and now = now and mm = "(m0, bLogs b)"] by (simp add: m'_def m0_def fold_Stop ne)
  qed
  ultimately show ?thesis using m' by blast
qed

text \<open>
  C20. Applying the metadata of a topic gives the broker the role the metadata says in every
  partition that it replicates and whose log opens. A partition it leads has a state, the one
  it already had or a new one over the replicas in sync, and no fetcher; one that another
  broker of the cluster leads has a fetcher for this very leader and no state. No partition
  ever has both, and the roles in the partitions of other topics do not change.
\<close>

theorem roles_follow_metadata:
  assumes "bReplication b = Some m" "roles_ok m"
  shows "\<exists>m'. bReplication (applyTopic now name ps b) = Some m' \<and> roles_ok m'
    \<and> (distinct (map ID ps) \<longrightarrow> (\<forall>p \<in> set ps. rmSelfID m \<in> set (Replicas p) \<longrightarrow> log_opens (bLogs b) name (ID p) \<longrightarrow>
        role now name p m m'))
    \<and> (\<forall>key. tpTopic key \<noteq> name \<longrightarrow>
        map_of (fetchers m') key = map_of (fetchers m) key \<and> map_of (led m') key = map_of (led m) key)"
  using applyTopic_roles [OF assms] by blast

theorem roles_follow_metadata_witness:
  "\<exists>m'. bReplication (applyTopic 5 ''t'' [\<lparr>ID = 0, Leader = 3, Replicas = [3, 1], ISR = [3, 1]\<rparr>,
        \<lparr>ID = 1, Leader = 1, Replicas = [1, 3], ISR = [1, 3]\<rparr>] demo_node) = Some m'
    \<and> map_option (BrokerID \<circ> fLeader) (map_of (fetchers m') \<lparr>tpTopic = ''t'', tpPartition = 1\<rparr>) = Some 1
    \<and> map_option replicas (map_of (led m') \<lparr>tpTopic = ''t'', tpPartition = 0\<rparr>) = Some [3, 1]"
proof -
  let ?ps = "[\<lparr>ID = 0, Leader = 3, Replicas = [3, 1], ISR = [3, 1]\<rparr>, \<lparr>ID = 1, Leader = 1, Replicas = [1, 3], ISR = [1, 3]\<rparr>]"
  let ?m = "UseFaults (Some NewConfig) (NewReplicationManager 3 three_brokers)"
  have m: "bReplication demo_node = Some ?m" "roles_ok ?m" "bLogs demo_node = NewManager ''data''"
    by (simp_all add: demo_node_def new_broker_def roles_ok_def UseFaults_def NewReplicationManager_def)
  have "log_opens (NewManager ''data'') ''t'' i" for i
    by (simp add: log_opens_iff NewManager_def dir_of_def Open_empty)
  then obtain m' where m': "bReplication (applyTopic 5 ''t'' ?ps demo_node) = Some m'"
    "role 5 ''t'' (?ps ! 0) ?m m'" "role 5 ''t'' (?ps ! 1) ?m m'"
    using roles_follow_metadata [OF m(1,2), of 5 "''t''" ?ps]
    by (auto simp: m(3) UseFaults_def NewReplicationManager_def)
  have "map_option replicas (map_of (led m') \<lparr>tpTopic = ''t'', tpPartition = 0\<rparr>) = Some [3, 1]"
    using m'(2) by (auto simp: role_def Let_def UseFaults_def NewReplicationManager_def NewPartitionState_def recompute_def)
  moreover have "map_option (BrokerID \<circ> fLeader) (map_of (fetchers m') \<lparr>tpTopic = ''t'', tpPartition = 1\<rparr>) = Some 1"
    using m'(3) by (auto simp: role_def Let_def UseFaults_def NewReplicationManager_def Membership_Get_def three_brokers_def)
  ultimately show ?thesis using m'(1) by blast
qed

end
