(* ===== verification/Broker_Connection.thy ===== *)
theory Broker_Connection
  imports Broker_Views
begin

text \<open>
  How a connection is served: the requests of a client, pipelined in whatever way the bytes
  arrive, are dispatched one after the other, and the responses leave in the same order.
\<close>

definition request_frame :: "bytes \<Rightarrow> bytes" where
  "request_frame payload = be_put 4 (of_nat (length payload) :: uint32) @ payload"

text \<open>The reference: one request after the other, up to the first that fails.\<close>

fun serve :: "(BrokerNode \<Rightarrow> BrokerNode) \<Rightarrow> int \<Rightarrow> BrokerNode \<Rightarrow> bytes list \<Rightarrow> BrokerNode \<times> bytes list" where
  "serve env now b [] = (b, [])"
| "serve env now b (p # ps) =
     (case Dispatch env now b p of
        (b', Some (Inr response)) \<Rightarrow> (case serve env now b' ps of (b'', rs) \<Rightarrow> (b'', response # rs))
      | (b', _) \<Rightarrow> (b', []))"

lemma ReadFrame_request: "length p < 2 ^ 32 \<Longrightarrow> ReadFrame (request_frame p @ rest) = Inr (p, rest)"
  using ReadFrame_Write [of p rest] by (simp add: request_frame_def)

lemma WriteFrame_ok: "WriteFrame [] p = (None, request_frame p, [])"
  by (simp add: WriteFrame_def request_frame_def)

lemma WriteFrame_prefix:
  assumes "WriteFrame ws p = (err, out, ws')"
  shows "prefix out (request_frame p) \<and> (err = None \<longrightarrow> out = request_frame p)"
proof -
  let ?hdr = "be_put 4 (of_nat (length p) :: uint32)"
  obtain e1 s1 ws1 where h: "writeAll ws ?hdr = (e1, s1, ws1)" by (rule prod_cases3)
  obtain e2 s2 ws2 where t: "writeAll ws1 p = (e2, s2, ws2)" by (rule prod_cases3)
  show ?thesis
    using assms writeAll_sent [OF h] writeAll_sent [OF t] h t
    by (cases e1) (auto simp: WriteFrame_def request_frame_def prefix_def)
qed

lemma map_sum_Inr: "map_sum f g x = Inr y \<longleftrightarrow> (\<exists>z. x = Inr z \<and> y = g z)"
  by (cases x) auto

lemma Dispatch_correlation:
  assumes "Dispatch env now b p = (b', Some (Inr response))"
  shows "\<exists>h body resp. ReadRequestHeader p = Inr (h, body) \<and> response = WriteResponseHeader (CorrelationID h) @ resp"
  using assms by (auto simp: Dispatch_def map_sum_Inr split: sum.splits prod.splits)

lemma serve_responses:
  assumes "serve env now b ps = (b', rs)"
  shows "length rs \<le> length ps \<and> (\<forall>i < length rs. \<exists>h body resp.
    ReadRequestHeader (ps ! i) = Inr (h, body) \<and> rs ! i = WriteResponseHeader (CorrelationID h) @ resp)"
  using assms
proof (induction ps arbitrary: b b' rs)
  case (Cons p ps)
  show ?case
  proof (cases "\<exists>b1 r. Dispatch env now b p = (b1, Some (Inr r))")
    case True
    then obtain b1 r rs' where r: "Dispatch env now b p = (b1, Some (Inr r))" "serve env now b1 ps = (b', rs')" "rs = r # rs'"
      using Cons.prems by (auto split: prod.splits)
    then show ?thesis using Cons.IH [OF r(2)] Dispatch_correlation [OF r(1)] by (auto simp: nth_Cons split: nat.split)
  next
    case False
    then have "rs = []" using Cons.prems by (auto split: prod.splits option.splits sum.splits)
    then show ?thesis by simp
  qed
qed simp

lemma handleConnection_frame:
  "length p < 2 ^ 32 \<Longrightarrow> handleConnection env now ws b (request_frame p @ input) =
     (case Dispatch env now b p of
        (b', Some (Inr response)) \<Rightarrow>
          (case WriteFrame ws response of
             (Some err, out, ws') \<Rightarrow> (b', out)
           | (None, out, ws') \<Rightarrow> (case handleConnection env now ws' b' input of (b'', out') \<Rightarrow> (b'', out @ out')))
      | (b', _) \<Rightarrow> (b', []))"
  by (simp add: handleConnection.simps [of env now ws b "request_frame p @ input"] ReadFrame_request)

lemma handleConnection_serve:
  assumes "\<forall>p \<in> set ps. length p < 2 ^ 32" "ReadFrame rest = Inl e" "serve env now b ps = (b', rs)"
    and "handleConnection env now ws b (concat (map request_frame ps) @ rest) = (c, out)"
  shows "prefix out (concat (map request_frame rs)) \<and> (\<exists>n. c = fst (serve env now b (take n ps)))
    \<and> (ws = [] \<longrightarrow> c = b' \<and> out = concat (map request_frame rs))"
  using assms
proof (induction ps arbitrary: ws b b' rs c out)
  case Nil
  then show ?case by (auto simp: handleConnection.simps)
next
  case (Cons p ps)
  note one = handleConnection_frame [of p env now ws b "concat (map request_frame ps) @ rest"]
  show ?case
  proof (cases "\<exists>b1 r. Dispatch env now b p = (b1, Some (Inr r))")
    case True
    then obtain b1 r rs' where r: "Dispatch env now b p = (b1, Some (Inr r))" "serve env now b1 ps = (b', rs')" "rs = r # rs'"
      using Cons.prems(3) by (auto split: prod.splits)
    have n: "fst (serve env now b (take (Suc n) (p # ps))) = fst (serve env now b1 (take n ps))" for n
      by (simp add: r(1) split: prod.split)
    obtain err out1 ws1 where w: "WriteFrame ws r = (err, out1, ws1)" by (rule prod_cases3)
    obtain c2 out2 where h: "handleConnection env now ws1 b1 (concat (map request_frame ps) @ rest) = (c2, out2)" by fastforce
    note IH = Cons.IH [OF _ Cons.prems(2) r(2) h]
    show ?thesis
    proof (cases err)
      case None
      then have "c = c2" "out = request_frame r @ out2" using Cons.prems(1,4) one r(1) w h WriteFrame_prefix [OF w] by auto
      moreover have "ws1 = []" if "ws = []" using w that by (simp add: WriteFrame_ok)
      ultimately show ?thesis using IH Cons.prems(1) r(3) n by (auto intro: exI [of _ "Suc _"])
    next
      case (Some x)
      then have "c = b1" "out = out1" using Cons.prems(1,4) one r(1) w by auto
      moreover have "ws \<noteq> []" using w Some by (auto simp: WriteFrame_ok)
      ultimately show ?thesis using WriteFrame_prefix [OF w] r(3) n [of 0] by (auto intro: prefix_prefix exI [of _ "Suc 0"])
    qed
  next
    case False
    then have "c = b'" "out = []" "rs = []" "fst (serve env now b (p # ps)) = b'"
      using Cons.prems one by (auto split: prod.splits option.splits sum.splits)
    then show ?thesis by (auto intro: exI [of _ "length (p # ps)"])
  qed
qed

text \<open>
  C21. A connection is served in order. Whatever requests a client pipelines, ended by the end of
  the input or by a frame that is cut short, the broker handles them one after the other until
  one fails, each on the state that the one before left; the responses leave in the order of
  the requests, whole, each with the correlation id of its request. If the connection breaks
  while responses are written, what was written is a prefix of that, and the requests handled
  are a prefix of the requests.
\<close>

theorem connection_in_order:
  assumes "\<forall>p \<in> set ps. length p < 2 ^ 32" "ReadFrame rest = Inl e" "serve env now b ps = (b', rs)"
  shows "handleConnection env now [] b (concat (map request_frame ps) @ rest) = (b', concat (map request_frame rs))
    \<and> length rs \<le> length ps
    \<and> (\<forall>i < length rs. \<exists>h body resp. ReadRequestHeader (ps ! i) = Inr (h, body)
        \<and> rs ! i = WriteResponseHeader (CorrelationID h) @ resp)
    \<and> (case handleConnection env now ws b (concat (map request_frame ps) @ rest) of (c, out) \<Rightarrow>
        prefix out (concat (map request_frame rs)) \<and> (\<exists>n. c = fst (serve env now b (take n ps))))"
proof -
  obtain c out where h: "handleConnection env now [] b (concat (map request_frame ps) @ rest) = (c, out)" by fastforce
  obtain c' out' where h': "handleConnection env now ws b (concat (map request_frame ps) @ rest) = (c', out')" by fastforce
  show ?thesis
    using handleConnection_serve [OF assms h] handleConnection_serve [OF assms h'] h h' serve_responses [OF assms(3)] by auto
qed

text \<open>Two requests, one with an unknown key, and the start of a third.\<close>

theorem connection_in_order_witness:
  "handleConnection id 0 [] (new_broker 3 9092 three_brokers (NewManager ''data'') (fresh_log []))
      (request_frame [3, 233, 0, 0, 0, 0, 0, 7, 255, 255] @ request_frame [0, 99, 0, 0, 0, 0, 0, 8, 255, 255] @ [0, 0])
    = (new_broker 3 9092 three_brokers (NewManager ''data'') (fresh_log []),
       request_frame [0, 0, 0, 7] @ request_frame [0, 0, 0, 8, 255, 255])"
proof -
  let ?b = "new_broker 3 9092 three_brokers (NewManager ''data'') (fresh_log [])"
  let ?ps = "[[3, 233, 0, 0, 0, 0, 0, 7, 255, 255], [0, 99, 0, 0, 0, 0, 0, 8, 255, 255]]"
  have h: "ReadRequestHeader [3, 233, 0, 0, 0, 0, 0, 7, 255, 255]
      = Inr (\<lparr>APIKey = 1001, APIVersion = 0, CorrelationID = 7, ClientID = None\<rparr>, [])"
    "ReadRequestHeader [0, 99, 0, 0, 0, 0, 0, 8, 255, 255]
      = Inr (\<lparr>APIKey = 99, APIVersion = 0, CorrelationID = 8, ClientID = None\<rparr>, [])"
    "WriteResponseHeader 7 = [0, 0, 0, 7]" "WriteResponseHeader 8 = [0, 0, 0, 8]" "WriteInt16 (-1) = [255, 255]"
    by code_simp+
  have d: "Dispatch id 0 ?b [3, 233, 0, 0, 0, 0, 0, 7, 255, 255] = (?b, Some (Inr [0, 0, 0, 7]))"
    "Dispatch id 0 ?b [0, 99, 0, 0, 0, 0, 0, 8, 255, 255] = (?b, Some (Inr [0, 0, 0, 8, 255, 255]))"
    by (simp_all add: Dispatch_def h dispatchTable_def at_once_def handlePing_def DropPings_def new_broker_def NewConfig_def
        internalApplyTopicKey_def InternalPingKey_def InternalFetchMetadataLogKey_def)
  have "ReadFrame [0, 0] = Inl ErrUnexpectedEOF" by code_simp
  then show ?thesis using connection_in_order [of ?ps "[0, 0]" _ id 0 ?b] by (simp add: d)
qed

end
