(* ===== verification/HttpApi.thy ===== *)
theory HttpApi
  imports Broker_Correct
begin

text \<open>
  The HTTP interface (\<open>internal/httpapi/httpapi.go\<close>): one function per route, from the decoded
  body of the request to the status and the value that is encoded as the response. A body that
  the JSON decoder refuses is \<open>None\<close>. A handler that panics gives no response: the server
  recovers, closes the connection and goes on with the others.
\<close>

section \<open>Responses\<close>

datatype http_error = DecodeError | OpError op_error | BatchError go_error | NoFaults | NoShutdown

record http_record =
  hrOffset :: int64
  hrKey :: "string option"
  hrValue :: string
  hrTimestamp :: int64

datatype http_body =
    NoBody
  | BodyBroker BrokerInfo
  | BodyTopics "TopicInfo list"
  | BodyName string
  | BodyBaseOffset int64
  | BodyRecords int64 "http_record list"
  | BodyGroups "GroupInfo list"
  | BodyProducers "ProducerInfo list"
  | BodyReset string string int32 int64
  | BodyCluster ClusterInfo
  | BodyFaults FaultSnapshot
  | BodyStatus string
  | BodyError http_error

type_synonym http_response = "nat \<times> http_body"

definition op_failed :: "op_error \<Rightarrow> http_response" where
  "op_failed err = (statusFor err, BodyError (OpError err))"

section \<open>Topics\<close>

record topic_request =
  tqName :: string
  tqPartitions :: int32
  tqReplicationFactor :: int16

definition post_topics :: "int \<Rightarrow> topic_request option \<Rightarrow> BrokerNode \<Rightarrow> BrokerNode \<times> http_response" where
  "post_topics now req b =
     (case req of
        None \<Rightarrow> (b, 400, BodyError DecodeError)
      | Some q \<Rightarrow>
          (let rf = (if tqReplicationFactor q = 0 then 1 else tqReplicationFactor q)
           in case CreateTopic now (tqName q) (tqPartitions q) rf b of
               (b', Some err) \<Rightarrow> (b', op_failed err)
             | (b', None) \<Rightarrow> (b', 201, BodyName (tqName q))))"

definition delete_topics :: "int \<Rightarrow> string \<Rightarrow> BrokerNode \<Rightarrow> BrokerNode \<times> http_response" where
  "delete_topics now name b =
     (case DeleteTopic now name b of
        (b', Some err) \<Rightarrow> (b', op_failed err)
      | (b', None) \<Rightarrow> (b', 204, NoBody))"

section \<open>Records\<close>

record produce_request =
  pqTopic :: string
  pqPartition :: int32
  pqKey :: string
  pqValue :: string

definition produce_record :: "produce_request \<Rightarrow> BatchRecord" where
  "produce_record q =
     \<lparr>Key = (if pqKey q \<noteq> [] then Some (string_bytes (pqKey q)) else None), Value = string_bytes (pqValue q)\<rparr>"

definition post_produce :: "produce_request option \<Rightarrow> BrokerNode \<Rightarrow> BrokerNode \<times> http_response" where
  "post_produce req b =
     (case req of
        None \<Rightarrow> (b, 400, BodyError DecodeError)
      | Some q \<Rightarrow>
          (case Broker_Produce (pqTopic q) (pqPartition q) (BuildRecordBatch [produce_record q]) b of
             (b', Inl err) \<Rightarrow> (b', op_failed err)
           | (b', Inr off) \<Rightarrow> (b', 200, BodyBaseOffset off)))"

record fetch_request =
  fqTopic :: string
  fqPartition :: int32
  fqOffset :: int64
  fqMaxBytes :: int32

definition http_entry :: "DecodedRecord \<Rightarrow> http_record" where
  "http_entry d =
     \<lparr>hrOffset = recOffset d, hrKey = map_option bytes_string (recKey d),
      hrValue = bytes_string (bytes_of (recValue d)), hrTimestamp = Timestamp d\<rparr>"

definition post_fetch :: "int \<Rightarrow> fetch_request option \<Rightarrow> BrokerNode \<Rightarrow> BrokerNode \<times> http_response option" where
  "post_fetch now req b =
     (case req of
        None \<Rightarrow> (b, Some (400, BodyError DecodeError))
      | Some q \<Rightarrow>
          (let maxBytes = (if sint (fqMaxBytes q) \<le> 0 then 2 ^ 20 else fqMaxBytes q)
           in case Broker_Fetch now (fqTopic q) (fqPartition q) (fqOffset q) maxBytes b of
               (b', rs, hw, Some err) \<Rightarrow> (b', Some (op_failed err))
             | (b', rs, hw, None) \<Rightarrow>
                 (case DecodeRecordBatches (concat (map Payload rs)) of
                    Inl Panic \<Rightarrow> (b', None)
                  | Inl err \<Rightarrow> (b', Some (500, BodyError (BatchError err)))
                  | Inr ds \<Rightarrow> (b', Some (200, BodyRecords hw (map http_entry ds))))))"

section \<open>Groups\<close>

record reset_request =
  rqTopic :: string
  rqPartition :: int32
  rqOffset :: int64

text \<open>A panic of the offset store's map or of the assignment decoder leaves no response.\<close>

definition post_reset :: "int64 \<Rightarrow> string \<Rightarrow> reset_request option \<Rightarrow> BrokerNode \<Rightarrow> BrokerNode \<times> http_response option" where
  "post_reset now g req b =
     (case req of
        None \<Rightarrow> (b, Some (400, BodyError DecodeError))
      | Some q \<Rightarrow>
          (case ResetGroupOffset now g (rqTopic q) (rqPartition q) (rqOffset q) b of
             (b', Some (OpIO Panic)) \<Rightarrow> (b', None)
           | (b', Some err) \<Rightarrow> (b', Some (op_failed err))
           | (b', None) \<Rightarrow> (b', Some (200, BodyReset g (rqTopic q) (rqPartition q) (rqOffset q)))))"

definition get_groups :: "int \<Rightarrow> BrokerNode \<Rightarrow> BrokerNode \<times> http_response option" where
  "get_groups now b =
     (case GroupInfos now b of
        (b', Inl _) \<Rightarrow> (b', None)
      | (b', Inr gs) \<Rightarrow> (b', Some (200, BodyGroups gs)))"

section \<open>Faults\<close>

text \<open>The replication manager has the same configuration object as the broker (\<open>UseFaults\<close>).\<close>

definition set_faults :: "Config \<Rightarrow> BrokerNode \<Rightarrow> BrokerNode" where
  "set_faults c b = b\<lparr>bFaults := Some c, bReplication := map_option (\<lambda>m. m\<lparr>rmFaults := Some c\<rparr>) (bReplication b)\<rparr>"

record faults_request =
  sqDelayMS :: "int64 option"
  sqDropPings :: "bool option"
  sqPaused :: "bool option"

definition post_faults :: "faults_request option \<Rightarrow> BrokerNode \<Rightarrow> BrokerNode \<times> http_response" where
  "post_faults req b =
     (case bFaults b of
        None \<Rightarrow> (b, 503, BodyError NoFaults)
      | Some c \<Rightarrow>
          (case req of
             None \<Rightarrow> (b, 400, BodyError DecodeError)
           | Some q \<Rightarrow>
               (let c = (case sqDelayMS q of None \<Rightarrow> c | Some ms \<Rightarrow> SetSlowFollowerDelay (sint (ms * 1000000)) c);
                    c = (case sqDropPings q of None \<Rightarrow> c | Some v \<Rightarrow> SetDropPings v c);
                    c = (case sqPaused q of None \<Rightarrow> c | Some v \<Rightarrow> SetPaused v c)
                in (set_faults c b, 200, BodyFaults (Config_Snapshot (Some c))))))"

definition post_paused :: "bool \<Rightarrow> BrokerNode \<Rightarrow> BrokerNode \<times> http_response" where
  "post_paused v b =
     (case bFaults b of
        None \<Rightarrow> (b, 503, BodyError NoFaults)
      | Some c \<Rightarrow> (set_faults (SetPaused v c) b, 200, BodyFaults (Config_Snapshot (Some (SetPaused v c)))))"

text \<open>\<open>wired\<close> says whether the broker has a \<open>Shutdown\<close> function; it runs after the response.\<close>

definition post_shutdown :: "bool \<Rightarrow> http_response" where
  "post_shutdown wired = (if wired then (200, BodyStatus ''shutting down'') else (503, BodyError NoShutdown))"

section \<open>The routes\<close>

datatype http_request =
    Options
  | GetBroker
  | GetTopics
  | PostTopics "topic_request option"
  | DeleteTopics string
  | PostProduce "produce_request option"
  | PostFetch "fetch_request option"
  | GetGroups
  | GetProducers
  | PostReset string "reset_request option"
  | GetCluster
  | GetFaults
  | PostFaults "faults_request option"
  | PostPause
  | PostResume
  | PostShutdown

text \<open>
  Every response has the headers that \<open>withCORS\<close> adds, and one with a body that of
  \<open>writeJSON\<close>; \<open>withCORS\<close> answers \<open>OPTIONS\<close> itself.
\<close>

definition response_headers :: "http_response \<Rightarrow> (string \<times> string) list" where
  "response_headers r =
     [(''Access-Control-Allow-Origin'', ''*''), (''Access-Control-Allow-Methods'', ''GET, POST, DELETE, OPTIONS''),
      (''Access-Control-Allow-Headers'', ''Content-Type'')]
     @ (if snd r = NoBody then [] else [(''Content-Type'', ''application/json'')])"

definition answer :: "BrokerNode \<times> http_response \<Rightarrow> BrokerNode \<times> http_response option" where
  "answer r = (fst r, Some (snd r))"

definition http_serve :: "bool \<Rightarrow> int \<Rightarrow> http_request \<Rightarrow> BrokerNode \<Rightarrow> BrokerNode \<times> http_response option" where
  "http_serve wired now req b =
     (case req of
        Options \<Rightarrow> (b, Some (204, NoBody))
      | GetBroker \<Rightarrow> (b, Some (200, BodyBroker (Broker_Info b)))
      | GetTopics \<Rightarrow> (case TopicInfos now b of (b', ts) \<Rightarrow> (b', Some (200, BodyTopics ts)))
      | PostTopics q \<Rightarrow> answer (post_topics now q b)
      | DeleteTopics name \<Rightarrow> answer (delete_topics now name b)
      | PostProduce q \<Rightarrow> answer (post_produce q b)
      | PostFetch q \<Rightarrow> post_fetch now q b
      | GetGroups \<Rightarrow> get_groups now b
      | GetProducers \<Rightarrow> (b, Some (200, BodyProducers (ProducerInfos b)))
      | PostReset g q \<Rightarrow> post_reset (word_of_int now) g q b
      | GetCluster \<Rightarrow> (b, Some (200, BodyCluster (Cluster_Info b)))
      | GetFaults \<Rightarrow> (b, Some (200, BodyFaults (Config_Snapshot (bFaults b))))
      | PostFaults q \<Rightarrow> answer (post_faults q b)
      | PostPause \<Rightarrow> answer (post_paused True b)
      | PostResume \<Rightarrow> answer (post_paused False b)
      | PostShutdown \<Rightarrow> (b, Some (post_shutdown wired)))"

text \<open>
  Any other path (\<open>static.go\<close>): the file server gets the path itself if the embedded
  directory has such a file, and the root otherwise, which is \<open>index.html\<close>. The directory and
  the file server are arguments.
\<close>

definition TrimPrefix :: "string \<Rightarrow> string \<Rightarrow> string" where
  "TrimPrefix s pre = (if prefix pre s then drop (length pre) s else s)"

definition staticHandler :: "(string \<Rightarrow> bool) \<Rightarrow> (string \<Rightarrow> 'r) \<Rightarrow> string \<Rightarrow> 'r" where
  "staticHandler exists fileServer path =
     (let clean = TrimPrefix path ''/'';
          clean = (if clean = [] then ''index.html'' else clean)
      in fileServer (if exists clean then path else ''/''))"

text \<open>A path of the web interface that is no file is answered like the root.\<close>

lemma staticHandler_falls_back:
  assumes "\<not> exists (TrimPrefix path ''/'')" "path \<notin> {[], ''/''}"
  shows "staticHandler exists fileServer path = staticHandler exists fileServer ''/''"
  using assms by (auto simp: staticHandler_def TrimPrefix_def prefix_def)

section \<open>A record through the interface\<close>

lemma length_WriteVarint: "length (WriteVarint v) \<le> 5"
proof -
  let ?u = "push_bit 1 v XOR signed_drop_bit 31 v :: int32"
  have "unat ?u < 2 ^ LENGTH(32)" by (rule unsigned_less)
  then have "unat ?u < 2 ^ (7 * 5)" by simp
  then show ?thesis using length_WriteUnsignedVarint [of ?u 5] by (simp add: WriteVarint_def)
qed

lemma length_encodeRecord:
  "length (encodeRecord r d) \<le> 31 + length (bytes_of (Key r)) + length (Value r)"
proof -
  have "\<exists>a x b c e f g. encodeRecord r d = WriteVarint a @ WriteInt8 x @ WriteVarint b @ WriteVarint c @ WriteVarint e
      @ bytes_of (Key r) @ WriteVarint f @ Value r @ WriteVarint g"
    unfolding encodeRecord_def Let_def by (cases "Key r"; simp add: bytes_of_def; intro exI; rule refl)
  then obtain a x b c e f g where "encodeRecord r d = WriteVarint a @ WriteInt8 x @ WriteVarint b @ WriteVarint c
      @ WriteVarint e @ bytes_of (Key r) @ WriteVarint f @ Value r @ WriteVarint g" by blast
  then show ?thesis
    using length_WriteVarint [of a] length_WriteVarint [of b] length_WriteVarint [of c] length_WriteVarint [of e]
      length_WriteVarint [of f] length_WriteVarint [of g] by (simp add: WriteInt8_def)
qed

lemma produce_record_ok:
  assumes "length (pqKey q) + length (pqValue q) < 2 ^ 30"
  shows "batch_ok [produce_record q]"
proof -
  have "length (bytes_of (Key (produce_record q))) + length (Value (produce_record q)) < 2 ^ 30"
    using assms by (auto simp: produce_record_def bytes_of_def string_bytes_def)
  then have "9 + length (batch_tail [produce_record q]) < 2 ^ 32"
    using length_encodeRecord [of "produce_record q" 0] by (simp add: length_batch_tail)
  then show ?thesis
    using assms by (auto simp: batch_ok_def record_ok_def produce_record_def string_bytes_def split: if_splits)
qed

lemma Broker_Produce_appends:
  assumes "holds_log b name idx l" "log_inv l" "log_healthy l" "disk l = []" "sint (EndOffset l) < 2 ^ 63 - 1"
    and "partition_at (bTopics b) name idx = Some p" "Leader p = NodeID b"
    and "validRecordBatch batch" "length batch < 2 ^ 32"
  shows "\<exists>b' l'. Broker_Produce name idx batch b = (b', Inr (EndOffset l)) \<and> map_of (logs (bLogs b')) (logKey name idx) = Some l'
    \<and> bTopics b' = bTopics b \<and> log_inv l' \<and> log_healthy l' \<and> StartOffset l' = StartOffset l
    \<and> log_entries l' = log_entries l @ [\<lparr>Offset = EndOffset l, Payload = stampOffset (EndOffset l) batch\<rparr>]"
proof -
  obtain st where st: "Manager_Log (bLogs b) name idx = (st, Inr l)"
    using assms(1) by (metis holds_log_def prod.collapse)
  obtain l' off where l': "append_stamped batch l = (l', Inr off)" "log_healthy l'"
    using AppendWithOffset_complete [of l batch stampOffset] assms(2-4) by (auto simp: append_stamped_def log_healthy_def)
  have "61 \<le> length batch" using assms(8) by (auto simp: validRecordBatch_def split: if_splits)
  from append_stamped_effect [OF assms(2) this assms(9,5) l'(1)]
  show ?thesis using st l' assms(6-8) by (simp add: Broker_Produce_def put_log_def)
qed

lemma Broker_Fetch_last:
  assumes "map_of (logs (bLogs b)) (logKey name idx) = Some l" "log_inv l" "log_healthy l" "log_entries l = rs @ [r]"
    and "sint off = sint (StartOffset l) + int (length rs)" "partition_at (bTopics b) name idx = Some p"
  shows "\<exists>b' hw. Broker_Fetch now name idx off mb b = (b', [r], hw, None)"
proof -
  have fin: "sint (EndOffset l) = sint off + 1" using seglog.fin_recs [OF assms(2)] assms(4,5) by simp
  have lo: "0 \<le> sint off" using seglog.first_nonneg [OF assms(2)] assms(5) by simp
  obtain out where "Read l off (sint mb) = Inr out" "prefix out [r]" "out \<noteq> []"
    using seglog.read_ok [OF assms(2,3), of off "sint mb"] assms(4,5) fin by auto
  then have "Read l off (sint mb) = Inr [r]" by (cases out) auto
  moreover have "off \<noteq> EndOffset l" using fin by auto
  moreover obtain b' hw where "high_watermark now name idx (EndOffset l) (b\<lparr>bLogs := bLogs b\<rparr>) = (b', hw)" by fastforce
  ultimately show ?thesis
    using assms(6) fin lo by (simp add: Broker_Fetch_def Manager_Log_hit [OF assms(1)] Let_def)
qed

text \<open>
  C22. A record that is posted to the partition's leader comes back: on a working disk the request
  succeeds with the end of the log as the base offset, and a fetch from that offset, whatever
  the byte limit, returns exactly the record, with its key (an empty one counts as none), its
  value and that offset.
\<close>

theorem http_produce_fetch:
  assumes "holds_log b (pqTopic q) (pqPartition q) l" "log_inv l" "log_healthy l" "disk l = []" "sint (EndOffset l) < 2 ^ 63 - 1"
    and "partition_at (bTopics b) (pqTopic q) (pqPartition q) = Some p" "Leader p = NodeID b"
    and "length (pqKey q) + length (pqValue q) < 2 ^ 30"
  shows "\<exists>b1 b2 hw. http_serve wired now (PostProduce (Some q)) b = (b1, Some (200, BodyBaseOffset (EndOffset l)))
    \<and> http_serve wired now' (PostFetch (Some \<lparr>fqTopic = pqTopic q, fqPartition = pqPartition q,
        fqOffset = EndOffset l, fqMaxBytes = mb\<rparr>)) b1
      = (b2, Some (200, BodyRecords hw [\<lparr>hrOffset = EndOffset l, hrKey = (if pqKey q = [] then None else Some (pqKey q)),
          hrValue = pqValue q, hrTimestamp = baseTimestamp\<rparr>]))"
proof -
  let ?batch = "BuildRecordBatch [produce_record q]"
  note ok = produce_record_ok [OF assms(8)]
  have "length ?batch < 2 ^ 32"
    using length_encodeRecord [of "produce_record q" 0] assms(8)
    by (auto simp: length_BuildRecordBatch length_batch_tail produce_record_def bytes_of_def)
  from Broker_Produce_appends [OF assms(1-7) valid_BuildRecordBatch this]
  obtain b1 l1 where b1: "Broker_Produce (pqTopic q) (pqPartition q) ?batch b = (b1, Inr (EndOffset l))"
    "map_of (logs (bLogs b1)) (logKey (pqTopic q) (pqPartition q)) = Some l1" "bTopics b1 = bTopics b"
    "log_inv l1" "log_healthy l1" "StartOffset l1 = StartOffset l"
    "log_entries l1 = log_entries l @ [\<lparr>Offset = EndOffset l, Payload = stampOffset (EndOffset l) ?batch\<rparr>]" by blast
  have off: "sint (EndOffset l) = sint (StartOffset l1) + int (length (log_entries l))"
    using seglog.fin_recs [OF assms(2)] b1(6) by simp
  have "partition_at (bTopics b1) (pqTopic q) (pqPartition q) = Some p" using assms(6) b1(3) by simp
  from Broker_Fetch_last [OF b1(2,4,5,7) off this]
  obtain b2 hw where b2: "Broker_Fetch now' (pqTopic q) (pqPartition q) (EndOffset l) (if sint mb \<le> 0 then 2 ^ 20 else mb) b1
      = (b2, [\<lparr>Offset = EndOffset l, Payload = stampOffset (EndOffset l) ?batch\<rparr>], hw, None)" by blast
  have "DecodeRecordBatches (stampOffset (EndOffset l) ?batch @ []) = Inr [decoded (EndOffset l) (0, produce_record q)]"
    using ok by (subst Decode_step) (simp_all add: batch_ok_def DecodeRecordBatches.simps)
  then show ?thesis
    using b1(1) b2 by (auto simp: http_serve_def answer_def post_produce_def post_fetch_def Let_def decoded_def http_entry_def
        produce_record_def bytes_of_def)
qed

theorem http_produce_fetch_witness:
  "\<exists>b1 b2 hw. http_serve True 0 (PostProduce (Some \<lparr>pqTopic = ''t'', pqPartition = 0, pqKey = ''k'', pqValue = ''v''\<rparr>)) demo_leader
      = (b1, Some (200, BodyBaseOffset 1))
    \<and> http_serve True 1 (PostFetch (Some \<lparr>fqTopic = ''t'', fqPartition = 0, fqOffset = 1, fqMaxBytes = 0\<rparr>)) b1
      = (b2, Some (200, BodyRecords hw [\<lparr>hrOffset = 1, hrKey = Some ''k'', hrValue = ''v'', hrTimestamp = baseTimestamp\<rparr>]))"
proof -
  let ?q = "\<lparr>pqTopic = ''t'', pqPartition = 0, pqKey = ''k'', pqValue = ''v''\<rparr>"
  obtain p where p: "partition_at (bTopics demo_leader) ''t'' 0 = Some p" "Leader p = NodeID demo_leader"
    using demo_leader_props(5) by blast
  show ?thesis
    using http_produce_fetch [of demo_leader ?q demo_log p True 0 1 0] p demo_leader_props demo_log_props(1,2) by simp
qed

end
