(* ===== verification/Broker_Run.thy ===== *)
theory Broker_Run
  imports Broker_Connection Broker_Roles HttpApi Group_Properties
begin

text \<open>
  The whole process (\<open>cmd/broker/main.go\<close>): how a broker starts from its flags and its disk,
  the rounds that its background loops run, and everything that may happen to its state, in
  any order. An invariant of the parts of a broker, given by what their own operations keep, is
  an invariant of the whole: a request of any bytes keeps it, and so does every other step.
\<close>

section \<open>The start of the process\<close>

record flags =
  flagID :: int
  flagPort :: int
  flagPeers :: string
  flagPingInterval :: int
  flagData :: string

text \<open>
  \<open>files\<close> is the file system, \<open>dsk\<close> and \<open>dsk'\<close> the faults of the disk under the metadata log
  and under the other logs. \<open>log.Fatal\<close> ends the process with an error.
\<close>

definition broker_main ::
    "int \<Rightarrow> flags \<Rightarrow> (bool \<times> string list, dir) gomap \<Rightarrow> append_io list \<Rightarrow> append_io list
     \<Rightarrow> (go_error + LivenessMonitor \<times> BrokerNode) option" where
  "broker_main now fl files dsk dsk' =
     (let nodeID = word_of_int (flagID fl);
          brokerPort = word_of_int (flagPort fl);
          st = (NewManager (flagData fl))\<lparr>fs := files, io := dsk'\<rparr>
      in case ParseMembership (flagPeers fl) nodeID ''localhost'' brokerPort of
          Inl err \<Rightarrow> Some (Inl err)
        | Inr ms \<Rightarrow>
            (case OpenMetadataLog dsk (dir_of st ''__cluster_metadata-0'') of
               Inl err \<Rightarrow> Some (Inl err)
             | Inr ml \<Rightarrow>
                 (let monitor = NewLivenessMonitor ms nodeID (flagPingInterval fl) 3
                  in map_option (map_sum id (Pair monitor))
                      (start_broker now nodeID brokerPort ms st ml (Alive monitor) (ControllerID monitor)))))"

section \<open>The background loops\<close>

text \<open>
  The broker asks the monitor who is alive and who is the controller; the monitor calls the
  broker back when it finds a peer down. \<open>OnPeerUp\<close> only logs.
\<close>

definition sees :: "LivenessMonitor \<Rightarrow> BrokerNode \<Rightarrow> BrokerNode" where
  "sees lm b = b\<lparr>bIsPeerAlive := Some (Alive lm), bControllerID := Some (ControllerID lm)\<rparr>"

fun on_liveness :: "int \<Rightarrow> liveness_event \<Rightarrow> BrokerNode \<Rightarrow> BrokerNode" where
  "on_liveness now (Down i) b = OnPeerDown now i b"
| "on_liveness now (Up i) b = b"

definition monitor_peer ::
    "transport \<Rightarrow> int \<Rightarrow> Broker \<Rightarrow> LivenessMonitor \<times> BrokerNode \<Rightarrow> LivenessMonitor \<times> BrokerNode" where
  "monitor_peer net now peer s =
     (case check_peer (\<lambda>p. ping net p = None) peer (fst s) of
        (lm, evs) \<Rightarrow> (lm, fold (on_liveness now) evs (sees lm (snd s))))"

definition monitor_round :: "transport \<Rightarrow> int \<Rightarrow> LivenessMonitor \<times> BrokerNode \<Rightarrow> LivenessMonitor \<times> BrokerNode" where
  "monitor_round net now s = fold (monitor_peer net now) (Membership_All (lmMembership (fst s))) s"

text \<open>A fetch loop works on the log that the storage manager has for its partition.\<close>

definition fetch_round :: "transport \<Rightarrow> fetcher \<Rightarrow> BrokerNode \<Rightarrow> BrokerNode" where
  "fetch_round net f b =
     (case map_of (logs (bLogs b)) (logKey (fTopic f) (fPartition f)) of
        None \<Rightarrow> b
      | Some l \<Rightarrow>
          b\<lparr>bLogs := put_log (bLogs b) (fTopic f) (fPartition f)
              (fetchOnce net (Option.bind (bReplication b) rmFaults) f l)\<rparr>)"

section \<open>Runs\<close>

text \<open>
  What may happen to a broker: a request on some connection, during which, if it parks, other
  things happen; a request to the HTTP interface; timers and callbacks of the coordinator; a
  round of a fetch loop, even of one that has just been cancelled; a round of the metadata
  follower; and a peer that is found up or down.
\<close>

inductive broker_run :: "BrokerNode \<Rightarrow> BrokerNode \<Rightarrow> bool" where
  started: "broker_run b b"
| request: "broker_run b c \<Longrightarrow> (\<And>x. broker_run x (env x)) \<Longrightarrow> broker_run b (fst (Dispatch env now c payload))"
| http: "broker_run b c \<Longrightarrow> broker_run b (fst (http_serve wired now req c))"
| group: "broker_run b c \<Longrightarrow> coord_step (bGroups c) ev g \<Longrightarrow> broker_run b (c\<lparr>bGroups := g\<rparr>)"
| fetched: "broker_run b c \<Longrightarrow> broker_run b (fetch_round net f c)"
| metadata: "broker_run b c \<Longrightarrow> broker_run b (follow_metadata net now c)"
| liveness: "broker_run b c \<Longrightarrow> broker_run b (fold (on_liveness now) evs (sees lm c))"

text \<open>The connection loop and a round of the monitor are such steps.\<close>

lemma connection_run:
  assumes "broker_run b c" "\<And>x. broker_run x (env x)"
  shows "broker_run b (fst (handleConnection env now ws c input))"
  using assms
proof (induction env now ws c input rule: handleConnection.induct)
  case (1 env now ws c input)
  note d = broker_run.request [OF "1.prems", of now]
  show ?case
  proof (cases "\<exists>p rest c' r out ws'. ReadFrame input = Inr (p, rest) \<and> Dispatch env now c p = (c', Some (Inr r))
      \<and> WriteFrame ws r = (None, out, ws')")
    case True
    then obtain p rest c' r out ws' where f: "ReadFrame input = Inr (p, rest)" "Dispatch env now c p = (c', Some (Inr r))"
      "WriteFrame ws r = (None, out, ws')" by blast
    have "broker_run b (fst (handleConnection env now ws' c' rest))"
      using "1.IH" [OF f(1) refl f(2) [symmetric] refl refl f(3) [symmetric] refl refl] d [of p] "1.prems"(2) f(2) by simp
    then show ?thesis using f by (auto simp: handleConnection.simps [of env now ws c input] split: prod.split)
  next
    case False
    then have "fst (handleConnection env now ws c input) = c
        \<or> (\<exists>p. fst (handleConnection env now ws c input) = fst (Dispatch env now c p))"
      by (auto simp: handleConnection.simps [of env now ws c input] split: sum.split prod.split option.split)
        (metis fst_conv)+
    then show ?thesis using d "1.prems"(1) by auto
  qed
qed

lemma monitor_round_run:
  "broker_run b (snd s) \<Longrightarrow> broker_run b (snd (monitor_round net now s))"
proof -
  have "broker_run b (snd s) \<Longrightarrow> broker_run b (snd (fold (monitor_peer net now) ps s))" for ps s
    by (induction ps arbitrary: s) (simp_all add: monitor_peer_def broker_run.liveness split: prod.split)
  then show "broker_run b (snd s) \<Longrightarrow> broker_run b (snd (monitor_round net now s))"
    by (simp add: monitor_round_def)
qed

section \<open>Handlers that decode while they act\<close>

definition reader_keeps :: "('s \<Rightarrow> bool) \<Rightarrow> ('s, 'a) reader \<Rightarrow> bool" where
  "reader_keeps P r \<longleftrightarrow> (\<forall>s bs. P s \<longrightarrow> P (fst (r s bs)))"

named_theorems reader_rules

lemma reader_keeps_rread [reader_rules]: "reader_keeps P (rread d)"
  by (simp add: reader_keeps_def rread_def)

lemma reader_keeps_rreturn [reader_rules]: "reader_keeps P (rreturn x)"
  by (simp add: reader_keeps_def rreturn_def)

lemma reader_keeps_rdo [reader_rules]: "(\<And>s. P s \<Longrightarrow> P (fst (f s))) \<Longrightarrow> reader_keeps P (rdo f)"
  by (simp add: reader_keeps_def rdo_def split: prod.split) fastforce

lemma reader_keeps_rbind [reader_rules]:
  assumes "reader_keeps P r" "\<And>x. reader_keeps P (f x)"
  shows "reader_keeps P (rbind r f)"
  unfolding reader_keeps_def
proof (intro allI impI)
  fix s bs assume "P s"
  then have "P (fst (r s bs))" using assms(1) by (simp add: reader_keeps_def)
  then show "P (fst (rbind r f s bs))"
    using assms(2) by (simp add: rbind_def reader_keeps_def split: prod.split sum.split) fastforce
qed

lemma reader_keeps_rtimes: "reader_keeps P r \<Longrightarrow> reader_keeps P (rtimes n r)"
  by (induction n) (auto intro!: reader_rules)

lemma reader_keeps_rarray [reader_rules]: "reader_keeps P r \<Longrightarrow> reader_keeps P (rarray r)"
  by (auto simp: rarray_def intro!: reader_rules reader_keeps_rtimes)

lemma reader_keeps_rtopics [reader_rules]: "(\<And>name. reader_keeps P (r name)) \<Longrightarrow> reader_keeps P (rtopics r)"
  by (auto simp: rtopics_def intro!: reader_rules)

lemma run_reader_keeps: "reader_keeps P r \<Longrightarrow> P s \<Longrightarrow> P (fst (run_reader r s body))"
  by (auto simp: reader_keeps_def run_reader_def split: prod.split) (metis fst_conv)

lemma map_state_preserves:
  assumes "\<And>x s. P s \<Longrightarrow> P (fst (f x s))"
  shows "P s \<Longrightarrow> P (fst (map_state f xs s))"
  using assms by (induction xs arbitrary: s) (auto split: prod.split, metis fst_conv)

lemma map_stateE_preserves:
  assumes "\<And>x s. P s \<Longrightarrow> P (fst (f x s))"
  shows "P s \<Longrightarrow> P (fst (map_stateE f xs s))"
  using assms by (induction xs arbitrary: s) (auto split: prod.split sum.split, (metis fst_conv)+)

section \<open>Invariants of the parts\<close>

text \<open>
  What the parts of a broker promise: each keeps its own invariant under the operations by which
  the broker changes it. A log is changed through the pointer that the storage manager hands
  out, the state of a led partition through the replication manager.
\<close>

definition fetcher_for :: "ReplicationManager \<Rightarrow> tp \<Rightarrow> fetcher \<Rightarrow> bool" where
  "fetcher_for rm key f \<longleftrightarrow> fTopic f = tpTopic key \<and> fPartition f = tpPartition key \<and> fSelfID f = rmSelfID rm
     \<and> BrokerID (fLeader f) \<noteq> rmSelfID rm \<and> fLeader f \<in> set (Membership_All (rmMembership rm))"

locale broker_parts =
  fixes topics_ok :: "Registry \<Rightarrow> bool"
    and log_ok :: "Log \<Rightarrow> bool"
    and logs_ok :: "Manager \<Rightarrow> bool"
    and groups_ok :: "Coordinator \<Rightarrow> bool"
    and offsets_ok :: "(offset_key, int64) gomap option \<Rightarrow> bool"
    and producers_ok :: "ProducerManager \<Rightarrow> bool"
    and replication_ok :: "ReplicationManager \<Rightarrow> bool"
  assumes topics_upsert: "topics_ok reg \<Longrightarrow> topics_ok (Registry_Upsert reg t)"
    and topics_create: "topics_ok reg \<Longrightarrow> topics_ok (fst (Registry_Create reg t))"
    and topics_delete: "topics_ok reg \<Longrightarrow> topics_ok (fst (Registry_Delete reg name))"
    and log_append: "log_ok l \<Longrightarrow> log_ok (fst (AppendWithOffset l p stamp))"
    and logs_open: "logs_ok st \<Longrightarrow> logs_ok (fst (Manager_Log st name idx))"
    and logs_log: "logs_ok st \<Longrightarrow> map_of (logs st) path = Some l \<Longrightarrow> log_ok l"
    and logs_put: "logs_ok st \<Longrightarrow> log_ok l \<Longrightarrow> logs_ok (put_log st name idx l)"
    and groups_step: "groups_ok c \<Longrightarrow> coord_step c ev c' \<Longrightarrow> groups_ok c'"
    and offsets_put: "offsets_ok (Some m) \<Longrightarrow> offsets_ok (Some (mput k off m))"
    and producers_init: "producers_ok pm \<Longrightarrow> producers_ok (fst (InitProducerID pm))"
    and producers_commit: "producers_ok pm \<Longrightarrow> producers_ok (committedLocked pm pd tp pt s n off)"
    and replication_lead: "replication_ok rm \<Longrightarrow> replication_ok (lead_key now key rs (stopFollowingKey key rm))"
    and replication_stop: "replication_ok rm \<Longrightarrow> replication_ok (stopFollowingKey key rm)"
    and replication_follow: "replication_ok rm \<Longrightarrow> fetcher_for rm key f \<Longrightarrow>
      replication_ok (rm\<lparr>led := mdel key (led rm), fetchers := mput key f (fetchers rm)\<rparr>)"
    and replication_state: "replication_ok rm \<Longrightarrow> partitionState rm name idx = Some ps \<Longrightarrow>
      ps' \<in> {RecordFollowerFetch now now br off fin ps, fst (WaitForHighWatermark now off ps), removeWaiter w ps,
        fst (HighWatermark now off ps), fst (PartitionState_ISR now now ps)} \<Longrightarrow>
      replication_ok (put_state name idx ps' rm)"
    and replication_faults: "replication_ok rm \<Longrightarrow> replication_ok (rm\<lparr>rmFaults := flt\<rparr>)"
begin

definition ok :: "BrokerNode \<Rightarrow> bool" where
  "ok b \<longleftrightarrow> topics_ok (bTopics b) \<and> logs_ok (bLogs b) \<and> groups_ok (bGroups b)
     \<and> offsets_ok (bOffsets b) \<and> producers_ok (bProducers b)
     \<and> (\<forall>m. bReplication b = Some m \<longrightarrow> replication_ok m) \<and> (\<forall>l. bMetadataLog b = Some l \<longrightarrow> log_ok l)"

lemma ok_parts:
  assumes "ok b"
  shows "topics_ok (bTopics b)" "logs_ok (bLogs b)" "groups_ok (bGroups b)" "producers_ok (bProducers b)"
    "offsets_ok (bOffsets b)" "bReplication b = Some rm \<Longrightarrow> replication_ok rm"
    "bMetadataLog b = Some l \<Longrightarrow> log_ok l"
  using assms by (auto simp: ok_def)

lemma ok_update:
  assumes "ok b"
  shows "topics_ok reg \<Longrightarrow> ok (b\<lparr>bTopics := reg\<rparr>)" "logs_ok st \<Longrightarrow> ok (b\<lparr>bLogs := st\<rparr>)"
    "groups_ok c \<Longrightarrow> ok (b\<lparr>bGroups := c\<rparr>)" "producers_ok pm \<Longrightarrow> ok (b\<lparr>bProducers := pm\<rparr>)"
    "offsets_ok m \<Longrightarrow> ok (b\<lparr>bOffsets := m\<rparr>)" "replication_ok rm \<Longrightarrow> ok (b\<lparr>bReplication := Some rm\<rparr>)"
    "log_ok l \<Longrightarrow> ok (b\<lparr>bMetadataLog := Some l\<rparr>)"
  using assms by (auto simp: ok_def)

lemma ok_other:
  assumes "ok b"
  shows "ok (b\<lparr>bIsPeerAlive := f\<rparr>)" "ok (b\<lparr>bControllerID := i\<rparr>)" "ok (b\<lparr>bFaults := c\<rparr>)" "ok (b\<lparr>sent := q\<rparr>)"
  using assms by (auto simp: ok_def)

lemma Manager_Log_ok:
  assumes "logs_ok st" "Manager_Log st name idx = (st', res)"
  shows "logs_ok st'" "res = Inr l \<Longrightarrow> log_ok l"
proof -
  show st': "logs_ok st'" using logs_open [OF assms(1), of name idx] assms(2) by simp
  show "log_ok l" if "res = Inr l"
    using logs_log [OF st', of "logKey name idx" l] assms(2) that
    by (auto simp: Manager_Log_def Let_def split: option.splits sum.splits)
qed

lemma append_ok: "log_ok l \<Longrightarrow> log_ok (fst (Append l p))" "log_ok l \<Longrightarrow> log_ok (fst (append_stamped p l))"
  by (simp_all add: Append_def append_stamped_def log_append)

subsection \<open>Roles and topics\<close>

lemma replication_puts:
  assumes "replication_ok rm" "partitionState rm name idx = Some ps"
  shows "replication_ok (put_state name idx (RecordFollowerFetch now now br off fin ps) rm)"
    "replication_ok (put_state name idx (fst (WaitForHighWatermark now off ps)) rm)"
    "replication_ok (put_state name idx (removeWaiter w ps) rm)"
    "replication_ok (put_state name idx (fst (HighWatermark now off ps)) rm)"
    "replication_ok (put_state name idx (fst (PartitionState_ISR now now ps)) rm)"
  by (rule replication_state [OF assms, where now = now and br = br and off = off and fin = fin and w = w]; simp)+

lemma replication_ops:
  assumes "replication_ok rm"
  shows "replication_ok (Manager_RecordFollowerFetch now name idx br off fin rm)"
    "replication_ok (fst (Manager_WaitForHighWatermark now name idx off rm))"
    "replication_ok (fst (Manager_HighWatermark now name idx off rm))"
    "replication_ok (fst (Manager_ISR now name idx rm))"
  using assms replication_puts [OF assms, of name idx]
  by (simp_all add: Manager_RecordFollowerFetch_def Manager_WaitForHighWatermark_def Manager_HighWatermark_def
      Manager_ISR_def split_beta split: option.split)

lemma start_partition_ok:
  assumes "replication_ok (fst mm)" "logs_ok (snd mm)"
  shows "replication_ok (fst (start_partition now name p mm)) \<and> logs_ok (snd (start_partition now name p mm))"
proof (cases mm)
  case (Pair rm st)
  have "BrokerID br = i \<and> br \<in> set (Membership_All ms)" if "Membership_Get ms i = Some br" for ms i br
    using that by (auto simp: Membership_Get_def Membership_All_def find_Some_iff)
  then show ?thesis
    using Pair assms replication_lead replication_follow Manager_Log_ok(1) [of st name "ID p"]
    by (auto simp: start_partition_def fetcher_for_def Let_def split: option.split prod.split sum.split)
qed

lemma StartFollowing_ok:
  "replication_ok (fst mm) \<Longrightarrow> logs_ok (snd mm) \<Longrightarrow>
    replication_ok (fst (StartFollowing now t mm)) \<and> logs_ok (snd (StartFollowing now t mm))"
proof -
  have "replication_ok (fst mm) \<Longrightarrow> logs_ok (snd mm) \<Longrightarrow>
      replication_ok (fst (fold (start_partition now name) ps mm)) \<and> logs_ok (snd (fold (start_partition now name) ps mm))"
    for name ps mm
    by (induction ps arbitrary: mm) (simp_all add: start_partition_ok)
  then show "replication_ok (fst mm) \<Longrightarrow> logs_ok (snd mm) \<Longrightarrow>
    replication_ok (fst (StartFollowing now t mm)) \<and> logs_ok (snd (StartFollowing now t mm))"
    by (simp add: StartFollowing_def)
qed

lemma fold_StopFollowing_ok: "replication_ok rm \<Longrightarrow> replication_ok (fold (\<lambda>p. StopFollowing name (ID p)) ps rm)"
  by (induction ps arbitrary: rm) (simp_all add: StopFollowing_def replication_stop)

lemma applyTopic_ok: "ok b \<Longrightarrow> ok (applyTopic now name ps b)"
  by (simp add: applyTopic_def Let_def split_beta topics_upsert ok_parts ok_update StartFollowing_ok fold_StopFollowing_ok
      split: option.split)

lemma follow_topic_ok: "ok b \<Longrightarrow> ok (follow_topic now t b)"
  by (simp add: follow_topic_def split_beta ok_parts ok_update StartFollowing_ok split: option.split)

lemma ApplyMetadataRecord_ok: "ok b \<Longrightarrow> ok (ApplyMetadataRecord now r b)"
  by (simp add: ApplyMetadataRecord_def applyTopic_ok topics_delete ok_parts ok_update split: RecordType.split)

lemma fanOutTopic_ok: "ok b \<Longrightarrow> ok (fanOutTopic name ps b)"
  by (simp add: fanOutTopic_def ok_other split: option.split)

lemma MetadataLog_Append_ok: "log_ok l \<Longrightarrow> log_ok (fst (MetadataLog_Append l r))"
  by (simp add: MetadataLog_Append_def append_ok)

lemma createTopic_ok: "ok b \<Longrightarrow> ok (fst (createTopic now name n rf fanOut b))"
  by (simp add: createTopic_def Let_def split_beta ok_parts ok_update StartFollowing_ok fanOutTopic_ok MetadataLog_Append_ok
      ApplyMetadataRecord_ok topics_create split: option.split sum.split registry_error.split)

lemma deleteTopic_ok: "ok b \<Longrightarrow> ok (fst (deleteTopic now name b))"
  by (simp add: deleteTopic_def Let_def split_beta ok_parts ok_update ApplyMetadataRecord_ok MetadataLog_Append_ok
      topics_delete split: option.split sum.split registry_error.split)

lemma failover_topic_ok: "ok b \<Longrightarrow> ok (failover_topic now d t b)"
  by (simp add: failover_topic_def Let_def split_beta ok_parts ok_update ApplyMetadataRecord_ok MetadataLog_Append_ok
      fanOutTopic_ok applyTopic_ok split: option.split sum.split)

lemma OnPeerDown_ok: "ok b \<Longrightarrow> ok (OnPeerDown now d b)"
proof -
  have "ok b \<Longrightarrow> ok (fold (failover_topic now d) ts b)" for ts b
    by (induction ts arbitrary: b) (simp_all add: failover_topic_ok)
  then show "ok b \<Longrightarrow> ok (OnPeerDown now d b)" by (simp add: OnPeerDown_def)
qed

lemma on_liveness_ok: "ok b \<Longrightarrow> ok (fold (on_liveness now) evs (sees lm b))"
proof -
  have "ok (on_liveness now ev b)" if "ok b" for ev b using that by (cases ev) (simp_all add: OnPeerDown_ok)
  then have "ok b \<Longrightarrow> ok (fold (on_liveness now) evs b)" for b by (induction evs arbitrary: b) simp_all
  then show "ok b \<Longrightarrow> ok (fold (on_liveness now) evs (sees lm b))" by (simp add: sees_def ok_other)
qed

subsection \<open>Records and offsets\<close>

lemma stop_waiting_ok: "ok b \<Longrightarrow> ok (stop_waiting b name idx w)"
  by (simp add: stop_waiting_def ok_parts ok_update replication_puts split: option.split)

lemma waitForAllAcks_ok:
  assumes "\<And>x. ok x \<Longrightarrow> ok (env x)" "ok b"
  shows "ok (fst (waitForAllAcks env now name idx base acks b r))"
  using assms(2)
  by (simp add: waitForAllAcks_def Let_def split_beta ok_parts ok_update replication_ops stop_waiting_ok assms(1)
      split: option.split)

lemma AppendBatch_ok:
  assumes "producers_ok pm" "log_ok l"
  shows "producers_ok (fst (AppendBatch pm pd tp pt sq n (append_stamped batch) l))"
    "log_ok (fst (snd (AppendBatch pm pd tp pt sq n (append_stamped batch) l)))"
  using assms by (simp_all add: AppendBatch_def Let_def split_beta producers_commit append_ok split: sum.split)

lemma Manager_Log_fst_ok: "logs_ok st \<Longrightarrow> logs_ok (fst (Manager_Log st name idx))"
    "logs_ok st \<Longrightarrow> snd (Manager_Log st name idx) = Inr l \<Longrightarrow> log_ok l"
  using Manager_Log_ok [of st name idx] by (cases "Manager_Log st name idx"; simp)+

lemma appended_ok:
  assumes "ok b" "snd (Manager_Log (bLogs b) name idx) = Inr l"
  shows "ok (b\<lparr>bLogs := put_log (fst (Manager_Log (bLogs b) name idx)) name idx (fst (append_stamped batch l))\<rparr>)"
    "ok (b\<lparr>bProducers := fst (AppendBatch (bProducers b) pd tp pt sq n (append_stamped batch) l),
       bLogs := put_log (fst (Manager_Log (bLogs b) name idx)) name idx
         (fst (snd (AppendBatch (bProducers b) pd tp pt sq n (append_stamped batch) l)))\<rparr>)"
  using assms Manager_Log_fst_ok [of "bLogs b" name idx]
  by (simp_all add: ok_parts ok_update AppendBatch_ok append_ok logs_put)

lemma producePartition_ok:
  assumes "\<And>x. ok x \<Longrightarrow> ok (env x)" "ok b"
  shows "ok (fst (producePartition env now name idx batch acks b))"
  using assms(2)
  by (simp add: producePartition_def Let_def split_beta ok_parts ok_update Manager_Log_fst_ok(1) appended_ok
      waitForAllAcks_ok [OF assms(1)] split: option.split sum.split Decision.split)

lemma high_watermark_ok: "ok b \<Longrightarrow> ok (fst (high_watermark now name idx off b))"
  by (simp add: high_watermark_def split_beta ok_parts ok_update replication_ops split: option.split)

lemma record_fetch_ok: "ok b \<Longrightarrow> ok (record_fetch now r name idx off fin b)"
  by (simp add: record_fetch_def ok_parts ok_update replication_ops split: option.split)

lemma fetchPartition_ok: "ok b \<Longrightarrow> ok (fst (fetchPartition now r name idx off n b))"
  by (simp add: fetchPartition_def Let_def split_beta ok_parts ok_update Manager_Log_fst_ok high_watermark_ok record_fetch_ok
      split: option.split sum.split)

lemma listOffset_ok: "ok b \<Longrightarrow> ok (fst (listOffset name idx ts b))"
  by (simp add: listOffset_def Let_def split_beta ok_parts ok_update Manager_Log_fst_ok split: option.split sum.split)

lemma commit_offset_ok:
  assumes "ok b"
  shows "ok (fst (commit_offset now g name idx off b))"
proof -
  have "ok (b\<lparr>bOffsets := Some (offsets s), bLogs := put_log (bLogs b) offsets_topic 0 (store_log s)\<rparr>)"
    if "s = fst (Commit now \<lparr>store_log = l, offsets = m\<rparr> g name idx off)" "bOffsets b = Some m"
      "map_of (logs (bLogs b)) (logKey offsets_topic 0) = Some l" for s m l
    using that assms append_ok(1) [of l] logs_log [of "bLogs b" _ l] ok_parts(5) [OF assms]
    by (simp add: Commit_def split_beta ok_parts ok_update offsets_put logs_put split: sum.split)
  then show ?thesis using assms by (simp add: commit_offset_def split_beta split: option.split)
qed

lemma Broker_Produce_ok: "ok b \<Longrightarrow> ok (fst (Broker_Produce name idx batch b))"
  by (simp add: Broker_Produce_def split_beta ok_parts ok_update Manager_Log_fst_ok(1) appended_ok split: option.split sum.split)

lemma Broker_Fetch_ok: "ok b \<Longrightarrow> ok (fst (Broker_Fetch now name idx off n b))"
  by (simp add: Broker_Fetch_def Let_def split_beta ok_parts ok_update Manager_Log_fst_ok high_watermark_ok
      split: option.split sum.split)

subsection \<open>Views\<close>

lemma partition_info_ok: "ok b \<Longrightarrow> ok (fst (partition_info now name p b))"
  by (simp add: partition_info_def Let_def split_beta ok_parts ok_update Manager_Log_fst_ok(1) replication_ops
      split: option.split sum.split)

lemma TopicInfos_ok: "ok b \<Longrightarrow> ok (fst (TopicInfos now b))"
  unfolding TopicInfos_def by (rule map_state_preserves) (simp_all add: split_beta map_state_preserves partition_info_ok)

lemma groupPartitionInfo_ok: "ok b \<Longrightarrow> ok (fst (groupPartitionInfo now g name idx b))"
  by (simp add: groupPartitionInfo_def highWatermarkOf_def Let_def split_beta ok_parts ok_update Manager_Log_fst_ok(1)
      high_watermark_ok split: sum.split)

lemma GroupInfos_ok: "ok b \<Longrightarrow> ok (fst (GroupInfos now b))"
proof -
  have m: "ok b \<Longrightarrow> ok (fst (group_member_info now g m b))" for g m b
    by (simp add: group_member_info_def split_beta map_state_preserves groupPartitionInfo_ok split: sum.split go_error.split)
  have "ok b \<Longrightarrow> ok (fst (group_info now g b))" for g b
    using map_stateE_preserves [of ok "group_member_info now (gsID g)", OF m]
    by (simp add: group_info_def split_beta split: sum.split)
  then show "ok b \<Longrightarrow> ok (fst (GroupInfos now b))"
    by (simp add: GroupInfos_def split_beta map_stateE_preserves)
qed

subsection \<open>Requests\<close>

lemma coord_requests:
  assumes "groups_ok c"
  shows "groups_ok (fst (Join c j))" "groups_ok (fst (Sync c sy))" "groups_ok (fst (Heartbeat c h))" "groups_ok (fst (Leave c lv))"
proof -
  have "groups_ok (apply_event ev c)" if "ev \<in> {EvJoin j, EvSync sy, EvHeartbeat h, EvLeave lv}" for ev
    using groups_step [OF assms coord_step.request [OF that]] .
  from this [of "EvJoin j"] this [of "EvSync sy"] this [of "EvHeartbeat h"] this [of "EvLeave lv"]
  show "groups_ok (fst (Join c j))" "groups_ok (fst (Sync c sy))" "groups_ok (fst (Heartbeat c h))" "groups_ok (fst (Leave c lv))"
    by simp_all
qed

lemma commit_partition_keeps: "reader_keeps ok (commit_partition now g name)"
proof -
  have "reader_keeps ok (case err of None \<Rightarrow> rreturn x | Some Panic \<Rightarrow> rread d | Some _ \<Rightarrow> rreturn y)" for err x d y
    by (simp add: reader_rules split: option.split go_error.split)
  then show ?thesis unfolding commit_partition_def by (intro reader_rules commit_offset_ok)
qed

lemma handlers_ok:
  assumes "ok b"
  shows "ok (fst (handleFetch now b body))" "ok (fst (handleListOffsets b body))"
    "ok (fst (handleOffsetCommit ts b body))" "ok (fst (handleOffsetFetch b body))"
    "ok (fst (handleHeartbeat b body))" "ok (fst (handleLeaveGroup b body))" "ok (fst (handleInitProducerID b body))"
    "ok (fst (handleCreateTopics now b body))" "ok (fst (handleDeleteTopics now b body))"
    "ok (fst (handleApplyTopic now b body))" "ok (fst (handleMetadata now b body))"
proof -
  have topics: "reader_keeps ok (rdo (\<lambda>b. if refuses_topics b then (b, x) else case f b of (b', code) \<Rightarrow> (b', name, code)))"
    if "\<And>b. ok b \<Longrightarrow> ok (fst (f b))" for x name and f :: "BrokerNode \<Rightarrow> BrokerNode \<times> int16"
    using that by (intro reader_rules) (simp add: split_beta)
  have off: "reader_keeps ok (case x of Inl err \<Rightarrow> rread (dfail err) | Inr off \<Rightarrow> rreturn (f off))"
    for x :: "go_error + int64" and f :: "int64 \<Rightarrow> offsetFetchPartitionResponse"
    by (simp add: reader_rules split: sum.split)
  show "ok (fst (handleFetch now b body))" "ok (fst (handleListOffsets b body))"
    "ok (fst (handleOffsetCommit ts b body))" "ok (fst (handleOffsetFetch b body))"
    unfolding handleFetch_def handleListOffsets_def handleOffsetCommit_def handleOffsetFetch_def
    by (intro run_reader_keeps [where P = ok, OF _ assms] reader_rules fetchPartition_ok listOffset_ok commit_partition_keeps off; assumption)+
  show "ok (fst (handleHeartbeat b body))" "ok (fst (handleLeaveGroup b body))" "ok (fst (handleInitProducerID b body))"
    unfolding handleHeartbeat_def handleLeaveGroup_def handleInitProducerID_def
    by (intro run_reader_keeps [where P = ok, OF _ assms] reader_rules; simp add: split_beta ok_parts ok_update coord_requests producers_init)+
  show "ok (fst (handleCreateTopics now b body))" "ok (fst (handleDeleteTopics now b body))"
    unfolding handleCreateTopics_def handleDeleteTopics_def
    by (intro run_reader_keeps [where P = ok, OF _ assms] reader_keeps_rbind reader_keeps_rarray reader_keeps_rread reader_keeps_rreturn
        topics createTopic_ok deleteTopic_ok; assumption)+
  show "ok (fst (handleApplyTopic now b body))" "ok (fst (handleMetadata now b body))"
    using assms by (simp_all add: handleApplyTopic_def handleMetadata_def Let_def split_beta applyTopic_ok TopicInfos_ok
        split: sum.split)
qed

lemma parking_handlers_ok:
  assumes "\<And>x. ok x \<Longrightarrow> ok (env x)" "ok b"
  shows "ok (fst (handleProduce env now b body))" "ok (fst (handleJoinGroup env header b body))"
    "ok (fst (handleSyncGroup env b body))"
proof -
  show "ok (fst (handleProduce env now b body))"
    unfolding handleProduce_def
    by (intro run_reader_keeps [where P = ok, OF _ assms(2)] reader_rules producePartition_ok [OF assms(1)]; assumption)
  show "ok (fst (handleJoinGroup env header b body))" "ok (fst (handleSyncGroup env b body))"
    using assms(2)
    by (simp_all add: handleJoinGroup_def handleSyncGroup_def Let_def split_beta assms(1) ok_parts ok_update coord_requests
        split: sum.split sync_return.split)
qed

lemma Dispatch_ok:
  assumes "\<And>x. ok x \<Longrightarrow> ok (env x)" "ok b"
  shows "ok (fst (Dispatch env now b payload))"
proof -
  have "ok (fst (h b body))" if "map_of (dispatchTable env now header) key = Some h" for header key h body
    using map_of_SomeD [OF that] handlers_ok [OF assms(2)] parking_handlers_ok [OF assms] assms(2)
    by (auto simp: dispatchTable_def at_once_def handleFindCoordinator_def handleApiVersions_def handlePing_def)
  then show ?thesis
    using assms(2) by (simp add: Dispatch_def split_beta split: sum.split option.split)
qed

lemma http_serve_ok:
  assumes "ok b"
  shows "ok (fst (http_serve wired now req b))"
proof -
  have c: "ok (fst (CreateTopic now name n rf b))" "ok (fst (DeleteTopic now name b))" for name n rf
    using assms by (simp_all add: CreateTopic_def DeleteTopic_def split_beta createTopic_ok deleteTopic_ok)
  have r: "ok (fst (ResetGroupOffset ts g name idx off b))" for ts g name idx off
    using assms by (simp add: ResetGroupOffset_def split_beta commit_offset_ok)
  have f: "ok (set_faults cfg b)" for cfg
    using assms by (auto simp: set_faults_def ok_def replication_faults)
  show ?thesis
  proof (cases req)
    case (PostReset g q)
    then show ?thesis
      using assms r by (simp add: http_serve_def post_reset_def split_beta split: option.split op_error.split go_error.split)
  qed (use assms c f in \<open>simp_all add: http_serve_def answer_def split_beta TopicInfos_ok GroupInfos_ok post_topics_def
      delete_topics_def post_produce_def post_fetch_def get_groups_def post_faults_def post_paused_def Let_def
      Broker_Produce_ok Broker_Fetch_ok split: option.split sum.split go_error.split\<close>)
qed

subsection \<open>Background loops\<close>

lemma fetchOnce_ok: "log_ok l \<Longrightarrow> log_ok (fetchOnce net flt f l)"
proof -
  have "log_ok l \<Longrightarrow> log_ok (append_batches bs l)" for bs l
    by (induction bs arbitrary: l) (simp_all add: split_beta append_ok split: sum.split)
  then show "log_ok l \<Longrightarrow> log_ok (fetchOnce net flt f l)"
    by (simp add: fetchOnce_def split_beta split: sum.split option.split)
qed

lemma fetch_round_ok: "ok b \<Longrightarrow> ok (fetch_round net f b)"
  using logs_log [of "bLogs b"]
  by (auto simp: fetch_round_def ok_parts logs_put fetchOnce_ok intro!: ok_update split: option.split)

lemma apply_records_ok:
  "log_ok ml \<Longrightarrow> ok b \<Longrightarrow> log_ok (fst (apply_records (ApplyMetadataRecord now) n bs ml b))
    \<and> ok (snd (apply_records (ApplyMetadataRecord now) n bs ml b))"
proof (induction n arbitrary: bs ml b)
  case (Suc n)
  then show ?case
    using append_ok(1) [OF Suc.prems(1)]
    by (simp add: AppendRaw_def Let_def split_beta ApplyMetadataRecord_ok split: sum.split option.split)
qed simp

lemma follow_metadata_ok:
  assumes "ok b"
  shows "ok (follow_metadata net now b)"
  using assms
  by (simp add: follow_metadata_def MetadataFollower_fetchOnce_def Let_def split_beta ok_parts ok_update apply_records_ok
      split: option.split sum.split)

lemma run_ok: "broker_run b c \<Longrightarrow> ok b \<Longrightarrow> ok c"
proof (induction rule: broker_run.induct)
  case (group b c ev g)
  then show ?case using groups_step [OF ok_parts(3)] by (blast intro: ok_update)
qed (simp_all add: Dispatch_ok http_serve_ok fetch_round_ok follow_metadata_ok on_liveness_ok)

end

end
