(* ===== verification/Broker_Safe.thy ===== *)
theory Broker_Safe
  imports Broker_Run
begin

text \<open>
  The parts of the model fulfil \<open>broker_parts\<close>, so a broker that was started from any disk is
  well formed after everything that clients, peers, timers and the HTTP interface do to it.
\<close>

section \<open>Well-formed parts\<close>

definition log_wf :: "Log \<Rightarrow> bool" where
  "log_wf l \<longleftrightarrow> segments l \<noteq> []"

text \<open>Every open log can be used, and the one of the offset store is open.\<close>

definition logs_wf :: "Manager \<Rightarrow> bool" where
  "logs_wf st \<longleftrightarrow> distinct (mkeys (logs st)) \<and> (\<forall>l \<in> snd ` set (logs st). log_wf l)
     \<and> map_of (logs st) (logKey offsets_topic 0) \<noteq> None"

definition offsets_wf :: "(offset_key, int64) gomap option \<Rightarrow> bool" where
  "offsets_wf m \<longleftrightarrow> (\<exists>offs. m = Some offs \<and> distinct (mkeys offs))"

definition producers_wf :: "ProducerManager \<Rightarrow> bool" where
  "producers_wf pm \<longleftrightarrow> distinct (mkeys (seqs pm))"

text \<open>
  A call waits on one channel of its own, and a channel that was closed is not waited on.
\<close>

definition waiters_wf :: "PartitionState \<Rightarrow> bool" where
  "waiters_wf s \<longleftrightarrow> distinct (map fst (waiters s)) \<and> fst ` set (waiters s) \<inter> set (closed s) = {}
     \<and> (\<forall>w \<in> fst ` set (waiters s) \<union> set (closed s). w < next_waiter s)"

text \<open>
  A broker leads a partition or follows it, never both; a led partition has this broker as
  its leader and a state of its own; a fetch loop is for its partition and asks another broker
  of the cluster.
\<close>

definition led_wf :: "int32 \<Rightarrow> nat \<Rightarrow> (tp \<rightharpoonup> PartitionState) \<Rightarrow> bool" where
  "led_wf i n L \<longleftrightarrow> (\<forall>key s. L key = Some s \<longrightarrow> leaderID s = i \<and> waiters_wf s \<and> uid s < n)
     \<and> inj_on (map_option uid \<circ> L) (dom L)"

definition replication_wf :: "int32 \<Rightarrow> ReplicationManager \<Rightarrow> bool" where
  "replication_wf i m \<longleftrightarrow> rmSelfID m = i \<and> distinct (mkeys (fetchers m)) \<and> distinct (mkeys (led m)) \<and> roles_ok m
     \<and> led_wf i (next_uid m) (map_of (led m)) \<and> (\<forall>key f. map_of (fetchers m) key = Some f \<longrightarrow> fetcher_for m key f)"

definition broker_wf :: "int32 \<Rightarrow> BrokerNode \<Rightarrow> bool" where
  "broker_wf i b \<longleftrightarrow> registry_ok (bTopics b) \<and> logs_wf (bLogs b) \<and> coord_reach 3000000000 (bGroups b)
     \<and> offsets_wf (bOffsets b) \<and> producers_wf (bProducers b)
     \<and> (\<forall>m. bReplication b = Some m \<longrightarrow> replication_wf i m) \<and> (\<forall>l. bMetadataLog b = Some l \<longrightarrow> log_wf l)"

section \<open>Storage\<close>

lemma AppendWithOffset_wf: "log_wf l \<Longrightarrow> log_wf (fst (AppendWithOffset l p stamp))"
  by (simp add: log_wf_def AppendWithOffset_def Let_def split: option.split prod.split)

lemma Append_no_panic: "log_wf l \<Longrightarrow> snd (AppendWithOffset l p stamp) \<noteq> Inl Panic"
  by (auto simp: log_wf_def AppendWithOffset_def append_entry_def maybeWriteIndex_def write_entry_def Let_def
      split: option.splits prod.splits if_splits)

lemma Open_wf: "Open dsk dr = Inr l \<Longrightarrow> log_wf l"
proof -
  have "segs = [] \<longleftrightarrow> bases = []" if "open_segments dr bases = Inr segs" for bases segs
    using that by (cases bases) (auto simp: Let_def split: option.splits sum.splits)
  then show "Open dsk dr = Inr l \<Longrightarrow> log_wf l"
    by (auto simp: log_wf_def Open_def Let_def split: if_splits sum.splits)
qed

lemma put_log_wf: "logs_wf st \<Longrightarrow> log_wf l \<Longrightarrow> logs_wf (put_log st name idx l)"
  using set_mput [of "logKey name idx" l "logs st"] by (auto simp: logs_wf_def put_log_def)

lemma Manager_Log_wf: "logs_wf st \<Longrightarrow> logs_wf (fst (Manager_Log st name idx))"
  using put_log_wf [of st _ name idx] by (auto simp: Manager_Log_def put_log_def Let_def Open_wf split: option.split sum.split)

section \<open>Replication\<close>

lemma recompute_release_wf: "waiters_wf s \<Longrightarrow> waiters_wf (recompute_release now s)"
  by (auto simp: waiters_wf_def recompute_release_def recompute_def releaseWaiters_def Let_def distinct_fst_filter
      dest: eq_key_imp_eq_value)

lemma waiters_wf_update [simp]:
  "waiters_wf (s\<lparr>followerOffset := fo\<rparr>) = waiters_wf s" "waiters_wf (s\<lparr>followerSeen := sn\<rparr>) = waiters_wf s"
  "waiters_wf (s\<lparr>leaderEndOffset := le\<rparr>) = waiters_wf s" "waiters_wf (s\<lparr>highWatermark := hw\<rparr>) = waiters_wf s"
  by (simp_all add: waiters_wf_def)

lemma recompute_release_same [simp]:
  "uid (recompute_release now s) = uid s" "leaderID (recompute_release now s) = leaderID s"
  by (simp_all add: recompute_release_def recompute_def releaseWaiters_def Let_def)

lemma partition_ops_wf:
  assumes "waiters_wf s"
    and "s' \<in> {RecordFollowerFetch now now br off fin s, fst (WaitForHighWatermark now off s), removeWaiter w s,
      fst (HighWatermark now off s), fst (PartitionState_ISR now now s)}"
  shows "waiters_wf s' \<and> uid s' = uid s \<and> leaderID s' = leaderID s"
proof -
  have park: "waiters_wf (s1\<lparr>waiters := waiters s1 @ [(next_waiter s1, off)], next_waiter := Suc (next_waiter s1)\<rparr>)"
    if "waiters_wf s1" for s1
  proof -
    have "next_waiter s1 \<notin> fst ` set (waiters s1) \<union> set (closed s1)" using that by (auto simp: waiters_wf_def)
    then show ?thesis using that by (simp add: waiters_wf_def less_Suc_eq)
  qed
  consider "s' = RecordFollowerFetch now now br off fin s" | "s' = fst (WaitForHighWatermark now off s)"
    | "s' = removeWaiter w s" | "s' = fst (HighWatermark now off s)" | "s' = fst (PartitionState_ISR now now s)"
    using assms(2) by blast
  then show ?thesis
  proof cases
    case 3
    then show ?thesis using assms(1) by (auto simp: waiters_wf_def removeWaiter_def distinct_fst_filter)
  qed (use assms(1) park in \<open>simp_all add: RecordFollowerFetch_def WaitForHighWatermark_def HighWatermark_def Let_def
      recompute_release_wf PartitionState_ISR_def recompute_def\<close>)
qed

lemma led_wf_put:
  assumes "led_wf i n L" "L key = Some s" "waiters_wf s' \<and> uid s' = uid s \<and> leaderID s' = leaderID s"
  shows "led_wf i n (L(key \<mapsto> s'))"
proof -
  have "map_option uid \<circ> L(key \<mapsto> s') = map_option uid \<circ> L" "dom (L(key \<mapsto> s')) = dom L" using assms(2,3) by auto
  then show ?thesis using assms by (auto simp: led_wf_def)
qed

lemma led_wf_new:
  assumes "led_wf i n L" "waiters_wf s \<and> uid s = n \<and> leaderID s = i" "L key = None"
  shows "led_wf i (Suc n) (L(key \<mapsto> s))"
proof -
  have "uid x \<noteq> n" if "L k = Some x" for k x using assms(1) that by (auto simp: led_wf_def)
  then have "inj_on (map_option uid \<circ> L(key \<mapsto> s)) (dom (L(key \<mapsto> s)))"
    using assms(1,2) by (fastforce simp: led_wf_def inj_on_def)
  then show ?thesis using assms(1,2) by (auto simp: led_wf_def less_Suc_eq)
qed

lemma led_wf_del: "led_wf i n L \<Longrightarrow> led_wf i n (L(key := None))"
  by (auto simp: led_wf_def inj_on_def)

lemma replication_state_wf:
  assumes "replication_wf i m" "partitionState m name idx = Some s" "waiters_wf s' \<and> uid s' = uid s \<and> leaderID s' = leaderID s"
  shows "replication_wf i (put_state name idx s' m)"
  using assms led_wf_put [of i "next_uid m" "map_of (led m)" _ s s']
  by (auto simp: replication_wf_def roles_ok_def partitionState_def put_state_def fetcher_for_def)

lemma NewPartitionState_wf:
  "waiters_wf (NewPartitionState u now rs lead lag) \<and> uid (NewPartitionState u now rs lead lag) = u
    \<and> leaderID (NewPartitionState u now rs lead lag) = lead"
  by (simp add: NewPartitionState_def recompute_def Let_def waiters_wf_def)

lemma replication_stop_wf: "replication_wf i m \<Longrightarrow> replication_wf i (stopFollowingKey key m)"
  by (auto simp: replication_wf_def stopFollowingKey_def roles_ok_def fetcher_for_def)

lemma replication_lead_wf:
  assumes "replication_wf i m"
  shows "replication_wf i (lead_key now key rs (stopFollowingKey key m))"
proof (cases "map_of (led m) key")
  case None
  have "led_wf i (Suc (next_uid m))
      ((map_of (led m))(key \<mapsto> NewPartitionState (next_uid m) now rs (rmSelfID m) (rmLagTimeout m)))"
    using led_wf_new [of i "next_uid m" "map_of (led m)" _ key] NewPartitionState_wf None assms
    by (simp add: replication_wf_def)
  then show ?thesis
    using assms None
    by (auto simp: lead_key_def stopFollowingKey_def replication_wf_def roles_ok_def fetcher_for_def)
qed (use replication_stop_wf [OF assms] in \<open>simp add: lead_key_def stopFollowingKey_def\<close>)

lemma replication_follow_wf:
  assumes "replication_wf i m" "fetcher_for m key f"
  shows "replication_wf i (m\<lparr>led := mdel key (led m), fetchers := mput key f (fetchers m)\<rparr>)"
  using assms led_wf_del [of i "next_uid m" "map_of (led m)" key]
  by (auto simp: replication_wf_def roles_ok_def fetcher_for_def)

section \<open>The broker\<close>

interpretation wf: broker_parts registry_ok log_wf logs_wf "coord_reach 3000000000" offsets_wf producers_wf "replication_wf i"
  for i
proof unfold_locales
  show "registry_ok (Registry_Upsert reg t)" if "registry_ok reg" for reg t
    using registry_ok_mput [OF that, of t] by (simp add: Registry_Upsert_def cloneTopic_def)
  show "registry_ok (fst (Registry_Create reg t))" if "registry_ok reg" for reg t
    using registry_ok_mput [OF that, of t] that by (simp add: Registry_Create_def cloneTopic_def split: option.split)
  show "registry_ok (fst (Registry_Delete reg name))" if "registry_ok reg" for reg name
    using registry_ok_mdel [OF that] that by (simp add: Registry_Delete_def split: option.split)
  show "log_wf l" if "logs_wf st" "map_of (logs st) path = Some l" for st path l
    using that map_of_SomeD [OF that(2)] by (force simp: logs_wf_def)
  show "replication_wf i (put_state name idx s' m)"
    if "replication_wf i m" "partitionState m name idx = Some s"
      "s' \<in> {RecordFollowerFetch now now br off fin s, fst (WaitForHighWatermark now off s), removeWaiter w s,
        fst (HighWatermark now off s), fst (PartitionState_ISR now now s)}" for m name idx s s' now br off fin w
    using that(1) by (intro replication_state_wf [OF that(1,2)] partition_ops_wf [OF _ that(3)])
      (use that(2) in \<open>auto simp: replication_wf_def led_wf_def partitionState_def\<close>)
  show "replication_wf i (m\<lparr>rmFaults := c\<rparr>)" if "replication_wf i m" for m c
    using that by (auto simp: replication_wf_def roles_ok_def fetcher_for_def)
qed (auto simp: AppendWithOffset_wf Manager_Log_wf put_log_wf offsets_wf_def producers_wf_def InitProducerID_def committedLocked_def
    Let_def replication_lead_wf replication_stop_wf replication_follow_wf intro: coord_reach.step)

lemma broker_wf_ok: "broker_wf i = wf.ok i"
  by (rule ext) (simp only: broker_wf_def wf.ok_def)

lemma foldE_keeps:
  assumes "\<And>x s s'. P s \<Longrightarrow> f x s = Inr s' \<Longrightarrow> P s'"
  shows "foldE f xs s = Inr s' \<Longrightarrow> P s \<Longrightarrow> P s'"
  using assms by (induction xs arbitrary: s) (auto split: sum.splits)

lemma scan_log_keeps:
  assumes "\<And>x s s'. P s \<Longrightarrow> f x s = Inr s' \<Longrightarrow> P s'" "scan_log read f off s = Some (Inr s')" "P s"
  shows "P s'"
proof -
  define Q where "Q read' f' off s res \<longleftrightarrow> read' = read \<and> f' = f \<longrightarrow> (\<forall>s'. res = Inr s' \<longrightarrow> P s \<longrightarrow> P s')"
    for read' :: "int64 \<Rightarrow> go_error + LogRecord list" and f' and off :: int64 and s and res :: "go_error + 'a"
  have "Q read f off s (Inr s')"
  proof (rule scan_log.raw_induct [of Q, OF _ assms(2)])
    fix scan read' f' off s res
    assume IH: "\<And>a b c d e. scan a b c d = Some e \<Longrightarrow> Q a b c d e"
    assume "(case read' off of Inl e \<Rightarrow> Some (Inl e)
      | Inr records \<Rightarrow> if records = [] then Some (Inr s)
          else case foldE f' records s of Inl e \<Rightarrow> Some (Inl e) | Inr s' \<Rightarrow> scan read' f' (Offset (last records) + 1) s') = Some res"
    moreover have "P s'" if "foldE f xs s = Inr s1" "P s" "scan read f n s1 = Some (Inr s')" for xs s s1 n s'
      using IH [OF that(3)] foldE_keeps [of P f xs s s1] that assms(1) by (simp add: Q_def)
    ultimately show "Q read' f' off s res" unfolding Q_def by (auto split: sum.splits if_splits)
  qed
  then show ?thesis using assms(3) by (simp add: Q_def)
qed

lemma NewStore_wf: "NewStore l = Some (Inr s) \<Longrightarrow> distinct (mkeys (offsets s))"
  by (auto simp: NewStore_def replay_def map_sum_Inr replay_record_def split: sum.splits
      elim!: scan_log_keeps [where P = "\<lambda>m. distinct (mkeys m)", rotated])

lemma start_broker_wf:
  assumes "start_broker now i port ms st ml peers ctl = Some (Inr b)" "logs st = []" "log_wf ml"
  shows "broker_wf i b"
proof -
  define b1 where "b1 = (new_broker i port ms st ml)\<lparr>bIsPeerAlive := Some peers, bControllerID := Some ctl\<rparr>"
  obtain st' ol s rs where s: "Manager_Log st offsets_topic 0 = (st', Inr ol)" "NewStore ol = Some (Inr s)"
    "b = (let b = fold (ApplyMetadataRecord now) rs (b1\<lparr>bLogs := st', bOffsets := Some (offsets s)\<rparr>)
          in fold (follow_topic now) (Registry_All (bTopics b)) b)"
    using assms(1)
    by (auto simp: start_broker_def b1_def new_broker_def Let_def split: sum.splits option.splits prod.splits)
  have "logs_wf st'"
    using s(1) assms(2) Open_wf by (auto simp: Manager_Log_def logs_wf_def Let_def split: option.splits sum.splits)
  moreover have "replication_wf i (UseFaults c (NewReplicationManager i ms))" for c
    by (simp add: replication_wf_def NewReplicationManager_def UseFaults_def roles_ok_def led_wf_def split: option.split)
  ultimately have "broker_wf i (b1\<lparr>bLogs := st', bOffsets := Some (offsets s)\<rparr>)"
    using assms(3) NewStore_wf [OF s(2)] coord_reach.init
    by (simp add: broker_wf_def b1_def new_broker_def NewRegistry_replay offsets_wf_def producers_wf_def NewProducerManager_def)
  moreover have "wf.ok i x \<Longrightarrow> wf.ok i (fold (ApplyMetadataRecord now) rs x)" for x rs
    by (induction rs arbitrary: x) (simp_all add: wf.ApplyMetadataRecord_ok)
  moreover have "wf.ok i x \<Longrightarrow> wf.ok i (fold (follow_topic now) ts x)" for x ts
    by (induction ts arbitrary: x) (simp_all add: wf.follow_topic_ok)
  ultimately show ?thesis by (simp add: s(3) broker_wf_ok Let_def)
qed

lemma offset_calls:
  assumes "broker_wf i b"
  shows "snd (commit_offset t g name idx off b) \<noteq> Some Panic" "fetch_offset g name idx b \<noteq> Inl Panic"
proof -
  obtain m l where ml: "bOffsets b = Some m" "map_of (logs (bLogs b)) (logKey offsets_topic 0) = Some l" "log_wf l"
    using assms by (fastforce simp: broker_wf_def logs_wf_def offsets_wf_def dest: map_of_SomeD)
  show "snd (commit_offset t g name idx off b) \<noteq> Some Panic" "fetch_offset g name idx b \<noteq> Inl Panic"
    using ml Append_no_panic [OF ml(3)]
    by (auto simp: commit_offset_def fetch_offset_def Commit_def Append_def split_beta split: sum.split)
qed


text \<open>A single broker on an empty disk, a topic created over HTTP, then bytes that are not a request.\<close>

definition demo_flags :: flags where
  "demo_flags = \<lparr>flagID = 1, flagPort = 9092, flagPeers = [], flagPingInterval = 500000000, flagData = ''./data''\<rparr>"

definition demo_body :: http_request where
  "demo_body = PostTopics (Some \<lparr>tqName = ''orders'', tqPartitions = 2, tqReplicationFactor = 1\<rparr>)"


end
