(* ===== verification/Client.thy ===== *)
theory Client
  imports HttpApi
begin

text \<open>
  The requests of the command line client (\<open>cmd/testclient/main.go\<close>): how it encodes each one,
  what it reads of the response, and which responses it refuses. Where the client ends with
  \<open>log.Fatal\<close>, the result is an error; where it would wait for ever, there is none.
\<close>

section \<open>A request and its response\<close>

definition expect :: "bool \<Rightarrow> unit decoder" where
  "expect ok = (if ok then dreturn () else dfail ErrUnexpected)"

definition client_header :: "int16 \<Rightarrow> int16 \<Rightarrow> int32 \<Rightarrow> RequestHeader" where
  "client_header key version corr = \<lparr>APIKey = key, APIVersion = version, CorrelationID = corr, ClientID = None\<rparr>"

text \<open>
  One frame out, one frame in, over a connection to a broker; a connection that the broker
  closes gives an error. Most requests check the correlation id of the response. Which of two
  failing checks comes first makes no difference to the model: any \<open>log.Fatal\<close> ends the client.
\<close>

definition client_exchange ::
    "(BrokerNode \<Rightarrow> BrokerNode) \<Rightarrow> int \<Rightarrow> RequestHeader \<Rightarrow> bytes \<Rightarrow> (int32 \<Rightarrow> 'a decoder)
     \<Rightarrow> BrokerNode \<Rightarrow> BrokerNode \<times> (go_error + 'a) option" where
  "client_exchange env now header body parse b =
     (case Dispatch env now b (WriteRequestHeader header @ body) of
        (b', None) \<Rightarrow> (b', None)
      | (b', Some (Inl err)) \<Rightarrow> (b', Some (Inl EOF))
      | (b', Some (Inr response)) \<Rightarrow> (b', Some (map_sum id fst (dbind ReadResponseHeader parse response))))"

definition client_call ::
    "(BrokerNode \<Rightarrow> BrokerNode) \<Rightarrow> int \<Rightarrow> RequestHeader \<Rightarrow> bytes \<Rightarrow> 'a decoder
     \<Rightarrow> BrokerNode \<Rightarrow> BrokerNode \<times> (go_error + 'a) option" where
  "client_call env now header body parse =
     client_exchange env now header body (\<lambda>corr. dbind (expect (corr = CorrelationID header)) (\<lambda>_. parse))"

definition checkUnknownAPI :: "(BrokerNode \<Rightarrow> BrokerNode) \<Rightarrow> int \<Rightarrow> BrokerNode \<Rightarrow> BrokerNode \<times> (go_error + unit) option" where
  "checkUnknownAPI env now =
     client_call env now (client_header 9999 0 42) []
       (dbind ReadInt16 (\<lambda>errCode. expect (errCode = -1)))"

definition readAPIVersionEntry :: "(int16 \<times> int16 \<times> int16) decoder" where
  "readAPIVersionEntry =
     dbind ReadInt16 (\<lambda>apiKey. dbind ReadInt16 (\<lambda>minVersion. dbind ReadInt16 (\<lambda>maxVersion.
     dreturn (apiKey, minVersion, maxVersion))))"

definition checkApiVersions :: "(BrokerNode \<Rightarrow> BrokerNode) \<Rightarrow> int \<Rightarrow> BrokerNode \<Rightarrow> BrokerNode \<times> (go_error + unit) option" where
  "checkApiVersions env now =
     client_call env now (client_header 18 0 43) []
       (dbind ReadInt16 (\<lambda>errorCode.
        dbind ReadArrayLen (\<lambda>apiCount.
        dbind (dtimes (nat apiCount) readAPIVersionEntry) (\<lambda>entries.
        expect (errorCode = 0 \<and> (2, 1, 1) \<in> set entries
          \<and> list_all (\<lambda>k. (k, 0, 0) \<in> set entries) [8, 9, 10, 11, 12, 13, 14, 18, 22])))))"

section \<open>Producers and groups\<close>

definition checkInitProducerID ::
    "(BrokerNode \<Rightarrow> BrokerNode) \<Rightarrow> int \<Rightarrow> int32 \<Rightarrow> BrokerNode \<Rightarrow> BrokerNode \<times> (go_error + int64 \<times> int16) option" where
  "checkInitProducerID env now corr =
     client_call env now (client_header 22 0 corr) (WriteNullableString None @ WriteInt32 (-1))
       (dbind ReadInt32 (\<lambda>throttleTimeMS.
        dbind ReadInt16 (\<lambda>errorCode.
        dbind ReadInt64 (\<lambda>pd.
        dbind ReadInt16 (\<lambda>epoch.
        dbind (expect (throttleTimeMS = 0 \<and> errorCode = 0 \<and> 0 \<le> sint pd \<and> epoch = 0)) (\<lambda>_.
        dreturn (pd, epoch)))))))"

definition checkHeartbeat ::
    "(BrokerNode \<Rightarrow> BrokerNode) \<Rightarrow> int \<Rightarrow> string \<Rightarrow> int32 \<Rightarrow> string \<Rightarrow> int32
     \<Rightarrow> BrokerNode \<Rightarrow> BrokerNode \<times> (go_error + int16) option" where
  "checkHeartbeat env now groupID generationID memberID corr =
     client_call env now (client_header 12 0 corr)
       (WriteString groupID @ WriteInt32 generationID @ WriteString memberID) ReadInt16"

definition checkLeaveGroup ::
    "(BrokerNode \<Rightarrow> BrokerNode) \<Rightarrow> int \<Rightarrow> string \<Rightarrow> string \<Rightarrow> int32
     \<Rightarrow> BrokerNode \<Rightarrow> BrokerNode \<times> (go_error + int16) option" where
  "checkLeaveGroup env now groupID memberID corr =
     client_call env now (client_header 13 0 corr) (WriteString groupID @ WriteString memberID) ReadInt16"

definition checkOffsetCommit ::
    "(BrokerNode \<Rightarrow> BrokerNode) \<Rightarrow> int \<Rightarrow> int32 \<Rightarrow> string \<Rightarrow> string \<Rightarrow> int32 \<Rightarrow> int64
     \<Rightarrow> BrokerNode \<Rightarrow> BrokerNode \<times> (go_error + unit) option" where
  "checkOffsetCommit env now corr groupID name idx off =
     client_call env now (client_header 8 0 corr)
       (WriteString groupID @ WriteArrayLen 1 @ WriteString name @ WriteArrayLen 1 @ WriteInt32 idx @ WriteInt64 off
        @ WriteNullableString None)
       (dbind ReadArrayLen (\<lambda>topicCount. dbind (expect (topicCount = 1)) (\<lambda>_.
        dbind ReadString (\<lambda>topicName.
        dbind ReadArrayLen (\<lambda>partitionCount.
        dbind ReadInt32 (\<lambda>gotPartition.
        dbind ReadInt16 (\<lambda>errorCode.
        expect (topicName = name \<and> partitionCount = 1 \<and> gotPartition = idx \<and> errorCode = 0))))))))"

definition checkOffsetFetch ::
    "(BrokerNode \<Rightarrow> BrokerNode) \<Rightarrow> int \<Rightarrow> int32 \<Rightarrow> string \<Rightarrow> string \<Rightarrow> int32 \<Rightarrow> int64
     \<Rightarrow> BrokerNode \<Rightarrow> BrokerNode \<times> (go_error + unit) option" where
  "checkOffsetFetch env now corr groupID name idx wantOffset =
     client_call env now (client_header 9 0 corr)
       (WriteString groupID @ WriteArrayLen 1 @ WriteString name @ WriteArrayLen 1 @ WriteInt32 idx)
       (dbind ReadArrayLen (\<lambda>topicCount. dbind (expect (topicCount = 1)) (\<lambda>_.
        dbind ReadString (\<lambda>topicName.
        dbind ReadArrayLen (\<lambda>partitionCount.
        dbind ReadInt32 (\<lambda>gotPartition.
        dbind ReadInt64 (\<lambda>committedOffset.
        dbind ReadNullableString (\<lambda>metadata.
        dbind ReadInt16 (\<lambda>errorCode.
        expect (topicName = name \<and> partitionCount = 1 \<and> gotPartition = idx \<and> committedOffset = wantOffset
          \<and> metadata = None \<and> errorCode = 0))))))))))"

section \<open>Records\<close>

text \<open>A record set that cannot be decoded ends the client at once (\<open>log.Fatal\<close>, or the decoder's panic).\<close>

definition decodeRecordSet :: "bytes \<Rightarrow> go_error + string list" where
  "decodeRecordSet recordSet = map_sum (\<lambda>_. Panic) (map (\<lambda>r. bytes_string (bytes_of (recValue r)))) (DecodeRecordBatches recordSet)"

definition buildRecordBatch :: "string \<Rightarrow> int64 \<Rightarrow> int16 \<Rightarrow> int32 \<Rightarrow> bytes" where
  "buildRecordBatch value producerID producerEpoch baseSequence =
     (let batch = BuildRecordBatch [\<lparr>Key = None, Value = string_bytes value\<rparr>]
      in if 0 \<le> sint producerID then
           (let tail = bslice 21 43 batch @ be_put 8 producerID @ be_put 2 producerEpoch @ be_put 4 baseSequence @ drop 57 batch
            in take 17 batch @ be_put 4 (crc32_Checksum tail) @ tail)
         else batch)"

definition produceRawBatchWithAcks ::
    "(BrokerNode \<Rightarrow> BrokerNode) \<Rightarrow> int \<Rightarrow> string \<Rightarrow> int32 \<Rightarrow> bytes \<Rightarrow> int32 \<Rightarrow> int16 \<Rightarrow> int32
     \<Rightarrow> BrokerNode \<Rightarrow> BrokerNode \<times> (go_error + int64 \<times> int16) option" where
  "produceRawBatchWithAcks env now name idx batch corr acks timeoutMS =
     client_call env now (client_header 0 0 corr)
       (WriteInt16 acks @ WriteInt32 timeoutMS @ WriteArrayLen 1 @ WriteString name @ WriteArrayLen 1
        @ WriteInt32 idx @ WriteInt32 (of_nat (length batch)) @ batch)
       (dbind ReadArrayLen (\<lambda>topicCount. dbind (expect (topicCount = 1)) (\<lambda>_.
        dbind ReadString (\<lambda>topicName.
        dbind ReadArrayLen (\<lambda>partitionCount. dbind (expect (topicName = name \<and> partitionCount = 1)) (\<lambda>_.
        dbind ReadInt32 (\<lambda>gotPartition.
        dbind ReadInt16 (\<lambda>errorCode.
        dbind ReadInt64 (\<lambda>baseOffset.
        dbind (expect (gotPartition = idx)) (\<lambda>_.
        dreturn (baseOffset, errorCode)))))))))))"

definition produceRawBatch ::
    "(BrokerNode \<Rightarrow> BrokerNode) \<Rightarrow> int \<Rightarrow> string \<Rightarrow> int32 \<Rightarrow> bytes \<Rightarrow> int32
     \<Rightarrow> BrokerNode \<Rightarrow> BrokerNode \<times> (go_error + int64 \<times> int16) option" where
  "produceRawBatch env now name idx batch corr = produceRawBatchWithAcks env now name idx batch corr 1 5000"

text \<open>
  High watermark, values and error code. The client decodes before it compares the partition.
\<close>

definition fetchPartitionValues ::
    "(BrokerNode \<Rightarrow> BrokerNode) \<Rightarrow> int \<Rightarrow> string \<Rightarrow> int32 \<Rightarrow> int64 \<Rightarrow> int32
     \<Rightarrow> BrokerNode \<Rightarrow> BrokerNode \<times> (go_error + int64 \<times> string list \<times> int16) option" where
  "fetchPartitionValues env now name idx off corr =
     client_call env now (client_header 1 0 corr)
       (WriteInt32 (-1) @ WriteInt32 0 @ WriteInt32 1 @ WriteArrayLen 1 @ WriteString name @ WriteArrayLen 1
        @ WriteInt32 idx @ WriteInt64 off @ WriteInt32 (2 ^ 20))
       (dbind ReadArrayLen (\<lambda>topicCount. dbind (expect (topicCount = 1)) (\<lambda>_.
        dbind ReadString (\<lambda>topicName.
        dbind ReadArrayLen (\<lambda>partitionCount. dbind (expect (topicName = name \<and> partitionCount = 1)) (\<lambda>_.
        dbind ReadInt32 (\<lambda>gotPartition.
        dbind ReadInt16 (\<lambda>errorCode.
        dbind ReadInt64 (\<lambda>highWatermark.
        dbind ReadBytes (\<lambda>recordSet.
        case decodeRecordSet (bytes_of recordSet) of
          Inl err \<Rightarrow> dfail err
        | Inr values \<Rightarrow> dbind (expect (gotPartition = idx)) (\<lambda>_. dreturn (highWatermark, values, errorCode))))))))))))"

definition checkListOffsets ::
    "(BrokerNode \<Rightarrow> BrokerNode) \<Rightarrow> int \<Rightarrow> string \<Rightarrow> int32 \<Rightarrow> int64 \<Rightarrow> int32 \<Rightarrow> int64
     \<Rightarrow> BrokerNode \<Rightarrow> BrokerNode \<times> (go_error + int64) option" where
  "checkListOffsets env now name idx timestamp corr wantOffset =
     client_call env now (client_header 2 1 corr)
       (WriteInt32 (-1) @ WriteArrayLen 1 @ WriteString name @ WriteArrayLen 1 @ WriteInt32 idx @ WriteInt64 timestamp)
       (dbind ReadArrayLen (\<lambda>topicCount. dbind (expect (topicCount = 1)) (\<lambda>_.
        dbind ReadString (\<lambda>topicName.
        dbind ReadArrayLen (\<lambda>partitionCount. dbind (expect (topicName = name \<and> partitionCount = 1)) (\<lambda>_.
        dbind ReadInt32 (\<lambda>gotPartition.
        dbind ReadInt16 (\<lambda>errorCode.
        dbind ReadInt64 (\<lambda>gotTimestamp.
        dbind ReadInt64 (\<lambda>offset.
        dbind (expect (gotPartition = idx \<and> errorCode = 0 \<and> gotTimestamp = -1 \<and> offset = wantOffset)) (\<lambda>_.
        dreturn offset)))))))))))"

section \<open>The idempotent producer\<close>

text \<open>One request after the other; the first that fails ends the client.\<close>

definition cbind ::
    "('s \<Rightarrow> 's \<times> (go_error + 'a) option) \<Rightarrow> ('a \<Rightarrow> 's \<Rightarrow> 's \<times> (go_error + 'b) option) \<Rightarrow> 's \<Rightarrow> 's \<times> (go_error + 'b) option" where
  "cbind m f b =
     (case m b of
        (b', Some (Inr x)) \<Rightarrow> f x b'
      | (b', Some (Inl err)) \<Rightarrow> (b', Some (Inl err))
      | (b', None) \<Rightarrow> (b', None))"

definition cexpect :: "bool \<Rightarrow> 's \<Rightarrow> 's \<times> (go_error + unit) option" where
  "cexpect ok b = (b, Some (if ok then Inr () else Inl ErrUnexpected))"

text \<open>
  The producing part of \<open>checkIdempotentProducer\<close>, for the producer id of its first request and
  the topic of its second: a batch, the same batch again, the next one, and one with a gap.
  The result is the base offset of the first.
\<close>

definition idempotent_rounds ::
    "(BrokerNode \<Rightarrow> BrokerNode) \<Rightarrow> int \<Rightarrow> string \<Rightarrow> int64 \<Rightarrow> int16 \<Rightarrow> BrokerNode \<Rightarrow> BrokerNode \<times> (go_error + int64) option" where
  "idempotent_rounds env now topicName pd epoch =
     (let batch = buildRecordBatch ''dup-me'' pd epoch 0 in
      cbind (produceRawBatch env now topicName 0 batch 172) (\<lambda>(firstOffset, firstCode).
      cbind (produceRawBatch env now topicName 0 batch 173) (\<lambda>(secondOffset, secondCode).
      cbind (cexpect (firstCode = 0 \<and> secondCode = 0 \<and> firstOffset = secondOffset)) (\<lambda>_.
      cbind (produceRawBatch env now topicName 0 (buildRecordBatch ''second'' pd epoch 1) 174) (\<lambda>(nextOffset, nextCode).
      cbind (cexpect (nextCode = 0 \<and> nextOffset = firstOffset + 1)) (\<lambda>_.
      cbind (produceRawBatch env now topicName 0 (buildRecordBatch ''gap'' pd epoch 5) 175) (\<lambda>(gapOffset, gapCode).
      cbind (cexpect (gapCode = 45 \<and> gapOffset = -1)) (\<lambda>_.
      \<lambda>b. (b, Some (Inr firstOffset))))))))))"

section \<open>A round trip of one request\<close>

text \<open>
  What the client gets is what its parser makes of the handler's response; the header is read
  back whatever its fields.
\<close>

lemma expect_simps [simp]: "expect True = dreturn ()" "expect False = dfail ErrUnexpected"
  by (simp_all add: expect_def)

lemma client_exchange_dispatch:
  assumes "header_ok h" "map_of (dispatchTable env now h) (APIKey h) = Some handler" "handler b body = (b', res)"
  shows "client_exchange env now h body parse b
    = (b', map_option (\<lambda>r. case r of Inl err \<Rightarrow> Inl EOF | Inr response \<Rightarrow> map_sum id fst (parse (CorrelationID h) response)) res)"
  using assms header_codec.dec_enc [OF assms(1), of body]
  by (cases res rule: option.exhaust; cases "the res")
    (auto simp: client_exchange_def Dispatch_def codec_rt)

lemma client_call_dispatch:
  assumes "header_ok h" "map_of (dispatchTable env now h) (APIKey h) = Some handler" "handler b body = (b', res)"
  shows "client_call env now h body parse b
    = (b', map_option (\<lambda>r. case r of Inl err \<Rightarrow> Inl EOF | Inr response \<Rightarrow> map_sum id fst (parse response)) res)"
  unfolding client_call_def by (subst client_exchange_dispatch [OF assms]) simp

lemma client_call_handler:
  assumes "map_of (dispatchTable env now (client_header key version corr)) key = Some handler"
    and "handler b body = (b', Some (Inr response))"
  shows "client_call env now (client_header key version corr) body parse b = (b', Some (map_sum id fst (parse response)))"
  using client_call_dispatch [of "client_header key version corr" env now handler b body b' "Some (Inr response)" parse] assms
  by (simp add: client_header_def header_ok_def)

lemma read_last:
  "ReadInt16 (WriteInt16 v16) = Inr (v16, [])" "ReadInt64 (WriteInt64 v64) = Inr (v64, [])"
  "length bs < 2 ^ 31 \<Longrightarrow> ReadBytes (WriteBytes bs) = Inr (Some bs, [])"
  using read_fixed [where rest = "[]"] ReadBytes_Write [of bs "[]"] by simp_all

lemma handleProduce_one:
  assumes "length name < 2 ^ 15" "length batch < 2 ^ 31"
  shows "handleProduce env now b (WriteInt16 acks @ WriteInt32 timeoutMS @ WriteArrayLen 1 @ WriteString name @ WriteArrayLen 1
        @ WriteInt32 idx @ WriteBytes batch)
    = (case producePartition env now name idx batch acks b of
         (b', p) \<Rightarrow> (b', Inr (WriteArrayLen 1 @ WriteString name @ WriteArrayLen 1
            @ WriteInt32 (ppIndex p) @ WriteInt16 (ppErrorCode p) @ WriteInt64 (ppBaseOffset p))))"
  using assms
  by (simp add: handleProduce_def run_reader_def rtopics_def rbind_assoc rbind_apply codec_rt read_last bytes_of_def
      rarray_1 writeProduceResponse_def write_topics_def WriteArray_def case_prod_beta)

lemma produce_replies:
  assumes "length name < 2 ^ 15" "length batch < 2 ^ 31" "producePartition env now name idx batch acks b = (b', p)" "ppIndex p = idx"
  shows "produceRawBatchWithAcks env now name idx batch corr acks timeoutMS b
    = (b', Some (Inr (ppBaseOffset p, ppErrorCode p)))"
proof -
  note h = handleProduce_one [OF assms(1,2), of env now b acks timeoutMS idx]
  show ?thesis
    unfolding produceRawBatchWithAcks_def
    by (subst client_call_handler [where handler = "\<lambda>b body. at_once (handleProduce env now b body)"])
      (use h assms in \<open>auto simp: dispatchTable_def at_once_def WriteBytes_def codec_rt read_last\<close>)
qed

section \<open>Batches with a producer id\<close>

definition client_record :: "string \<Rightarrow> BatchRecord" where
  "client_record v = \<lparr>Key = None, Value = string_bytes v\<rparr>"

definition producer_tail :: "string \<Rightarrow> int64 \<Rightarrow> int16 \<Rightarrow> int32 \<Rightarrow> bytes" where
  "producer_tail v pd epoch seq =
     be_put 2 (0 :: 16 word) @ be_put 4 (0 :: uint32) @ be_put 8 baseTimestamp @ be_put 8 baseTimestamp
     @ be_put 8 pd @ be_put 2 epoch @ be_put 4 seq @ be_put 4 (1 :: uint32) @ encodeRecord (client_record v) 0"

lemma bslice_Cons: "0 < i \<Longrightarrow> bslice i j (x # xs) = bslice (i - 1) (j - 1) xs"
  by (cases i; cases j) (simp_all add: bslice_def)

lemma producer_tail_patch:
  "bslice 21 43 (BuildRecordBatch [client_record v]) @ be_put 8 pd @ be_put 2 epoch @ be_put 4 seq
      @ drop 57 (BuildRecordBatch [client_record v]) = producer_tail v pd epoch seq"
  by (simp add: BuildRecordBatch_def batch_tail_def producer_tail_def Let_def bslice_append bslice_Cons)
   (simp add: bslice_def)

lemma buildRecordBatch_tail:
  assumes "0 \<le> sint pd"
  shows "buildRecordBatch v pd epoch seq
    = be_put 8 (0 :: 64 word) @ be_put 4 (of_nat (9 + length (producer_tail v pd epoch seq)) :: uint32)
      @ be_put 4 (NOT 0 :: uint32) @ [2] @ be_put 4 (crc32_Checksum (producer_tail v pd epoch seq))
      @ producer_tail v pd epoch seq"
proof -
  let ?b = "BuildRecordBatch [client_record v]"
  have "length (producer_tail v pd epoch seq) = length (batch_tail [client_record v])"
    by (simp add: producer_tail_def batch_tail_def)
  then have "take 17 ?b = be_put 8 (0 :: 64 word)
      @ be_put 4 (of_nat (9 + length (producer_tail v pd epoch seq)) :: uint32) @ be_put 4 (NOT 0 :: uint32) @ [2]"
    by (simp add: BuildRecordBatch_def Let_def)
  then show ?thesis
    using assms producer_tail_patch [of v pd epoch seq]
    by (simp add: buildRecordBatch_def client_record_def Let_def)
qed

lemma client_record_small:
  assumes "length v < 2 ^ 30"
  shows "record_ok (client_record v)" "length (encodeRecord (client_record v) 0) < 2 ^ 31 - 61"
  using assms length_encodeRecord [of "client_record v" 0]
  by (auto simp: client_record_def record_ok_def bytes_of_def string_bytes_def)

lemma producer_batch_fields:
  fixes base :: int64 and epoch :: int16 and seq :: int32
  assumes "0 \<le> sint pd" "length v < 2 ^ 30"
  defines "b \<equiv> stampOffset base (buildRecordBatch v pd epoch seq)"
  shows "length b = length (buildRecordBatch v pd epoch seq)" "length b < 2 ^ 31" "61 \<le> length b" "b ! 16 = 2"
    "be_get (bslice 0 8 b) = base" "12 + unat (be_get (bslice 8 12 b) :: uint32) = length b"
    "be_get (bslice 17 21 b) = crc32_Checksum (drop 21 b)" "be_get (bslice 27 35 b) = baseTimestamp"
    "be_get (bslice 43 51 b) = pd" "be_get (bslice 53 57 b) = seq" "be_get (bslice 57 61 b) = (1 :: int32)"
    "drop 61 b = encodeRecord (client_record v) 0"
proof -
  let ?t = "producer_tail v pd epoch seq"
  have b: "b = be_put 8 base @ be_put 4 (of_nat (9 + length ?t) :: uint32)
      @ be_put 4 (NOT 0 :: uint32) @ [2] @ be_put 4 (crc32_Checksum ?t) @ ?t"
    by (simp add: b_def buildRecordBatch_tail [OF assms(1)] stampOffset_def)
  have len: "length ?t = 40 + length (encodeRecord (client_record v) 0)" by (simp add: producer_tail_def)
  show "length b = length (buildRecordBatch v pd epoch seq)" "length b < 2 ^ 31" "61 \<le> length b" "b ! 16 = 2"
    using len client_record_small(2) [OF assms(2)] by (simp_all add: b buildRecordBatch_tail [OF assms(1)] nth_append)
  have "unat (of_nat (9 + length ?t) :: uint32) = 9 + length ?t"
    using len client_record_small(2) [OF assms(2)] by (simp only: unat_of_nat) simp
  moreover have "bslice 8 12 b = be_put 4 (of_nat (9 + length ?t) :: uint32)"
    by (simp add: b bslice_append, simp add: bslice_def)
  ultimately show "12 + unat (be_get (bslice 8 12 b) :: uint32) = length b" by (simp only: b) simp
  show "be_get (bslice 0 8 b) = base" "be_get (bslice 17 21 b) = crc32_Checksum (drop 21 b)"
    by (simp_all add: b bslice_append bslice_Cons, simp_all add: bslice_def)
  show "be_get (bslice 27 35 b) = baseTimestamp" "be_get (bslice 43 51 b) = pd" "be_get (bslice 53 57 b) = seq"
    "be_get (bslice 57 61 b) = (1 :: int32)" "drop 61 b = encodeRecord (client_record v) 0"
    by (simp_all add: b producer_tail_def bslice_append bslice_Cons, simp_all add: bslice_def)
qed

lemma producer_batch:
  fixes epoch :: int16 and seq :: int32
  assumes "0 \<le> sint pd" "length v < 2 ^ 30"
  defines "b \<equiv> buildRecordBatch v pd epoch seq"
  shows "validRecordBatch b" "length b < 2 ^ 31" "be_get (bslice 43 51 b) = pd" "be_get (bslice 53 57 b) = seq"
    "be_get (bslice 57 61 b) = (1 :: int32)"
proof -
  have "stampOffset 0 b = b" by (simp add: b_def buildRecordBatch_tail [OF assms(1)] stampOffset_def)
  note f = producer_batch_fields [OF assms(1,2), of 0 epoch seq, folded b_def, unfolded this]
  show "validRecordBatch b" "length b < 2 ^ 31" "be_get (bslice 43 51 b) = pd" "be_get (bslice 53 57 b) = seq"
    "be_get (bslice 57 61 b) = (1 :: int32)"
    using f by (simp_all add: validRecordBatch_def)
qed

lemma decode_producer_batch:
  assumes "0 \<le> sint pd" "length v < 2 ^ 30"
  shows "DecodeRecordBatches (stampOffset base (buildRecordBatch v pd epoch seq) @ rest)
    = (case DecodeRecordBatches rest of
         Inl err \<Rightarrow> Inl err
       | Inr out \<Rightarrow> Inr ([decoded base (0, client_record v)] @ out))"
proof -
  let ?b = "stampOffset base (buildRecordBatch v pd epoch seq)"
  note f = producer_batch_fields [OF assms, of base epoch seq]
  have "decodeRecord base baseTimestamp (encodeRecord (client_record v) 0) = Inr (decoded base (0, client_record v), [])"
    using decodeRecord_encode [OF client_record_small(1) [OF assms(2)], of 0 base "[]"] by simp
  then have "decodeOneBatch ?b = Inr [decoded base (0, client_record v)]"
    using f(3) by (simp add: decodeOneBatch_def f recordBatchHeaderLen_def dmake_def dbind_apply Let_def)
  moreover have "bslice 8 12 (?b @ rest) = bslice 8 12 ?b" using f(3) by (intro bslice_append(2)) auto
  ultimately show ?thesis
    using f(3,6) by (subst DecodeRecordBatches.simps) (simp add: recordBatchHeaderLen_def)
qed

section \<open>What the leader does with them\<close>

text \<open>A broker that leads a partition, with its log on a working disk.\<close>

definition ready :: "BrokerNode \<Rightarrow> string \<Rightarrow> int32 \<Rightarrow> Log \<Rightarrow> bool" where
  "ready b name idx l \<longleftrightarrow> holds_log b name idx l \<and> log_inv l \<and> log_healthy l \<and> disk l = []
     \<and> (\<exists>p. partition_at (bTopics b) name idx = Some p \<and> Leader p = NodeID b)"

lemma produce_idempotent:
  fixes pd :: int64 and seq n :: int32
  assumes "ready b name idx l" "validRecordBatch batch" "length batch < 2 ^ 31" "sint (EndOffset l) < 2 ^ 63 - 1"
    and "be_get (bslice 43 51 batch) = pd" "0 \<le> sint pd" "be_get (bslice 53 57 batch) = seq" "be_get (bslice 57 61 batch) = n"
  defines "c \<equiv> checkSequenceLocked (bProducers b) pd name idx seq"
  shows "decision c = AppendBatchNow \<Longrightarrow> \<exists>b' l'. producePartition env now name idx batch 1 b
      = (b', \<lparr>ppIndex = idx, ppErrorCode = ErrNone, ppBaseOffset = EndOffset l\<rparr>)
      \<and> ready b' name idx l' \<and> bProducers b' = committedLocked (bProducers b) pd name idx seq n (EndOffset l)
      \<and> EndOffset l' = EndOffset l + 1
      \<and> log_entries l' = log_entries l @ [\<lparr>Offset = EndOffset l, Payload = stampOffset (EndOffset l) batch\<rparr>]"
    and "decision c \<noteq> AppendBatchNow \<Longrightarrow> \<exists>b'. producePartition env now name idx batch 1 b
      = (b', if decision c = Duplicate then \<lparr>ppIndex = idx, ppErrorCode = ErrNone, ppBaseOffset = CachedOffset c\<rparr>
             else \<lparr>ppIndex = idx, ppErrorCode = ErrOutOfOrderSequenceNumber, ppBaseOffset = -1\<rparr>)
      \<and> ready b' name idx l \<and> bProducers b' = bProducers b"
proof -
  obtain p st where r: "Manager_Log (bLogs b) name idx = (st, Inr l)" "log_inv l" "log_healthy l" "disk l = []"
    "partition_at (bTopics b) name idx = Some p" "Leader p = NodeID b"
    using assms(1) by (auto simp: ready_def holds_log_def) (metis prod.collapse)
  obtain l' where l': "append_stamped batch l = (l', Inr (EndOffset l))" "log_inv l'" "log_healthy l'" "disk l' = []"
    "EndOffset l' = EndOffset l + 1"
    "log_entries l' = log_entries l @ [\<lparr>Offset = EndOffset l, Payload = stampOffset (EndOffset l) batch\<rparr>]"
    by (rule append_stamped_ready [OF r(2-4) assms(2-4)])
  have put: "snd (Manager_Log (put_log st name idx m) name idx) = Inr m" for m
    by (simp add: put_log_def Manager_Log_hit)
  note step = producePartition_def AppendBatch_def Let_def waitForAllAcks_none ready_def holds_log_def put
  show "\<exists>b' l'. producePartition env now name idx batch 1 b
      = (b', \<lparr>ppIndex = idx, ppErrorCode = ErrNone, ppBaseOffset = EndOffset l\<rparr>)
      \<and> ready b' name idx l' \<and> bProducers b' = committedLocked (bProducers b) pd name idx seq n (EndOffset l)
      \<and> EndOffset l' = EndOffset l + 1
      \<and> log_entries l' = log_entries l @ [\<lparr>Offset = EndOffset l, Payload = stampOffset (EndOffset l) batch\<rparr>]"
    if "decision c = AppendBatchNow"
    using that r l' assms(2,5-8) by (auto simp: step c_def)
  show "\<exists>b'. producePartition env now name idx batch 1 b
      = (b', if decision c = Duplicate then \<lparr>ppIndex = idx, ppErrorCode = ErrNone, ppBaseOffset = CachedOffset c\<rparr>
             else \<lparr>ppIndex = idx, ppErrorCode = ErrOutOfOrderSequenceNumber, ppBaseOffset = -1\<rparr>)
      \<and> ready b' name idx l \<and> bProducers b' = bProducers b"
    if "decision c \<noteq> AppendBatchNow"
    using that r assms(2,5-8) by (cases "decision c") (auto simp: step c_def)
qed

lemma fetch_replies:
  assumes "length name < 2 ^ 15" "fetchPartition now (-1) name idx off (2 ^ 20) b = (b', p)" "fpIndex p = idx"
    and "length (fpRecords p) < 2 ^ 31" "decodeRecordSet (fpRecords p) = Inr vs"
  shows "fetchPartitionValues env now name idx off corr b = (b', Some (Inr (fpHighWatermark p, vs, fpErrorCode p)))"
proof -
  note h = handleFetch_one [OF assms(1), of now b "-1" idx off "2 ^ 20", unfolded buildFetchRequest_def]
  show ?thesis
    unfolding fetchPartitionValues_def
    by (subst client_call_handler [where handler = "\<lambda>b body. at_once (handleFetch now b body)"])
      (use h assms in \<open>auto simp: dispatchTable_def at_once_def codec_rt read_last partition_response_def bytes_of_def\<close>)
qed

lemma produce_replies_idempotent:
  fixes seq :: int32 and epoch :: int16
  assumes "ready b name idx l" "length name < 2 ^ 15" "sint (EndOffset l) < 2 ^ 63 - 1" "0 \<le> sint pd" "length v < 2 ^ 30"
  defines "c \<equiv> checkSequenceLocked (bProducers b) pd name idx seq"
    and "batch \<equiv> buildRecordBatch v pd epoch seq"
  shows "decision c = AppendBatchNow \<Longrightarrow> \<exists>b' l'. produceRawBatch env now name idx batch corr b
      = (b', Some (Inr (EndOffset l, ErrNone)))
      \<and> ready b' name idx l' \<and> bProducers b' = committedLocked (bProducers b) pd name idx seq 1 (EndOffset l)
      \<and> EndOffset l' = EndOffset l + 1
      \<and> log_entries l' = log_entries l @ [\<lparr>Offset = EndOffset l, Payload = stampOffset (EndOffset l) batch\<rparr>]"
    and "decision c \<noteq> AppendBatchNow \<Longrightarrow> \<exists>b'. produceRawBatch env now name idx batch corr b
      = (b', Some (Inr (if decision c = Duplicate then (CachedOffset c, ErrNone) else (-1, ErrOutOfOrderSequenceNumber))))
      \<and> ready b' name idx l \<and> bProducers b' = bProducers b"
proof -
  note f = producer_batch [OF assms(4,5), of epoch seq, folded batch_def]
  note p = produce_idempotent [OF assms(1) f(1,2) assms(3) f(3) assms(4) f(4,5), where env = env and now = now, folded c_def]
  note r = produce_replies [OF assms(2) f(2), where acks = 1 and timeoutMS = 5000 and corr = corr, folded produceRawBatch_def]
  show "decision c = AppendBatchNow \<Longrightarrow> \<exists>b' l'. produceRawBatch env now name idx batch corr b
      = (b', Some (Inr (EndOffset l, ErrNone)))
      \<and> ready b' name idx l' \<and> bProducers b' = committedLocked (bProducers b) pd name idx seq 1 (EndOffset l)
      \<and> EndOffset l' = EndOffset l + 1
      \<and> log_entries l' = log_entries l @ [\<lparr>Offset = EndOffset l, Payload = stampOffset (EndOffset l) batch\<rparr>]"
    using p(1) r by fastforce
  show "decision c \<noteq> AppendBatchNow \<Longrightarrow> \<exists>b'. produceRawBatch env now name idx batch corr b
      = (b', Some (Inr (if decision c = Duplicate then (CachedOffset c, ErrNone) else (-1, ErrOutOfOrderSequenceNumber))))
      \<and> ready b' name idx l \<and> bProducers b' = bProducers b"
    using p(2) r by (auto split: if_splits)
qed

lemma sequence_after_first:
  fixes pd off off' :: int64 and name :: string and idx :: int32
  assumes "map_of (seqs m) \<lparr>pid = pd, topic = name, partition_of = idx\<rparr> = None"
  defines "m1 \<equiv> committedLocked m pd name idx 0 1 off"
  shows "decision (checkSequenceLocked m pd name idx 0) = AppendBatchNow"
    "checkSequenceLocked m1 pd name idx 0 = \<lparr>decision = Duplicate, CachedOffset = off\<rparr>"
    "decision (checkSequenceLocked m1 pd name idx 1) = AppendBatchNow"
    "decision (checkSequenceLocked (committedLocked m1 pd name idx 1 1 off') pd name idx 5) = OutOfOrder"
  using assms by (simp_all add: checkSequenceLocked_def committedLocked_def)

text \<open>What the scenario leaves in the log, and what a fetch of it gives.\<close>

lemma idempotent_rounds_effect:
  assumes "ready b name 0 l" "length name < 2 ^ 15" "0 \<le> sint pd" "sint (EndOffset l) < 2 ^ 63 - 3"
    and "map_of (seqs (bProducers b)) \<lparr>pid = pd, topic = name, partition_of = 0\<rparr> = None"
  obtains b' l' where "idempotent_rounds env now name pd epoch b = (b', Some (Inr (EndOffset l)))" "ready b' name 0 l'"
    "sint (EndOffset l') = sint (EndOffset l) + 2" "log_entries l' = log_entries l
      @ [\<lparr>Offset = EndOffset l, Payload = stampOffset (EndOffset l) (buildRecordBatch ''dup-me'' pd epoch 0)\<rparr>,
         \<lparr>Offset = EndOffset l + 1, Payload = stampOffset (EndOffset l + 1) (buildRecordBatch ''second'' pd epoch 1)\<rparr>]"
proof -
  have end0: "0 \<le> sint (EndOffset l)"
    using assms(1) seglog.fin_recs [of l] seglog.first_nonneg [of l] by (simp add: ready_def)
  have e1: "sint (EndOffset l + 1) = sint (EndOffset l) + 1" "sint (EndOffset l + 1 + 1) = sint (EndOffset l) + 2"
    using sint_add_64 [of "EndOffset l" 1] sint_add_64 [of "EndOffset l + 1" 1] end0 assms(4) by simp_all
  note seq = sequence_after_first(1) [OF assms(5)] sequence_after_first(2-3) [OF assms(5), where off = "EndOffset l"]
    sequence_after_first(4) [OF assms(5), where off = "EndOffset l" and off' = "EndOffset l + 1"]
  note send = produce_replies_idempotent [OF _ assms(2) _ assms(3), where epoch = epoch and env = env and now = now]
  obtain b1 l1 where 1: "produceRawBatch env now name 0 (buildRecordBatch ''dup-me'' pd epoch 0) 172 b = (b1, Some (Inr (EndOffset l, ErrNone)))"
    "ready b1 name 0 l1" "bProducers b1 = committedLocked (bProducers b) pd name 0 0 1 (EndOffset l)"
    "EndOffset l1 = EndOffset l + 1" "log_entries l1 = log_entries l
      @ [\<lparr>Offset = EndOffset l, Payload = stampOffset (EndOffset l) (buildRecordBatch ''dup-me'' pd epoch 0)\<rparr>]"
    using send(1) [OF assms(1) _ _ seq(1), where corr = 172 and v = "''dup-me''"] assms(4) by fastforce
  obtain b2 where 2: "produceRawBatch env now name 0 (buildRecordBatch ''dup-me'' pd epoch 0) 173 b1 = (b2, Some (Inr (EndOffset l, ErrNone)))"
    "ready b2 name 0 l1" "bProducers b2 = bProducers b1"
    using send(2) [OF 1(2), where corr = 173 and v = "''dup-me''" and seq = 0] seq(2) 1(3,4) e1 assms(4) by fastforce
  obtain b3 l3 where 3: "produceRawBatch env now name 0 (buildRecordBatch ''second'' pd epoch 1) 174 b2 = (b3, Some (Inr (EndOffset l1, ErrNone)))"
    "ready b3 name 0 l3" "bProducers b3 = committedLocked (bProducers b2) pd name 0 1 1 (EndOffset l1)"
    "EndOffset l3 = EndOffset l1 + 1" "log_entries l3 = log_entries l1
      @ [\<lparr>Offset = EndOffset l1, Payload = stampOffset (EndOffset l1) (buildRecordBatch ''second'' pd epoch 1)\<rparr>]"
    using send(1) [OF 2(2), where corr = 174 and v = "''second''" and seq = 1] seq(3) 1(3,4) 2(3) e1 assms(4) by fastforce
  obtain b4 where 4: "produceRawBatch env now name 0 (buildRecordBatch ''gap'' pd epoch 5) 175 b3 = (b4, Some (Inr (-1, ErrOutOfOrderSequenceNumber)))"
    "ready b4 name 0 l3"
    using send(2) [OF 3(2), where corr = 175 and v = "''gap''" and seq = 5] seq(4) 1(3,4) 2(3) 3(3,4) e1 assms(4) by fastforce
  have "idempotent_rounds env now name pd epoch b = (b4, Some (Inr (EndOffset l)))"
    using 1(1,4) 2(1) 3(1) 4(1) by (simp add: idempotent_rounds_def Let_def cbind_def cexpect_def err_code_defs)
  then show ?thesis using that 4(2) 1(4,5) 3(4,5) e1(2) by simp
qed

lemma fetch_ready:
  assumes "ready b name idx l" "sint off = sint (StartOffset l) + int n" "n < length (log_entries l)"
  obtains b' p rs where "fetchPartition now rid name idx off mb b = (b', p)" "fpIndex p = idx" "fpErrorCode p = ErrNone"
    "fpRecords p = concat (map Payload rs)" "prefix rs (drop n (log_entries l))" "rs \<noteq> []"
proof -
  obtain st p where r: "Manager_Log (bLogs b) name idx = (st, Inr l)" "log_inv l" "log_healthy l"
    "partition_at (bTopics b) name idx = Some p"
    using assms(1) by (auto simp: ready_def holds_log_def) (metis prod.collapse)
  have off: "sint (StartOffset l) \<le> sint off" "sint off < sint (EndOffset l)" "0 \<le> sint off"
    using seglog.fin_recs [OF r(2)] seglog.first_nonneg [OF r(2)] assms(2,3) by simp_all
  obtain rs where rs: "Read l off (sint mb) = Inr rs" "prefix rs (drop n (log_entries l))" "rs \<noteq> []"
    using seglog.read_ok [OF r(2,3) off(1)] off(2) assms(2) by auto
  have "off \<noteq> EndOffset l" using off(2) by auto
  then show ?thesis
    using that [OF prod.collapse [symmetric]] fetchPartition_read [OF r(4,1) off(3) _ rs(1), where now = now and rid = rid] off(2) rs
    by simp
qed

lemma length_producer_batch: "0 \<le> sint pd \<Longrightarrow> length (buildRecordBatch v pd epoch s) \<le> 92 + length v"
  using length_encodeRecord [of "client_record v" 0]
  by (simp add: buildRecordBatch_tail producer_tail_def client_record_def bytes_of_def string_bytes_def)

lemma values_of_two:
  assumes "0 \<le> sint pd" "length v < 1000" "length w < 1000"
    and "p = stampOffset i (buildRecordBatch v pd epoch s)" "q = stampOffset j (buildRecordBatch w pd epoch t)"
  shows "decodeRecordSet p = Inr [v]" "decodeRecordSet (p @ q) = Inr [v, w]" "length p < 2000" "length (p @ q) < 4000"
proof -
  have d: "DecodeRecordBatches [] = Inr []" by (simp add: DecodeRecordBatches.simps)
  note v = decode_producer_batch [OF assms(1), of v i epoch s] and w = decode_producer_batch [OF assms(1), of w j epoch t "[]"]
  show "decodeRecordSet p = Inr [v]" "decodeRecordSet (p @ q) = Inr [v, w]"
    using v [of "[]"] v [of q] w assms(2-5) d
    by (simp_all add: decodeRecordSet_def decoded_def client_record_def bytes_of_def)
  have "length p = length (buildRecordBatch v pd epoch s)" "length q = length (buildRecordBatch w pd epoch t)"
    using producer_batch_fields(1) [OF assms(1)] assms(2-5) by simp_all
  then show "length p < 2000" "length (p @ q) < 4000"
    using length_producer_batch [OF assms(1), of v epoch s] length_producer_batch [OF assms(1), of w epoch t] assms(2,3) by simp_all
qed



end
