(* ===== verification/Client_Group.thy ===== *)
theory Client_Group
  imports Client Assignor Group_Properties
begin

text \<open>
  The consumer group part of the command line client (\<open>cmd/testclient/main.go\<close>): joining,
  the leader's plan, its distribution by \<open>SyncGroup\<close>, and the client's check that the plan
  gives every partition to one member.
\<close>

section \<open>Subscriptions and assignments\<close>

record joinGroupMember =
  jmbID :: string
  jmbMetadata :: "bytes option"

record joinGroupResult =
  jgGenerationID :: int32
  jgProtocolName :: string
  jgLeaderID :: string
  jgMemberID :: string
  jgMembers :: "joinGroupMember list"

record syncGroupResult =
  sgMemberID :: string
  sgAssignment :: "bytes option"

record topicAssignment =
  taTopic :: string
  taPartitions :: "int32 list"

definition encodeSubscription :: "string list \<Rightarrow> bytes" where
  "encodeSubscription topics = WriteInt16 0 @ WriteArray WriteString topics @ WriteInt32 (-1)"

definition decodeSubscription :: "bytes \<Rightarrow> go_error + string list" where
  "decodeSubscription b = map_sum id fst
     (dbind ReadInt16 (\<lambda>_.
      dbind (dbind ReadArrayLen (\<lambda>topicCount. dmake topicCount ReadString)) (\<lambda>topics.
      dbind ReadBytes (\<lambda>_.
      dreturn topics))) b)"

definition toTopicAssignments :: "TopicPartitions list \<Rightarrow> topicAssignment list" where
  "toTopicAssignments as = map (\<lambda>a. \<lparr>taTopic = Topic a, taPartitions = Partitions a\<rparr>) as"

definition encodeAssignment_client :: "topicAssignment list \<Rightarrow> bytes" where
  "encodeAssignment_client as = EncodeAssignment (map (\<lambda>a. \<lparr>Topic = taTopic a, Partitions = taPartitions a\<rparr>) as)"

definition decodeAssignment_client :: "bytes \<Rightarrow> go_error + topicAssignment list" where
  "decodeAssignment_client b = map_sum id (map (\<lambda>tp. \<lparr>taTopic = Topic tp, taPartitions = Partitions tp\<rparr>)) (DecodeAssignment b)"

fun subscriptions_of :: "joinGroupMember list \<Rightarrow> go_error + Subscription list" where
  "subscriptions_of [] = Inr []"
| "subscriptions_of (member # ms) =
     (case decodeSubscription (bytes_of (jmbMetadata member)) of
        Inl err \<Rightarrow> Inl err
      | Inr topics \<Rightarrow> map_sum id (Cons \<lparr>MemberID = jmbID member, Topics = topics\<rparr>) (subscriptions_of ms))"

definition buildAssignments ::
    "joinGroupMember list \<Rightarrow> string \<Rightarrow> (string, int32) gomap \<Rightarrow> go_error + (string, bytes) gomap" where
  "buildAssignments members protocolName partitionCounts =
     (case subscriptions_of members of
        Inl err \<Rightarrow> Inl err
      | Inr subs \<Rightarrow>
          (let plan = (\<lambda>assigned. Inr (fold (\<lambda>member. mput (jmbID member)
                        (encodeAssignment_client (toTopicAssignments (entry_of assigned (jmbID member))))) members []))
           in if protocolName = ''range'' then plan (Range subs partitionCounts)
              else if protocolName = ''roundrobin'' then plan (RoundRobin subs partitionCounts)
              else Inl ErrUnexpected))"

text \<open>
  The check of the handed out assignments: \<open>seen\<close> maps each partition to its member, and a
  partition that is already there ends the client.
\<close>

definition claim_partition :: "string \<Rightarrow> int32 \<Rightarrow> (int32, string) gomap \<Rightarrow> go_error + (int32, string) gomap" where
  "claim_partition memberID pt seen =
     (if map_of seen pt \<noteq> None then Inl ErrUnexpected else Inr (mput pt memberID seen))"

definition claim_topic :: "string \<Rightarrow> string \<Rightarrow> topicAssignment \<Rightarrow> (int32, string) gomap \<Rightarrow> go_error + (int32, string) gomap" where
  "claim_topic topicName memberID assignment seen =
     (if taTopic assignment \<noteq> topicName then Inl ErrUnexpected
      else foldE (claim_partition memberID) (taPartitions assignment) seen)"

definition claim_member :: "string \<Rightarrow> string \<times> bytes \<Rightarrow> (int32, string) gomap \<Rightarrow> go_error + (int32, string) gomap" where
  "claim_member topicName ma seen =
     (case decodeAssignment_client (snd ma) of
        Inl err \<Rightarrow> Inl err
      | Inr as \<Rightarrow> foldE (claim_topic topicName (fst ma)) as seen)"

definition assertConsumerGroupAssignments :: "(string, bytes) gomap \<Rightarrow> string \<Rightarrow> int32 \<Rightarrow> go_error + unit" where
  "assertConsumerGroupAssignments assignments topicName partitionCount =
     (case foldE (claim_member topicName) assignments [] of
        Inl err \<Rightarrow> Inl err
      | Inr seen \<Rightarrow>
          (if list_all (\<lambda>pt. map_of seen pt \<noteq> None) (contiguousPartitions 0 partitionCount) then Inr ()
           else Inl ErrUnexpected))"

definition partitionsForAssignment :: "bytes \<Rightarrow> string \<Rightarrow> go_error + int32 list" where
  "partitionsForAssignment assignmentBytes topicName =
     map_sum id (\<lambda>as. concat (map taPartitions (filter (\<lambda>a. taTopic a = topicName) as))) (decodeAssignment_client assignmentBytes)"

definition equalPartitionMap :: "(string, int32 list) gomap \<Rightarrow> (string, int32 list) gomap \<Rightarrow> bool" where
  "equalPartitionMap a b \<longleftrightarrow> length a = length b \<and> list_all (\<lambda>(memberID, ps). map_of b memberID = Some ps) a"

section \<open>Requests\<close>

definition join_header :: "string \<Rightarrow> int32 \<Rightarrow> RequestHeader" where
  "join_header clientID corr = \<lparr>APIKey = 11, APIVersion = 0, CorrelationID = corr, ClientID = Some clientID\<rparr>"

definition read_join_member :: "joinGroupMember decoder" where
  "read_join_member =
     dbind ReadString (\<lambda>mid. dbind ReadBytes (\<lambda>metadata. dreturn \<lparr>jmbID = mid, jmbMetadata = metadata\<rparr>))"

definition read_join_response :: "joinGroupResult decoder" where
  "read_join_response =
     dbind ReadInt16 (\<lambda>errorCode.
     dbind ReadInt32 (\<lambda>generationID.
     dbind ReadString (\<lambda>protocolName.
     dbind ReadString (\<lambda>leaderID.
     dbind ReadString (\<lambda>resolvedMemberID.
     dbind ReadArrayLen (\<lambda>memberCount.
     dbind (expect (errorCode = 0)) (\<lambda>_.
     dbind (dmake memberCount read_join_member) (\<lambda>members.
     dreturn \<lparr>jgGenerationID = generationID, jgProtocolName = protocolName, jgLeaderID = leaderID,
       jgMemberID = resolvedMemberID, jgMembers = members\<rparr>))))))))"

definition checkJoinGroupWithProtocols ::
    "(BrokerNode \<Rightarrow> BrokerNode) \<Rightarrow> int \<Rightarrow> string \<Rightarrow> string \<Rightarrow> string \<Rightarrow> int32 \<Rightarrow> int32 \<Rightarrow> string list \<Rightarrow> string list
     \<Rightarrow> BrokerNode \<Rightarrow> BrokerNode \<times> (go_error + joinGroupResult) option" where
  "checkJoinGroupWithProtocols env now groupID clientID memberID sessionTimeoutMS corr topics protocols =
     client_call env now (join_header clientID corr)
       (WriteString groupID @ WriteInt32 sessionTimeoutMS @ WriteString memberID @ WriteString ''consumer''
        @ WriteArray (\<lambda>protocolName. WriteString protocolName @ WriteBytes (encodeSubscription topics)) protocols)
       read_join_response"

definition checkJoinGroup ::
    "(BrokerNode \<Rightarrow> BrokerNode) \<Rightarrow> int \<Rightarrow> string \<Rightarrow> string \<Rightarrow> string \<Rightarrow> int32 \<Rightarrow> int32 \<Rightarrow> string list
     \<Rightarrow> BrokerNode \<Rightarrow> BrokerNode \<times> (go_error + joinGroupResult) option" where
  "checkJoinGroup env now groupID clientID memberID sessionTimeoutMS corr topics =
     checkJoinGroupWithProtocols env now groupID clientID memberID sessionTimeoutMS corr topics [''range'', ''roundrobin'']"

definition checkSyncGroup ::
    "(BrokerNode \<Rightarrow> BrokerNode) \<Rightarrow> int \<Rightarrow> string \<Rightarrow> int32 \<Rightarrow> string \<Rightarrow> (string, bytes) gomap \<Rightarrow> int32
     \<Rightarrow> BrokerNode \<Rightarrow> BrokerNode \<times> (go_error + syncGroupResult) option" where
  "checkSyncGroup env now groupID generationID memberID assignments corr =
     client_call env now (client_header 14 0 corr)
       (WriteString groupID @ WriteInt32 generationID @ WriteString memberID
        @ WriteArray (\<lambda>(assignmentMemberID, assignment). WriteString assignmentMemberID @ WriteBytes assignment) assignments)
       (dbind ReadInt16 (\<lambda>errorCode.
        dbind ReadBytes (\<lambda>assignment.
        dbind (expect (errorCode = 0)) (\<lambda>_.
        dreturn \<lparr>sgMemberID = memberID, sgAssignment = assignment\<rparr>))))"

text \<open>The other members fetch their assignments one after the other, with no plan of their own.\<close>

fun sync_members ::
    "(BrokerNode \<Rightarrow> BrokerNode) \<Rightarrow> int \<Rightarrow> string \<Rightarrow> int32 \<Rightarrow> int32 \<Rightarrow> string list
     \<Rightarrow> BrokerNode \<Rightarrow> BrokerNode \<times> (go_error + (string, bytes) gomap) option" where
  "sync_members env now gid gen corr [] = (\<lambda>b. (b, Some (Inr [])))"
| "sync_members env now gid gen corr (k # ks) =
     cbind (checkSyncGroup env now gid gen k [] corr) (\<lambda>r.
     cbind (sync_members env now gid gen corr ks) (\<lambda>rs b.
     (b, Some (Inr ((sgMemberID r, bytes_of (sgAssignment r)) # rs)))))"

section \<open>The leader's plan\<close>

lemma decodeSubscription_encode:
  assumes "list_all (\<lambda>t. length t < 2 ^ 15) topics" "length topics < 2 ^ 31"
  shows "decodeSubscription (encodeSubscription topics) = Inr topics"
proof -
  have "ReadArray ReadString (WriteArray WriteString topics @ WriteInt32 (-1)) = Inr (topics, WriteInt32 (-1))"
    by (rule string_codec.array_enc [OF assms])
  moreover have "ReadBytes (WriteInt32 (-1)) = Inr (None, [])" by code_simp
  ultimately show ?thesis
    by (simp add: decodeSubscription_def encodeSubscription_def codec_rt flip: ReadArray_def)
qed

lemma decodeAssignment_encode:
  assumes "single t asg" "length t < 2 ^ 15" "length (assigned asg m t) < 2 ^ 31"
  shows "decodeAssignment_client (encodeAssignment_client (toTopicAssignments (entry_of asg m)))
    = Inr (toTopicAssignments (entry_of asg m))"
proof -
  have "list_all (\<lambda>a. length (Topic a) < 2 ^ 15 \<and> length (Partitions a) < 2 ^ 31) (entry_of asg m)" "length (entry_of asg m) < 2 ^ 31"
    using assms spec [OF assms(1) [unfolded single_def], of m] by (auto simp: assigned_def)
  from topic_partitions_codec.array_enc [OF this, of "WriteInt32 (-1)"]
  have "DecodeAssignment (EncodeAssignment (entry_of asg m)) = Inr (entry_of asg m)"
    by (simp add: DecodeAssignment_def EncodeAssignment_def codec_rt)
  moreover have "map (\<lambda>x. \<lparr>Topic = Topic x, Partitions = Partitions x\<rparr>) as = as" for as :: "TopicPartitions list"
    by (rule map_idI) simp
  ultimately show ?thesis
    by (simp add: decodeAssignment_client_def encodeAssignment_client_def toTopicAssignments_def comp_def)
qed

lemma foldE_claims:
  assumes "distinct ps" "set ps \<inter> dom (map_of seen) = {}"
  shows "\<exists>seen'. foldE (claim_partition mid) ps seen = Inr seen' \<and> dom (map_of seen') = dom (map_of seen) \<union> set ps"
  using assms
proof (induction ps arbitrary: seen)
  case (Cons p ps)
  have d: "dom (map_of (mput p mid seen)) = insert p (dom (map_of seen))" by simp
  then have "set ps \<inter> dom (map_of (mput p mid seen)) = {}" using Cons.prems by (simp only:) auto
  then obtain seen' where "foldE (claim_partition mid) ps (mput p mid seen) = Inr seen'"
    "dom (map_of seen') = dom (map_of (mput p mid seen)) \<union> set ps"
    using Cons.IH [of "mput p mid seen"] Cons.prems(1) by (auto simp only: distinct.simps)
  moreover have "claim_partition mid p seen = Inr (mput p mid seen)" using Cons.prems(2) by (auto simp: claim_partition_def)
  ultimately show ?case using d by (auto simp del: map_of_mput)
qed simp

lemma claim_single:
  assumes "single t asg" "length t < 2 ^ 15" "length (assigned asg m t) < 2 ^ 31"
    and "distinct (assigned asg m t)" "set (assigned asg m t) \<inter> dom (map_of seen) = {}"
  shows "\<exists>seen'. claim_member t (mid, encodeAssignment_client (toTopicAssignments (entry_of asg m))) seen = Inr seen'
    \<and> dom (map_of seen') = dom (map_of seen) \<union> set (assigned asg m t)"
proof -
  note d = decodeAssignment_encode [OF assms(1-3)]
  from assms(1) have "entry_of asg m = [] \<or> (\<exists>ps. entry_of asg m = [\<lparr>Topic = t, Partitions = ps\<rparr>])" by (simp add: single_def)
  then show ?thesis
  proof (elim disjE exE)
    assume "entry_of asg m = []"
    then show ?thesis using d by (simp add: claim_member_def toTopicAssignments_def assigned_def)
  next
    fix ps assume e: "entry_of asg m = [\<lparr>Topic = t, Partitions = ps\<rparr>]"
    then have "assigned asg m t = ps" by (simp add: assigned_def)
    then show ?thesis
      using foldE_claims [of ps seen mid] assms(4,5) d e
      by (auto simp: claim_member_def toTopicAssignments_def claim_topic_def)
  qed
qed

lemma foldE_members:
  assumes "single t asg" "length t < 2 ^ 15" "length (concat (map (\<lambda>m. assigned asg m t) ms)) < 2 ^ 31"
    and "distinct (concat (map (\<lambda>m. assigned asg m t) ms))"
    and "set (concat (map (\<lambda>m. assigned asg m t) ms)) \<inter> dom (map_of seen) = {}"
  shows "\<exists>seen'. foldE (claim_member t) (map (\<lambda>m. (m, encodeAssignment_client (toTopicAssignments (entry_of asg m)))) ms) seen = Inr seen'
    \<and> dom (map_of seen') = dom (map_of seen) \<union> set (concat (map (\<lambda>m. assigned asg m t) ms))"
  using assms(3-5)
proof (induction ms arbitrary: seen)
  case (Cons m ms)
  obtain seen1 where 1: "claim_member t (m, encodeAssignment_client (toTopicAssignments (entry_of asg m))) seen = Inr seen1"
    "dom (map_of seen1) = dom (map_of seen) \<union> set (assigned asg m t)"
    using claim_single [OF assms(1,2), of m seen m] Cons.prems by auto
  have "set (concat (map (\<lambda>m. assigned asg m t) ms)) \<inter> dom (map_of seen1) = {}"
    using Cons.prems(2,3) by (auto simp: 1(2))
  then show ?case using Cons.IH [of seen1] Cons.prems(1,2) 1 by auto
qed simp

lemma mput_new: "k \<notin> set (mkeys m) \<Longrightarrow> mput k v m = m @ [(k, v)]"
  by (induction m) auto

lemma fold_mput_new:
  "distinct (map fst xs) \<Longrightarrow> set (map fst xs) \<inter> set (mkeys m) = {} \<Longrightarrow> fold (\<lambda>(k, v). mput k v) xs m = m @ xs"
proof (induction xs arbitrary: m)
  case (Cons x xs)
  have "mput (fst x) (snd x) m = m @ [x]" using Cons.prems(2) by (simp add: mput_new)
  then show ?case using Cons by (cases x) auto
qed simp

definition plan_of :: "assignments \<Rightarrow> string list \<Rightarrow> (string, bytes) gomap" where
  "plan_of asg ids = map (\<lambda>m. (m, encodeAssignment_client (toTopicAssignments (entry_of asg m)))) ids"

lemma subscriptions_of_one:
  assumes "length t < 2 ^ 15" "\<forall>m \<in> set members. jmbMetadata m = Some (encodeSubscription [t])"
  shows "subscriptions_of members = Inr (map (\<lambda>m. \<lparr>MemberID = jmbID m, Topics = [t]\<rparr>) members)"
  using assms(2)
proof (induction members)
  case (Cons m ms)
  then show ?case using decodeSubscription_encode [of "[t]"] assms(1) by (simp add: bytes_of_def)
qed simp

text \<open>The plan of the leader's client, whatever the strategy: one for each member, and it passes the check in any order.\<close>

lemma leader_plan:
  assumes "distinct (map jmbID members)" "members \<noteq> []" "length members < 2 ^ 31"
    and "\<forall>m \<in> set members. jmbMetadata m = Some (encodeSubscription [t])" "length t < 2 ^ 15" "0 \<le> sint n"
    and "protocolName \<in> {''range'', ''roundrobin''}"
  obtains asg where "buildAssignments members protocolName [(t, n)] = Inr (plan_of asg (map jmbID members))" "single t asg"
    "mset (concat (map (\<lambda>m. assigned asg m t) (map jmbID members))) = mset (contiguousPartitions 0 n)"
proof -
  let ?subs = "map (\<lambda>m. \<lparr>MemberID = jmbID m, Topics = [t]\<rparr>) members"
  define asg where "asg = (if protocolName = ''range'' then Range ?subs [(t, n)] else RoundRobin ?subs [(t, n)])"
  have ids: "map MemberID ?subs = map jmbID members" by simp
  have plan: "fold (\<lambda>member. mput (jmbID member) (encodeAssignment_client (toTopicAssignments (entry_of a (jmbID member))))) members []
      = plan_of a (map jmbID members)" for a
    using fold_mput_new [of "plan_of a (map jmbID members)" "[]"] assms(1) by (simp add: plan_of_def fold_map comp_def)
  have "buildAssignments members protocolName [(t, n)] = Inr (plan_of asg (map jmbID members))"
    using assms(7) by (auto simp: buildAssignments_def subscriptions_of_one [OF assms(5,4)] asg_def plan Let_def)
  moreover have "asg \<in> {Range ?subs [(t, n)], RoundRobin ?subs [(t, n)]}" by (simp add: asg_def)
  note one_topic_plan [OF _ _ _ _ assms(6) this, unfolded ids] 
  ultimately show ?thesis using that [of asg] assms(1-3) by (simp add: subscribesTo_def)
qed

lemma plan_of_passes:
  assumes "single t asg" "length t < 2 ^ 15" "mset (concat (map (\<lambda>m. assigned asg m t) ids)) = mset (contiguousPartitions 0 n)"
    and "mset ids' = mset ids"
  shows "assertConsumerGroupAssignments (plan_of asg ids') t n = Inr ()"
proof -
  let ?ps = "concat (map (\<lambda>m. assigned asg m t) ids')"
  have perm: "mset ?ps = mset (contiguousPartitions 0 n)" using mset_concat_perm [OF assms(4)] assms(3) by metis
  have "length ?ps = nat (sint n)" using mset_eq_length [OF perm] by (simp add: contiguousPartitions_def)
  then have "length ?ps < 2 ^ 31" using sint_range_32(2) [of n] by simp
  moreover have "distinct ?ps" using mset_eq_imp_distinct_iff [OF perm] set_contiguous(2) [of 0 n] by simp
  ultimately obtain seen where "foldE (claim_member t) (plan_of asg ids') [] = Inr seen" "dom (map_of seen) = set ?ps"
    using foldE_members [OF assms(1,2), of ids' "[]"] by (auto simp: plan_of_def)
  moreover have "set ?ps = set (contiguousPartitions 0 n)" using perm by (rule mset_eq_setD)
  ultimately show ?thesis by (auto simp: assertConsumerGroupAssignments_def list_all_iff domIff simp flip: domIff)
qed

lemma plan_length:
  assumes "single t asg" "length t < 2 ^ 15" "length (assigned asg m t) < 2 ^ 28"
  shows "length (encodeAssignment_client (toTopicAssignments (entry_of asg m))) < 2 ^ 31"
proof -
  have "length (concat (map WriteInt32 ps)) = 4 * length ps" for ps by (induction ps) (simp_all add: WriteInt32_def)
  moreover from assms(1) have "entry_of asg m = [] \<or> (\<exists>ps. entry_of asg m = [\<lparr>Topic = t, Partitions = ps\<rparr>])"
    by (simp add: single_def)
  ultimately show ?thesis
    using assms(2,3)
    by (auto simp: encodeAssignment_client_def toTopicAssignments_def EncodeAssignment_def WriteArray_def write_topic_partitions_def
        WriteArrayLen_def WriteInt32_def WriteInt16_def WriteString_def assigned_def string_bytes_def)
qed

section \<open>Over the wire\<close>

lemma read_sync_write:
  assumes "length gid < 2 ^ 15" "length mid < 2 ^ 15" "length as < 2 ^ 31" "distinct (mkeys as)"
    and "\<forall>(k, v) \<in> set as. length k < 2 ^ 15 \<and> length v < 2 ^ 31"
  shows "read_sync (WriteString gid @ WriteInt32 gen @ WriteString mid
      @ WriteArray (\<lambda>(k, v). WriteString k @ WriteBytes v) as)
    = Inr (\<lparr>srGroupID = gid, srGenerationID = gen, srMemberID = mid, srAssignments = map (\<lambda>(k, v). (k, Some v)) as\<rparr>, [])"
proof -
  have "dtimes (length as) (dbind ReadString (\<lambda>mid. dbind ReadBytes (\<lambda>a. dreturn (mid, a))))
      (concat (map (\<lambda>(k, v). WriteString k @ WriteBytes v) as) @ []) = Inr (map (\<lambda>(k, v). (k, Some v)) as, [])"
    using assms(5) by (intro dtimes_map) (auto simp: codec_rt)
  moreover have "ReadArrayLen (WriteArrayLen (int (length as)) @ rest) = Inr (int (length as), rest)" for rest
    using assms(3) by (simp add: codec_rt)
  moreover have "fold (\<lambda>(k, v). mput k v) (map (\<lambda>(k, v). (k, Some v)) as) [] = map (\<lambda>(k, v). (k, Some v)) as"
    using fold_mput_new [of "map (\<lambda>(k, v). (k, Some v)) as" "[]"] assms(4) by (simp add: comp_def case_prod_beta)
  ultimately have "readSyncGroupAssignments (WriteArray (\<lambda>(k, v). WriteString k @ WriteBytes v) as)
      = Inr (map (\<lambda>(k, v). (k, Some v)) as, [])"
    by (simp add: readSyncGroupAssignments_def WriteArray_def dbind_apply)
  then show ?thesis using assms(1,2) by (simp add: read_sync_def codec_rt)
qed

lemma checkSyncGroup_returned:
  assumes "length gid < 2 ^ 15" "length mid < 2 ^ 15" "length as < 2 ^ 31" "distinct (mkeys as)"
    and "\<forall>(k, v) \<in> set as. length k < 2 ^ 15 \<and> length v < 2 ^ 31"
    and "Sync (bGroups b) \<lparr>srGroupID = gid, srGenerationID = gen, srMemberID = mid, srAssignments = map (\<lambda>(k, v). (k, Some v)) as\<rparr>
      = (c, Returned \<lparr>syAssignment = Some a, syErrorCode = ErrNone\<rparr>)" "length a < 2 ^ 31"
  shows "checkSyncGroup env now gid gen mid as corr b
    = (b\<lparr>bGroups := c\<rparr>, Some (Inr \<lparr>sgMemberID = mid, sgAssignment = Some a\<rparr>))"
  unfolding checkSyncGroup_def
  by (subst client_call_handler [where handler = "handleSyncGroup env"])
    (use assms read_sync_write [OF assms(1-5), of gen] in
      \<open>auto simp: dispatchTable_def internalApplyTopicKey_def InternalPingKey_def InternalFetchMetadataLogKey_def
        handleSyncGroup_def write_sync_result_def bytes_of_def codec_rt read_last err_code_defs\<close>)

section \<open>A generation with its plan\<close>

definition stable_plan :: "Coordinator \<Rightarrow> string \<Rightarrow> int32 \<Rightarrow> string \<Rightarrow> (string \<Rightarrow> bytes) \<Rightarrow> string set \<Rightarrow> bool" where
  "stable_plan c gid gen leader plan ids \<longleftrightarrow> (\<exists>g. map_of (groups c) gid = Some g \<and> gID g = gid \<and> gState g = Stable
     \<and> GenerationID g = gen \<and> LeaderID g = leader
     \<and> (\<forall>k \<in> ids. \<exists>m. map_of (Members g) k = Some m \<and> mAssignment m = Some (plan k)))"

lemma leader_Sync_plan:
  assumes "coord_inv c" "map_of (groups c) gid = Some g" "map_of (Members g) (LeaderID g) = Some l"
    and "\<forall>k \<in> ids. map_of (Members g) k \<noteq> None" "\<forall>k \<in> ids. map_of as k = Some (Some (plan k))" "LeaderID g \<in> ids"
  obtains c' where "Sync c \<lparr>srGroupID = gid, srGenerationID = GenerationID g, srMemberID = LeaderID g, srAssignments = as\<rparr>
      = (c', Returned \<lparr>syAssignment = Some (plan (LeaderID g)), syErrorCode = ErrNone\<rparr>)"
    "stable_plan c' gid (GenerationID g) (LeaderID g) plan ids"
proof -
  let ?s = "touch_members (mkeys (Members g)) ((assign_members as g)\<lparr>gState := Stable\<rparr>)"
  let ?c = "fold (\<lambda>w. if mID w = mID l then id else send_sync (awaitSync w) (sync_ok w)) (map snd (Members ?s)) (put_group ?s c)"
  note g = group_okD [OF assms(1,2)]
  have mem: "\<exists>x. map_of (Members ?s) k = Some x \<and> mAssignment x = Some (plan k)" if k: "k \<in> ids" for k
  proof -
    obtain m where m: "map_of (Members g) k = Some m" using assms(4) k by blast
    then show ?thesis using assms(5) k imageI [OF map_of_SomeD [OF m], of fst] by (simp add: map_of_touch map_of_assign)
  qed
  have grp: "map_of (groups ?c) gid = Some ?s"
    using fold_send_sync_fields [of "\<lambda>w. mID w = mID l" awaitSync sync_ok "map snd (Members ?s)" "put_group ?s c"] g(1)
    by (simp add: put_group_def)
  obtain l' where l': "map_of (Members ?s) (LeaderID g) = Some l'" "mAssignment l' = Some (plan (LeaderID g))"
    using mem assms(6) by blast
  have "Sync c \<lparr>srGroupID = gid, srGenerationID = GenerationID g, srMemberID = LeaderID g, srAssignments = as\<rparr> = (?c, Returned (sync_ok l'))"
    using assms(2,3) l'(1) by (simp add: Sync_def Let_def)
  moreover have "stable_plan ?c gid (GenerationID g) (LeaderID g) plan ids"
    using grp mem g(1) by (simp add: stable_plan_def)
  ultimately show ?thesis using that l'(2) by (simp add: sync_ok_def)
qed

lemma member_Sync_plan:
  assumes "stable_plan c gid gen leader plan ids" "k \<in> ids" "k \<noteq> leader"
  obtains c' where "Sync c \<lparr>srGroupID = gid, srGenerationID = gen, srMemberID = k, srAssignments = as\<rparr>
      = (c', Returned \<lparr>syAssignment = Some (plan k), syErrorCode = ErrNone\<rparr>)" "stable_plan c' gid gen leader plan ids"
proof -
  obtain g where g: "map_of (groups c) gid = Some g" "gID g = gid" "gState g = Stable" "GenerationID g = gen" "LeaderID g = leader"
    "\<forall>k \<in> ids. \<exists>m. map_of (Members g) k = Some m \<and> mAssignment m = Some (plan k)"
    using assms(1) unfolding stable_plan_def by blast
  obtain m where m: "map_of (Members g) k = Some m" "mAssignment m = Some (plan k)" using g(6) assms(2) by blast
  have "\<forall>j \<in> ids. \<exists>x. map_of (Members (touch_members [k] g)) j = Some x \<and> mAssignment x = Some (plan j)"
    using g(6) by (fastforce simp: map_of_touch)
  then have "stable_plan (put_group (touch_members [k] g) c) gid gen leader plan ids"
    using g(2-5) by (simp add: stable_plan_def put_group_def)
  then show ?thesis using that g m assms(3) by (simp add: Sync_def sync_ok_def)
qed

lemma sync_members_plan:
  assumes "stable_plan (bGroups b) gid gen leader plan ids" "set ks \<subseteq> ids - {leader}"
    and "length gid < 2 ^ 15" "\<forall>k \<in> set ks. length k < 2 ^ 15 \<and> length (plan k) < 2 ^ 31"
  obtains b' where "sync_members env now gid gen corr ks b = (b', Some (Inr (map (\<lambda>k. (k, plan k)) ks)))"
    "stable_plan (bGroups b') gid gen leader plan ids"
  using assms(1,2,4)
proof (induction ks arbitrary: b thesis)
  case Nil
  then show ?case by simp
next
  case (Cons k ks)
  have k: "k \<in> ids" "k \<noteq> leader" using Cons.prems(3) by auto
  obtain c' where c': "Sync (bGroups b) \<lparr>srGroupID = gid, srGenerationID = gen, srMemberID = k, srAssignments = []\<rparr>
      = (c', Returned \<lparr>syAssignment = Some (plan k), syErrorCode = ErrNone\<rparr>)" "stable_plan c' gid gen leader plan ids"
    by (rule member_Sync_plan [OF Cons.prems(2) k])
  have one: "checkSyncGroup env now gid gen k [] corr b
      = (b\<lparr>bGroups := c'\<rparr>, Some (Inr \<lparr>sgMemberID = k, sgAssignment = Some (plan k)\<rparr>))"
    using checkSyncGroup_returned [OF assms(3), of k "[]" b gen c' "plan k"] c'(1) Cons.prems(4) by simp
  obtain b' where "sync_members env now gid gen corr ks (b\<lparr>bGroups := c'\<rparr>) = (b', Some (Inr (map (\<lambda>k. (k, plan k)) ks)))"
    "stable_plan (bGroups b') gid gen leader plan ids"
    using Cons.IH [of "b\<lparr>bGroups := c'\<rparr>"] c'(2) Cons.prems(3,4) by auto
  then show ?case using Cons.prems(1) one by (simp add: cbind_def bytes_of_def)
qed

lemma plan_small:
  assumes "single t asg" "length t < 2 ^ 15" "mset (concat (map (\<lambda>m. assigned asg m t) ids)) = mset (contiguousPartitions 0 n)"
    and "k \<in> set ids" "sint n < 2 ^ 28"
  shows "length (encodeAssignment_client (toTopicAssignments (entry_of asg k))) < 2 ^ 31"
proof -
  obtain ys zs where "ids = ys @ k # zs" using split_list [OF assms(4)] by blast
  then have "length (assigned asg k t) \<le> length (concat (map (\<lambda>m. assigned asg m t) ids))" by simp
  also have "\<dots> < 2 ^ 28" using mset_eq_length [OF assms(3)] assms(5) by (simp add: contiguousPartitions_def)
  finally show ?thesis using plan_length [OF assms(1,2)] by blast
qed

lemma plan_named: "k \<in> set ids \<Longrightarrow> map_of (map (\<lambda>(k, v). (k, Some v)) (plan_of asg ids)) k
    = Some (Some (encodeAssignment_client (toTopicAssignments (entry_of asg k))))"
proof -
  assume "k \<in> set ids"
  moreover have "map (\<lambda>(k, v). (k, Some v)) (plan_of asg ids)
      = map (\<lambda>k. (k, Some (encodeAssignment_client (toTopicAssignments (entry_of asg k))))) ids" by (simp add: plan_of_def)
  ultimately show ?thesis by (simp only: map_of_map_restrict) simp
qed

lemma plan_delivered:
  assumes "coord_inv (bGroups b)" "map_of (groups (bGroups b)) gid = Some g"
    and "distinct (map jmbID members)" "set (map jmbID members) = set (mkeys (Members g))"
    and "\<forall>m \<in> set members. jmbMetadata m = Some (encodeSubscription [t]) \<and> length (jmbID m) < 2 ^ 15"
    and "mset (LeaderID g # ks) = mset (map jmbID members)" "protocolName \<in> {''range'', ''roundrobin''}"
    and "0 \<le> sint n" "sint n < 2 ^ 28" "length t < 2 ^ 15" "length gid < 2 ^ 15" "length members < 2 ^ 31"
  shows "\<exists>as b' results. buildAssignments members protocolName [(t, n)] = Inr as
    \<and> cbind (checkSyncGroup env now gid (GenerationID g) (LeaderID g) as corr) (\<lambda>r.
        cbind (sync_members env now gid (GenerationID g) corr' ks) (\<lambda>rs b.
        (b, Some (Inr ((sgMemberID r, bytes_of (sgAssignment r)) # rs))))) b = (b', Some (Inr results))
    \<and> map fst results = LeaderID g # ks
    \<and> assertConsumerGroupAssignments results t n = Inr ()"
proof -
  let ?ids = "map jmbID members"
  have ne: "members \<noteq> []" using assms(6) by auto
  obtain asg where asg: "buildAssignments members protocolName [(t, n)] = Inr (plan_of asg ?ids)" "single t asg"
    "mset (concat (map (\<lambda>m. assigned asg m t) ?ids)) = mset (contiguousPartitions 0 n)"
    using leader_plan [OF assms(3) ne assms(12) _ assms(10,8,7)] assms(5) by blast
  define plan where "plan = (\<lambda>m. encodeAssignment_client (toTopicAssignments (entry_of asg m)))"
  have plan: "plan_of asg xs = map (\<lambda>m. (m, plan m)) xs" for xs by (simp add: plan_of_def plan_def)
  have small: "length (plan k) < 2 ^ 31" if "k \<in> set ?ids" for k
    unfolding plan_def using plan_small [OF asg(2) assms(10) asg(3) that] assms(9) by simp
  have ids: "set (LeaderID g # ks) = set ?ids" "distinct (LeaderID g # ks)"
    using mset_eq_setD [OF assms(6)] mset_eq_imp_distinct_iff [OF assms(6)] assms(3) by simp_all
  have mem: "\<forall>k \<in> set ?ids. map_of (Members g) k \<noteq> None" using assms(4) by (simp add: map_of_eq_None_iff)
  have lid: "LeaderID g \<in> set ?ids" using ids(1) by (metis list.set_intros(1))
  then obtain l where l: "map_of (Members g) (LeaderID g) = Some l" using mem by blast
  have named: "map_of (map (\<lambda>(k, v). (k, Some v)) (plan_of asg ?ids)) k = Some (Some (plan k))" if "k \<in> set ?ids" for k
    unfolding plan_def using that by (rule plan_named)
  obtain c' where c': "Sync (bGroups b) \<lparr>srGroupID = gid, srGenerationID = GenerationID g, srMemberID = LeaderID g,
      srAssignments = map (\<lambda>(k, v). (k, Some v)) (plan_of asg ?ids)\<rparr>
      = (c', Returned \<lparr>syAssignment = Some (plan (LeaderID g)), syErrorCode = ErrNone\<rparr>)"
    "stable_plan c' gid (GenerationID g) (LeaderID g) plan (set ?ids)"
    using leader_Sync_plan [OF assms(1) assms(2) l mem, of "map (\<lambda>(k, v). (k, Some v)) (plan_of asg ?ids)" plan]
      named lid by blast
  have names: "length k < 2 ^ 15" if "k \<in> set ?ids" for k using that assms(5) by auto
  have lead: "checkSyncGroup env now gid (GenerationID g) (LeaderID g) (plan_of asg ?ids) corr b
      = (b\<lparr>bGroups := c'\<rparr>, Some (Inr \<lparr>sgMemberID = LeaderID g, sgAssignment = Some (plan (LeaderID g))\<rparr>))"
    by (rule checkSyncGroup_returned [OF assms(11) _ _ _ _ c'(1)])
      (use ids(1) names small assms(3,12) in \<open>auto simp: plan comp_def\<close>)
  have ks: "set ks \<subseteq> set ?ids - {LeaderID g}" using ids by (metis Diff_insert_absorb distinct.simps(2) list.simps(15) order_refl)
  have st: "stable_plan (bGroups (b\<lparr>bGroups := c'\<rparr>)) gid (GenerationID g) (LeaderID g) plan (set ?ids)" using c'(2) by simp
  have sm: "\<forall>k \<in> set ks. length k < 2 ^ 15 \<and> length (plan k) < 2 ^ 31" using ks names small by blast
  obtain b' where "sync_members env now gid (GenerationID g) corr' ks (b\<lparr>bGroups := c'\<rparr>) = (b', Some (Inr (map (\<lambda>k. (k, plan k)) ks)))"
    by (rule sync_members_plan [OF st ks assms(11) sm])
  moreover have "assertConsumerGroupAssignments (plan_of asg (LeaderID g # ks)) t n = Inr ()"
    by (rule plan_of_passes [OF asg(2) assms(10) asg(3) assms(6)])
  ultimately show ?thesis
    using asg(1) lead by (auto simp: cbind_def bytes_of_def plan comp_def)
qed

lemma read_join_written:
  assumes "resErrorCode r = ErrNone" "length (resProtocol r) < 2 ^ 15" "length (resLeaderID r) < 2 ^ 15" "length (resMemberID r) < 2 ^ 15"
    and "length (resMembers r) < 2 ^ 31"
    and "\<forall>m \<in> set (resMembers r). length (jmID m) < 2 ^ 15 \<and> (\<exists>md. jmMetadata m = Some md \<and> length md < 2 ^ 31)"
  shows "read_join_response (write_join_result r) = Inr (\<lparr>jgGenerationID = resGenerationID r, jgProtocolName = resProtocol r,
      jgLeaderID = resLeaderID r, jgMemberID = resMemberID r,
      jgMembers = map (\<lambda>m. \<lparr>jmbID = jmID m, jmbMetadata = jmMetadata m\<rparr>) (resMembers r)\<rparr>, [])"
proof -
  have "dtimes (length (resMembers r)) read_join_member
      (concat (map (\<lambda>m. WriteString (jmID m) @ WriteBytes (bytes_of (jmMetadata m))) (resMembers r)) @ [])
      = Inr (map (\<lambda>m. \<lparr>jmbID = jmID m, jmbMetadata = jmMetadata m\<rparr>) (resMembers r), [])"
    using assms(6) by (intro dtimes_map) (fastforce simp: read_join_member_def codec_rt bytes_of_def)
  moreover have "ReadArrayLen (WriteArrayLen (int (length (resMembers r))) @ rest) = Inr (int (length (resMembers r)), rest)" for rest
    using assms(5) by (simp add: codec_rt)
  ultimately show ?thesis
    using assms(1-4) by (simp add: read_join_response_def write_join_result_def WriteArray_def codec_rt dmake_def err_code_defs)
qed

lemma joined_ids: "members_ok g \<Longrightarrow> map mID (joined g) = JoinOrder g"
proof -
  assume ok: "members_ok g"
  have "mID m = k" if "map_of (Members g) k = Some m" for k m
    using map_of_SomeD [OF that] ok by (auto simp: members_ok_def)
  moreover have "\<forall>k \<in> set (JoinOrder g). map_of (Members g) k \<noteq> None"
    using ok by (simp add: members_ok_def map_of_eq_None_iff)
  ultimately have "map mID (List.map_filter (map_of (Members g)) ks) = ks" if "set ks \<subseteq> set (JoinOrder g)" for ks
    using that by (induction ks) (auto split: option.splits)
  then show ?thesis by (simp add: joined_def)
qed


text \<open>Two clients in a group, after the rebalance delay.\<close>

definition demo_member :: "string \<Rightarrow> JoinRequest" where
  "demo_member mid = (demo_join ''g'' mid)\<lparr>jrProtocols :=
     [\<lparr>ProtocolName = ''roundrobin'', ProtocolMetadata = Some (encodeSubscription [''t''])\<rparr>]\<rparr>"

definition demo_joining :: Coordinator where
  "demo_joining = fst (Join (fst (Join (NewCoordinator 100) (demo_member ''a''))) (demo_member ''b''))"

definition demo_group :: Coordinator where
  "demo_group = run_callback (fire_join demo_joining 2) (CompleteJoin ''g'')"

lemma demo_group_reach: "coord_reach 100 demo_group"
proof -
  have "coord_reach 100 demo_joining" unfolding demo_joining_def by (intro reach_join coord_reach.init)
  moreover have "joinArmed demo_joining = [(2, ''g'')]" "running (fire_join demo_joining 2) = [CompleteJoin ''g'']" by code_simp+
  ultimately show ?thesis unfolding demo_group_def by (intro reach_run reach_fire) simp_all
qed


end
