(* ===== verification/Client_Metadata.thy ===== *)
theory Client_Metadata
  imports Client Broker_Topics
begin

text \<open>
  What the command line client (\<open>cmd/testclient/main.go\<close>) reads from \<open>Metadata\<close> responses, and
  its requests that create and delete topics. A read that fails ends the client; a loop that
  returns early leaves the rest of the response unread.
\<close>

section \<open>Reading a response\<close>

record metadataBroker =
  mbID :: int32
  mbHost :: string
  mbPort :: int32

definition drainMetadataIDs :: "unit decoder" where
  "drainMetadataIDs = dbind ReadArrayLen (\<lambda>count. dbind (dtimes (nat count) ReadInt32) (\<lambda>_. dreturn ()))"

definition readMetadataIDsForSnapshot :: "int32 list decoder" where
  "readMetadataIDsForSnapshot = dbind ReadArrayLen (\<lambda>count. dmake count ReadInt32)"

definition readMetadataBroker :: "metadataBroker decoder" where
  "readMetadataBroker =
     dbind ReadInt32 (\<lambda>nodeID. dbind ReadString (\<lambda>host. dbind ReadInt32 (\<lambda>port.
     dreturn \<lparr>mbID = nodeID, mbHost = host, mbPort = port\<rparr>)))"

definition readMetadataBrokers :: "metadataBroker list decoder" where
  "readMetadataBrokers = dbind ReadArrayLen (\<lambda>brokerCount. dmake brokerCount readMetadataBroker)"

definition readMetadataHeader :: "(metadataBroker list \<times> int32) decoder" where
  "readMetadataHeader =
     dbind readMetadataBrokers (\<lambda>brokers. dbind ReadInt32 (\<lambda>controllerID. dreturn (brokers, controllerID)))"

fun findMetadataBroker :: "metadataBroker list \<Rightarrow> int32 \<Rightarrow> metadataBroker option" where
  "findMetadataBroker [] i = None"
| "findMetadataBroker (broker # bs) i = (if mbID broker = i then Some broker else findMetadataBroker bs i)"

definition equalMetadataBrokers :: "metadataBroker list \<Rightarrow> metadataBroker list \<Rightarrow> bool" where
  "equalMetadataBrokers a b \<longleftrightarrow> length a = length b \<and> list_all (\<lambda>i. a ! i = b ! i) [0..<length a]"

text \<open>A partition of a response: error code, index and leader; the ids are drained.\<close>

definition readMetadataPartition :: "(int16 \<times> int32 \<times> int32) decoder" where
  "readMetadataPartition =
     dbind ReadInt16 (\<lambda>partitionErrorCode.
     dbind ReadInt32 (\<lambda>partitionID.
     dbind ReadInt32 (\<lambda>leaderID.
     dbind drainMetadataIDs (\<lambda>_.
     dbind drainMetadataIDs (\<lambda>_.
     dreturn (partitionErrorCode, partitionID, leaderID))))))"

definition readMetadataTopic :: "(int16 \<times> string \<times> (int16 \<times> int32 \<times> int32) list) decoder" where
  "readMetadataTopic =
     dbind ReadInt16 (\<lambda>errorCode.
     dbind ReadString (\<lambda>name.
     dbind ReadArrayLen (\<lambda>partitionCount.
     dbind (dtimes (nat partitionCount) readMetadataPartition) (\<lambda>partitions.
     dreturn (errorCode, name, partitions)))))"

text \<open>The loops over the topics that return at the first one with a result.\<close>

fun findTopic :: "(int16 \<times> string \<times> (int16 \<times> int32 \<times> int32) list \<Rightarrow> 'a option) \<Rightarrow> nat \<Rightarrow> 'a option decoder" where
  "findTopic f 0 = dreturn None"
| "findTopic f (Suc n) =
     dbind readMetadataTopic (\<lambda>t. case f t of Some x \<Rightarrow> dreturn (Some x) | None \<Rightarrow> findTopic f n)"

definition findTopics :: "(int16 \<times> string \<times> (int16 \<times> int32 \<times> int32) list \<Rightarrow> 'a option) \<Rightarrow> 'a option decoder" where
  "findTopics f = dbind ReadArrayLen (\<lambda>topicCount. findTopic f (nat topicCount))"

definition metadata_call ::
    "(BrokerNode \<Rightarrow> BrokerNode) \<Rightarrow> int \<Rightarrow> int32 \<Rightarrow> 'a decoder \<Rightarrow> BrokerNode \<Rightarrow> BrokerNode \<times> (go_error + 'a) option" where
  "metadata_call env now corr parse = client_call env now (client_header 3 0 corr) (WriteArrayLen 0) parse"

definition the_found :: "'a option \<Rightarrow> 'a decoder" where
  "the_found r = (case r of None \<Rightarrow> dfail ErrUnexpected | Some x \<Rightarrow> dreturn x)"

section \<open>Requests for metadata\<close>

definition metadataHasTopic ::
    "(BrokerNode \<Rightarrow> BrokerNode) \<Rightarrow> int \<Rightarrow> string \<Rightarrow> int32 \<Rightarrow> BrokerNode \<Rightarrow> BrokerNode \<times> (go_error + bool) option" where
  "metadataHasTopic env now name corr =
     client_exchange env now (client_header 3 0 corr) (WriteArrayLen 0) (\<lambda>_.
       dbind readMetadataHeader (\<lambda>_.
       dbind (findTopics (\<lambda>(errorCode, topicName, _). if errorCode = 0 \<and> topicName = name then Some () else None)) (\<lambda>r.
       dreturn (r \<noteq> None))))"

definition fetchMetadataController ::
    "(BrokerNode \<Rightarrow> BrokerNode) \<Rightarrow> int \<Rightarrow> int32 \<Rightarrow> BrokerNode \<Rightarrow> BrokerNode \<times> (go_error + int32 \<times> metadataBroker list) option" where
  "fetchMetadataController env now corr =
     metadata_call env now corr
       (dbind readMetadataHeader (\<lambda>(brokers, controllerID).
        dbind ReadArrayLen (\<lambda>topicCount.
        dbind (dtimes (nat topicCount) readMetadataTopic) (\<lambda>_.
        dreturn (controllerID, brokers)))))"

definition fetchMetadataTopicLeaders ::
    "(BrokerNode \<Rightarrow> BrokerNode) \<Rightarrow> int \<Rightarrow> string \<Rightarrow> int32
     \<Rightarrow> BrokerNode \<Rightarrow> BrokerNode \<times> (go_error + int32 \<times> (int32, int32) gomap \<times> metadataBroker list) option" where
  "fetchMetadataTopicLeaders env now topicName corr =
     metadata_call env now corr
       (dbind readMetadataHeader (\<lambda>(brokers, controllerID).
        dbind (findTopics (\<lambda>(topicErrorCode, name, partitions).
          if topicErrorCode = 0 \<and> name = topicName
          then Some (fold (\<lambda>(code, pt, leader). if code = 0 then mput pt leader else id) partitions [])
          else None)) (\<lambda>r.
        dbind (the_found r) (\<lambda>leaders. dreturn (controllerID, leaders, brokers)))))"

text \<open>This one returns inside the loop over the partitions.\<close>

fun find_leader :: "int16 \<Rightarrow> string \<Rightarrow> string \<Rightarrow> nat \<Rightarrow> int32 option decoder" where
  "find_leader errorCode name topicName 0 = dreturn None"
| "find_leader errorCode name topicName (Suc n) =
     dbind readMetadataPartition (\<lambda>(partitionErrorCode, partitionID, leaderID).
       if errorCode = 0 \<and> partitionErrorCode = 0 \<and> name = topicName \<and> partitionID = 0 then dreturn (Some leaderID)
       else find_leader errorCode name topicName n)"

fun find_partition_leader :: "string \<Rightarrow> nat \<Rightarrow> int32 option decoder" where
  "find_partition_leader topicName 0 = dreturn None"
| "find_partition_leader topicName (Suc n) =
     dbind ReadInt16 (\<lambda>errorCode.
     dbind ReadString (\<lambda>name.
     dbind ReadArrayLen (\<lambda>partitionCount.
     dbind (find_leader errorCode name topicName (nat partitionCount)) (\<lambda>r.
     case r of Some lead \<Rightarrow> dreturn (Some lead) | None \<Rightarrow> find_partition_leader topicName n))))"

definition fetchMetadataPartitionLeader ::
    "(BrokerNode \<Rightarrow> BrokerNode) \<Rightarrow> int \<Rightarrow> string \<Rightarrow> int32
     \<Rightarrow> BrokerNode \<Rightarrow> BrokerNode \<times> (go_error + int32 \<times> metadataBroker list) option" where
  "fetchMetadataPartitionLeader env now topicName corr =
     metadata_call env now corr
       (dbind readMetadataHeader (\<lambda>(brokers, _).
        dbind ReadArrayLen (\<lambda>topicCount.
        dbind (find_partition_leader topicName (nat topicCount)) (\<lambda>r.
        dbind (the_found r) (\<lambda>leaderID. dreturn (leaderID, brokers))))))"

definition three_local :: "metadataBroker list" where
  "three_local = [\<lparr>mbID = 1, mbHost = ''localhost'', mbPort = 9092\<rparr>, \<lparr>mbID = 2, mbHost = ''localhost'', mbPort = 9093\<rparr>,
     \<lparr>mbID = 3, mbHost = ''localhost'', mbPort = 9094\<rparr>]"

definition count_leader :: "int32 \<Rightarrow> (int32, int) gomap \<Rightarrow> (int32, int) gomap" where
  "count_leader lead counts =
     mput lead ((case map_of counts lead of None \<Rightarrow> 0 | Some n \<Rightarrow> n) + 1) counts"

definition fetchMetadataLeaderCounts ::
    "(BrokerNode \<Rightarrow> BrokerNode) \<Rightarrow> int \<Rightarrow> string \<Rightarrow> int32 \<Rightarrow> BrokerNode \<Rightarrow> BrokerNode \<times> (go_error + (int32, int) gomap) option" where
  "fetchMetadataLeaderCounts env now topicName corr =
     metadata_call env now corr
       (dbind readMetadataHeader (\<lambda>(brokers, _).
        dbind (expect (equalMetadataBrokers brokers three_local)) (\<lambda>_.
        dbind (findTopics (\<lambda>(errorCode, name, partitions).
          if errorCode = 0 \<and> name = topicName
          then Some (fold (\<lambda>(code, _, leaderID). if code = 0 then count_leader leaderID else id) partitions [])
          else None)) the_found)))"

definition equalLeaderCounts :: "(int32, int) gomap \<Rightarrow> (int32, int) gomap \<Rightarrow> bool" where
  "equalLeaderCounts a b \<longleftrightarrow> length a = length b
     \<and> list_all (\<lambda>(i, aCount). (case map_of b i of None \<Rightarrow> 0 | Some n \<Rightarrow> n) = aCount) a"

definition checkMetadataLeaderCounts ::
    "(BrokerNode \<Rightarrow> BrokerNode) \<Rightarrow> int \<Rightarrow> string \<Rightarrow> int32 \<Rightarrow> BrokerNode \<Rightarrow> BrokerNode \<times> (go_error + unit) option" where
  "checkMetadataLeaderCounts env now topicName corr =
     cbind (fetchMetadataLeaderCounts env now topicName corr) (\<lambda>leaderCounts.
     cexpect (equalLeaderCounts leaderCounts [(1, 2), (2, 2), (3, 2)]))"

definition checkMetadataCluster :: "(BrokerNode \<Rightarrow> BrokerNode) \<Rightarrow> int \<Rightarrow> BrokerNode \<Rightarrow> BrokerNode \<times> (go_error + unit) option" where
  "checkMetadataCluster env now =
     metadata_call env now 177
       (dbind readMetadataHeader (\<lambda>(brokers, _). expect (equalMetadataBrokers brokers three_local)))"

definition checkMetadataTopic ::
    "(BrokerNode \<Rightarrow> BrokerNode) \<Rightarrow> int \<Rightarrow> string \<Rightarrow> bool \<Rightarrow> int \<Rightarrow> BrokerNode \<Rightarrow> BrokerNode \<times> (go_error + unit) option" where
  "checkMetadataTopic env now wantName wantPresent wantPartitions =
     metadata_call env now 45
       (dbind readMetadataHeader (\<lambda>(brokers, _).
        dbind (expect (1 \<le> length brokers)) (\<lambda>_.
        dbind ReadArrayLen (\<lambda>topicCount.
        dbind (dtimes (nat topicCount)
          (dbind ReadInt16 (\<lambda>errorCode.
           dbind ReadString (\<lambda>name.
           dbind ReadArrayLen (\<lambda>partitionCount.
           dbind (dtimes (nat partitionCount) readMetadataPartition) (\<lambda>partitions.
           dreturn (errorCode = 0 \<and> name = wantName \<and> partitionCount = wantPartitions
             \<and> list_all (\<lambda>(code, _). code = 0) partitions))))))) (\<lambda>found.
        expect (wantPresent = (True \<in> set found)))))))"

section \<open>Topics\<close>

definition writeAndAssertTopicResult ::
    "(BrokerNode \<Rightarrow> BrokerNode) \<Rightarrow> int \<Rightarrow> RequestHeader \<Rightarrow> bytes \<Rightarrow> string \<Rightarrow> int16
     \<Rightarrow> BrokerNode \<Rightarrow> BrokerNode \<times> (go_error + unit) option" where
  "writeAndAssertTopicResult env now header body wantName wantCode =
     client_call env now header body
       (dbind ReadArrayLen (\<lambda>resultCount. dbind (expect (resultCount = 1)) (\<lambda>_.
        dbind ReadString (\<lambda>name.
        dbind ReadInt16 (\<lambda>code.
        expect (name = wantName \<and> code = wantCode))))))"

definition create_topic_body :: "string \<Rightarrow> int32 \<Rightarrow> int16 \<Rightarrow> bytes" where
  "create_topic_body name partitions replicationFactor =
     WriteArrayLen 1 @ WriteString name @ WriteInt32 partitions @ WriteInt16 replicationFactor
     @ WriteArrayLen 0 @ WriteArrayLen 0 @ WriteInt32 5000"

definition checkCreateTopicsDuplicate :: "(BrokerNode \<Rightarrow> BrokerNode) \<Rightarrow> int \<Rightarrow> BrokerNode \<Rightarrow> BrokerNode \<times> (go_error + unit) option" where
  "checkCreateTopicsDuplicate env now =
     writeAndAssertTopicResult env now (client_header 19 0 46) (create_topic_body ''orders'' 3 1) ''orders'' 36"

definition checkDeleteTopics ::
    "(BrokerNode \<Rightarrow> BrokerNode) \<Rightarrow> int \<Rightarrow> string \<Rightarrow> int16 \<Rightarrow> BrokerNode \<Rightarrow> BrokerNode \<times> (go_error + unit) option" where
  "checkDeleteTopics env now name wantCode =
     writeAndAssertTopicResult env now (client_header 20 0 47) (WriteArrayLen 1 @ WriteString name @ WriteInt32 5000) name wantCode"

section \<open>What the client sees\<close>

definition topic_view :: "Topic \<Rightarrow> int16 \<times> string \<times> (int16 \<times> int32 \<times> int32) list" where
  "topic_view t = (ErrNone, Name t, map (\<lambda>p. (ErrNone, ID p, Leader p)) (PartitionList t))"

definition info_view :: "TopicInfo \<Rightarrow> int16 \<times> string \<times> (int16 \<times> int32 \<times> int32) list" where
  "info_view t = (ErrNone, tinfoName t, map (\<lambda>p. (ErrNone, pinfoID p, pinfoLeader p)) (tinfoPartitions t))"

text \<open>The lists and names of a response fit their length prefixes.\<close>

definition info_ok :: "TopicInfo \<Rightarrow> bool" where
  "info_ok t \<longleftrightarrow> length (tinfoName t) < 2 ^ 15 \<and> length (tinfoPartitions t) < 2 ^ 31
     \<and> (\<forall>p \<in> set (tinfoPartitions t). length (pinfoReplicas p) < 2 ^ 31 \<and> length (pinfoISR p) < 2 ^ 31)"

definition brokers_ok :: "BrokerNode \<Rightarrow> bool" where
  "brokers_ok b \<longleftrightarrow> length (metadataBrokers b) < 2 ^ 31 \<and> (\<forall>br \<in> set (metadataBrokers b). length (Host br) < 2 ^ 15)"

text \<open>The same of a broker: its registry, and the replicas of the partitions that it leads.\<close>

definition topic_fits :: "Topic \<Rightarrow> bool" where
  "topic_fits t \<longleftrightarrow> length (Name t) < 2 ^ 15 \<and> length (PartitionList t) < 2 ^ 31 \<and> list_all partition_ok (PartitionList t)"

definition states_fit :: "ReplicationManager option \<Rightarrow> bool" where
  "states_fit rm \<longleftrightarrow> (\<forall>m k s. rm = Some m \<longrightarrow> map_of (led m) k = Some s \<longrightarrow> length (replicas s) < 2 ^ 31 - 1)"

definition fits :: "BrokerNode \<Rightarrow> bool" where
  "fits b \<longleftrightarrow> registry_ok (bTopics b) \<and> length (bTopics b) < 2 ^ 31 \<and> (\<forall>t \<in> snd ` set (bTopics b). topic_fits t)
     \<and> brokers_ok b \<and> states_fit (bReplication b)"

definition client_broker :: "Broker \<Rightarrow> metadataBroker" where
  "client_broker br = \<lparr>mbID = BrokerID br, mbHost = Host br, mbPort = Port br\<rparr>"

lemma map_state_keeps: "(\<And>x s. g (fst (f x s)) = g s) \<Longrightarrow> g (fst (map_state f xs s)) = g s"
  by (induction xs arbitrary: s) (simp_all add: case_prod_beta)

lemma map_state_view: "(\<And>x s. x \<in> set xs \<Longrightarrow> h (snd (f x s)) = k x) \<Longrightarrow> map h (snd (map_state f xs s)) = map k xs"
  by (induction xs arbitrary: s) (simp_all add: case_prod_beta)

lemma partition_info_view:
  "pinfoID (snd (partition_info now name p b)) = ID p" "pinfoLeader (snd (partition_info now name p b)) = Leader p"
  by (simp_all add: partition_info_def Let_def case_prod_beta)

lemma partition_info_fields:
  "bTopics (fst (partition_info now name p b)) = bTopics b \<and> bCluster (fst (partition_info now name p b)) = bCluster b
    \<and> NodeID (fst (partition_info now name p b)) = NodeID b \<and> bHost (fst (partition_info now name p b)) = bHost b
    \<and> bPort (fst (partition_info now name p b)) = bPort b \<and> bControllerID (fst (partition_info now name p b)) = bControllerID b
    \<and> bMetadataLog (fst (partition_info now name p b)) = bMetadataLog b"
  by (auto simp: partition_info_def Let_def case_prod_beta split: option.splits sum.splits)

lemma TopicInfos_view: "map info_view (snd (TopicInfos now b)) = map topic_view (Registry_All (bTopics b))"
  unfolding TopicInfos_def
proof (rule map_state_view)
  fix t :: Topic and s :: BrokerNode
  have "map (\<lambda>p. (ErrNone, pinfoID p, pinfoLeader p)) (snd (map_state (partition_info now (Name t)) (PartitionList t) s))
      = map (\<lambda>p. (ErrNone, ID p, Leader p)) (PartitionList t)"
    by (rule map_state_view) (simp add: partition_info_view)
  then show "info_view (snd (case map_state (partition_info now (Name t)) (PartitionList t) s of
      (b', ps) \<Rightarrow> (b', \<lparr>tinfoName = Name t, tinfoPartitions = ps\<rparr>))) = topic_view t"
    by (simp add: info_view_def topic_view_def case_prod_beta)
qed

lemma TopicInfos_fields:
  "bTopics (fst (TopicInfos now b)) = bTopics b" "metadataBrokers (fst (TopicInfos now b)) = metadataBrokers b"
  "biControllerID (Broker_Info (fst (TopicInfos now b))) = biControllerID (Broker_Info b)"
  "bMetadataLog (fst (TopicInfos now b)) = bMetadataLog b" "bCluster (fst (TopicInfos now b)) = bCluster b"
  "bControllerID (fst (TopicInfos now b)) = bControllerID b" "NodeID (fst (TopicInfos now b)) = NodeID b"
proof -
  define g where "g b = (bTopics b, bCluster b, NodeID b, bHost b, bPort b, bControllerID b, bMetadataLog b)" for b :: BrokerNode
  have "g (fst (TopicInfos now b)) = g b"
    unfolding TopicInfos_def
  proof (rule map_state_keeps)
    fix t :: Topic and s :: BrokerNode
    have "g (fst (map_state (partition_info now (Name t)) (PartitionList t) s)) = g s"
      by (rule map_state_keeps) (use partition_info_fields in \<open>simp add: g_def\<close>)
    then show "g (fst (case map_state (partition_info now (Name t)) (PartitionList t) s of
        (b', ps) \<Rightarrow> (b', \<lparr>tinfoName = Name t, tinfoPartitions = ps\<rparr>))) = g s" by (simp add: case_prod_beta)
  qed
  then show "bTopics (fst (TopicInfos now b)) = bTopics b" "metadataBrokers (fst (TopicInfos now b)) = metadataBrokers b"
    "biControllerID (Broker_Info (fst (TopicInfos now b))) = biControllerID (Broker_Info b)"
    "bMetadataLog (fst (TopicInfos now b)) = bMetadataLog b" "bCluster (fst (TopicInfos now b)) = bCluster b"
    "bControllerID (fst (TopicInfos now b)) = bControllerID b" "NodeID (fst (TopicInfos now b)) = NodeID b"
    by (simp_all add: g_def metadataBrokers_def Broker_Info_def split: option.split)
qed

text \<open>What a broker shows of its topics fits, and showing it keeps it so.\<close>

lemma map_state_inv:
  assumes "\<And>x s. x \<in> set xs \<Longrightarrow> P s \<Longrightarrow> P (fst (f x s)) \<and> Q (snd (f x s))" "P s"
  shows "P (fst (map_state f xs s)) \<and> list_all Q (snd (map_state f xs s))"
  using assms by (induction xs arbitrary: s) (simp_all add: case_prod_beta)

lemma map_state_length [simp]: "length (snd (map_state f xs s)) = length xs"
  by (induction xs arbitrary: s) (simp_all add: case_prod_beta)

lemma isr_length: "length (isr s now) \<le> Suc (length (replicas s))"
  by (simp add: isr_def)

lemma states_fit_put: "states_fit (Some m) \<Longrightarrow> length (replicas s) < 2 ^ 31 - 1 \<Longrightarrow> states_fit (Some (put_state name pt s m))"
  by (simp add: states_fit_def put_state_def)

lemma Manager_queries_fit:
  assumes "states_fit (Some m)"
  shows "states_fit (Some (fst (Manager_HighWatermark now name pt e m)))"
    and "states_fit (Some (fst (Manager_ISR now name pt m))) \<and> length (snd (Manager_ISR now name pt m)) < 2 ^ 31"
proof -
  have s: "length (replicas s) < 2 ^ 31 - 1" if "partitionState m name pt = Some s" for s
    using assms that by (auto simp: states_fit_def partitionState_def)
  show "states_fit (Some (fst (Manager_HighWatermark now name pt e m)))"
    using s states_fit_put [OF assms]
    by (auto simp: Manager_HighWatermark_def HighWatermark_def assms recompute_release_def recompute_def releaseWaiters_def Let_def
        split: option.split prod.split)
  show "states_fit (Some (fst (Manager_ISR now name pt m))) \<and> length (snd (Manager_ISR now name pt m)) < 2 ^ 31"
    using s states_fit_put [OF assms] isr_length [of "fst (recompute now _)" now]
    by (fastforce simp: Manager_ISR_def PartitionState_ISR_def assms recompute_def Let_def split: option.split intro: le_less_trans)
qed

lemma partition_info_fit:
  assumes "states_fit (bReplication b)" "partition_ok p"
  shows "states_fit (bReplication (fst (partition_info now name p b)))
    \<and> length (pinfoReplicas (snd (partition_info now name p b))) < 2 ^ 31 \<and> length (pinfoISR (snd (partition_info now name p b))) < 2 ^ 31"
proof (cases "bReplication b")
  case None
  then show ?thesis using assms by (auto simp: partition_info_def Let_def partition_ok_def split: prod.split sum.split)
next
  case (Some m)
  have "states_fit (Some (fst (Manager_HighWatermark now name (ID p) e m)))" for e using Manager_queries_fit(1) assms(1) Some by simp
  note fit = this Manager_queries_fit(2) [OF this, of now name "ID p"]
  show ?thesis
    using fit assms(2) Some
    by (auto simp: partition_info_def Let_def partition_ok_def case_prod_beta split: sum.split)
qed

lemma TopicInfos_fit:
  assumes "fits b"
  shows "list_all info_ok (snd (TopicInfos now b)) \<and> length (snd (TopicInfos now b)) < 2 ^ 31 \<and> fits (fst (TopicInfos now b))"
proof -
  have topics: "topic_fits t" if "t \<in> set (Registry_All (bTopics b))" for t
    using assms that by (auto simp: fits_def Registry_All_def cloneTopic_id)
  have "states_fit (bReplication (fst (TopicInfos now b))) \<and> list_all info_ok (snd (TopicInfos now b))"
    unfolding TopicInfos_def
  proof (rule map_state_inv [where P = "\<lambda>b. states_fit (bReplication b)"])
    fix t and s :: BrokerNode
    assume t: "t \<in> set (Registry_All (bTopics b))" and s: "states_fit (bReplication s)"
    let ?r = "map_state (partition_info now (Name t)) (PartitionList t) s"
    have "states_fit (bReplication (fst ?r))
        \<and> list_all (\<lambda>p. length (pinfoReplicas p) < 2 ^ 31 \<and> length (pinfoISR p) < 2 ^ 31) (snd ?r)"
      using topics [OF t] s
      by (intro map_state_inv partition_info_fit) (auto simp: topic_fits_def list_all_iff)
    then show "states_fit (bReplication (fst (case ?r of (b', ps) \<Rightarrow> (b', \<lparr>tinfoName = Name t, tinfoPartitions = ps\<rparr>))))
        \<and> info_ok (snd (case ?r of (b', ps) \<Rightarrow> (b', \<lparr>tinfoName = Name t, tinfoPartitions = ps\<rparr>)))"
      using topics [OF t] by (simp add: case_prod_beta info_ok_def topic_fits_def list_all_iff)
  qed (use assms in \<open>simp add: fits_def\<close>)
  then show ?thesis
    using assms by (simp add: fits_def brokers_ok_def TopicInfos_fields) (simp add: TopicInfos_def Registry_All_def)
qed

text \<open>So does applying a record of the metadata log.\<close>

lemma record_valid_small:
  assumes "record_valid r" "p \<in> set (RecordPartitions r)"
  shows "length (Replicas p) < 2 ^ 31 - 1 \<and> length (ISR p) < 2 ^ 31 - 1"
proof -
  have up: "Type r = TopicUpsert" using assms by (cases "Type r") (auto simp: record_valid_def)
  have "16 + 4 * length (Replicas p) + 4 * length (ISR p) \<le> (\<Sum>p \<leftarrow> RecordPartitions r. 16 + 4 * length (Replicas p) + 4 * length (ISR p))"
    using assms(2) by (intro member_le_sum_list) auto
  then show ?thesis using assms(1) up by (simp add: record_valid_def length_encodeMetadataRecord)
qed

lemma start_partition_fit:
  assumes "states_fit (Some m)" "length (Replicas p) < 2 ^ 31 - 1" "length (ISR p) < 2 ^ 31 - 1"
  shows "states_fit (Some (fst (start_partition now name p (m, st))))"
  using assms
  by (auto simp: start_partition_def Let_def states_fit_def lead_key_def stopFollowingKey_def NewPartitionState_def recompute_def
      split: option.splits prod.splits sum.splits if_splits)

lemma StartFollowing_fit:
  assumes "states_fit (Some m)" "\<forall>p \<in> set ps. length (Replicas p) < 2 ^ 31 - 1 \<and> length (ISR p) < 2 ^ 31 - 1"
  shows "states_fit (Some (fst (fold (start_partition now name) ps (m, st))))"
  using assms
proof (induction ps arbitrary: m st)
  case (Cons p ps)
  then show ?case using start_partition_fit [of m p now name st]
    by (cases "start_partition now name p (m, st)") simp
qed simp

lemma fold_Stop_led: "led (fold (\<lambda>p. StopFollowing name (ID p)) ps m) = led m"
  by (induction ps arbitrary: m) (simp_all add: StopFollowing_def stopFollowingKey_def)

lemma length_mput: "length (mput k v m) \<le> Suc (length m)"
  by (induction m) auto

lemma Apply_fits:
  assumes "fits b" "record_valid r" "Suc (length (bTopics b)) < 2 ^ 31"
  shows "fits (ApplyMetadataRecord now r b) \<and> length (bTopics (ApplyMetadataRecord now r b)) \<le> Suc (length (bTopics b))"
proof (cases "Type r")
  case TopicDelete
  have "set (mdel (RecordTopic r) (bTopics b)) \<subseteq> set (bTopics b)" "length (mdel (RecordTopic r) (bTopics b)) \<le> length (bTopics b)"
    by (auto simp: AList.delete_eq)
  then show ?thesis
    using assms(1) TopicDelete Apply_registry_ok [of b now r]
    by (auto simp: fits_def ApplyMetadataRecord_def Registry_Delete_def brokers_ok_def metadataBrokers_def split: option.splits)
next
  case TopicUpsert
  let ?t = "\<lparr>Name = RecordTopic r, PartitionList = RecordPartitions r\<rparr>"
  have t: "topic_fits ?t" using assms(2) by (simp add: record_valid_def topic_fits_def)
  have reg: "bTopics (ApplyMetadataRecord now r b) = mput (RecordTopic r) ?t (bTopics b)"
    using TopicUpsert by (simp add: ApplyMetadataRecord_def applyTopic_fields Registry_Upsert_def)
  then have "\<forall>t \<in> snd ` set (bTopics (ApplyMetadataRecord now r b)). topic_fits t"
    using assms(1) t set_mput by (fastforce simp: fits_def)
  moreover have "metadataBrokers (ApplyMetadataRecord now r b) = metadataBrokers b" 
    using Apply_fields(4) by (simp add: metadataBrokers_def ApplyMetadataRecord_def applyTopic_def Let_def TopicUpsert split: option.split prod.split)
  moreover have "states_fit (bReplication (ApplyMetadataRecord now r b))"
  proof (cases "bReplication b")
    case None
    then show ?thesis using TopicUpsert by (simp add: ApplyMetadataRecord_def applyTopic_def Let_def states_fit_def)
  next
    case (Some m)
    have "states_fit (Some (fold (\<lambda>p. StopFollowing (RecordTopic r) (ID p)) (RecordPartitions r) m))"
      using assms(1) Some by (simp add: fits_def states_fit_def fold_Stop_led)
    then show ?thesis
      using StartFollowing_fit [of _ "RecordPartitions r" now "RecordTopic r" "bLogs b"] record_valid_small [OF assms(2)] Some TopicUpsert
      by (simp add: ApplyMetadataRecord_def applyTopic_def Let_def StartFollowing_def case_prod_beta)
  qed
  ultimately show ?thesis
    using assms(1,3) Apply_registry_ok [of b now r] length_mput [of "RecordTopic r" ?t "bTopics b"]
    by (simp add: fits_def brokers_ok_def reg)
qed

lemma fold_Apply_fits:
  assumes "fits b" "list_all record_valid rs" "length (bTopics b) + length rs < 2 ^ 31"
  shows "fits (fold (ApplyMetadataRecord now) rs b)"
  using assms
proof (induction rs arbitrary: b)
  case (Cons r rs)
  then show ?case using Apply_fits [of b r now] by simp
qed simp

lemma drain_ids: "length xs < 2 ^ 31 \<Longrightarrow> drainMetadataIDs (writeInt32Array xs @ rest) = Inr ((), rest)"
  using int32_codec.times_enc [of xs rest]
  by (simp add: drainMetadataIDs_def writeInt32Array_def WriteArray_def codec_rt list_all_iff)

lemma readMetadataTopic_write:
  assumes "info_ok t"
  shows "readMetadataTopic (writeMetadataTopic t @ rest) = Inr (info_view t, rest)"
proof -
  let ?w = "\<lambda>p. WriteInt16 ErrNone @ WriteInt32 (pinfoID p) @ WriteInt32 (pinfoLeader p)
    @ writeInt32Array (pinfoReplicas p) @ writeInt32Array (pinfoISR p)"
  have "dtimes (length (tinfoPartitions t)) readMetadataPartition (concat (map ?w (tinfoPartitions t)) @ rest)
      = Inr (map (\<lambda>p. (ErrNone, pinfoID p, pinfoLeader p)) (tinfoPartitions t), rest)"
    using assms by (intro dtimes_map) (simp add: readMetadataPartition_def codec_rt drain_ids info_ok_def)
  then show ?thesis
    using assms by (simp add: readMetadataTopic_def writeMetadataTopic_def WriteArray_def codec_rt info_ok_def info_view_def)
qed

lemma readMetadataHeader_write:
  assumes "brokers_ok b"
  shows "readMetadataHeader (metadata_response b infos unknown)
    = Inr ((map client_broker (metadataBrokers b), biControllerID (Broker_Info b)),
        WriteArrayLen (int (length infos) + int (length unknown)) @ concat (map writeMetadataTopic infos)
        @ concat (map (\<lambda>name. WriteInt16 ErrUnknownTopicOrPartition @ WriteString name @ WriteArrayLen 0) unknown))"
proof -
  let ?w = "\<lambda>br. WriteInt32 (BrokerID br) @ WriteString (Host br) @ WriteInt32 (Port br)"
  have "dtimes (length (metadataBrokers b)) readMetadataBroker (concat (map ?w (metadataBrokers b)) @ rest)
      = Inr (map client_broker (metadataBrokers b), rest)" for rest
    using assms by (intro dtimes_map) (simp add: readMetadataBroker_def codec_rt brokers_ok_def client_broker_def)
  then show ?thesis
    using assms by (simp add: readMetadataHeader_def readMetadataBrokers_def metadata_response_def WriteArray_def codec_rt
        dmake_def brokers_ok_def)
qed

lemma findTopic_write:
  assumes "list_all info_ok infos"
  shows "\<exists>rest. findTopic f (length infos) (concat (map writeMetadataTopic infos))
    = Inr (case List.find (\<lambda>v. f v \<noteq> None) (map info_view infos) of None \<Rightarrow> None | Some v \<Rightarrow> f v, rest)"
  using assms
proof (induction infos)
  case (Cons t infos)
  then show ?case
    by (cases "f (info_view t)") (simp_all add: dbind_apply readMetadataTopic_write)
qed simp

lemma findTopics_write:
  assumes "list_all info_ok infos" "length infos < 2 ^ 31"
  shows "\<exists>rest. findTopics f (WriteArrayLen (int (length infos)) @ concat (map writeMetadataTopic infos))
    = Inr (case List.find (\<lambda>v. f v \<noteq> None) (map info_view infos) of None \<Rightarrow> None | Some v \<Rightarrow> f v, rest)"
  using findTopic_write [OF assms(1), of f] assms(2) by (simp add: findTopics_def codec_rt)

lemma all_topics_write:
  assumes "list_all info_ok infos"
  shows "dtimes (length infos) readMetadataTopic (concat (map writeMetadataTopic infos)) = Inr (map info_view infos, [])"
  using dtimes_map [of infos readMetadataTopic writeMetadataTopic info_view "[]"] assms
  by (simp add: readMetadataTopic_write list_all_iff)

lemma handleMetadata_all:
  "handleMetadata now b (WriteArrayLen 0) = (fst (TopicInfos now b), Inr (metadata_response (fst (TopicInfos now b)) (snd (TopicInfos now b)) []))"
proof -
  have "ReadArrayLen (WriteArrayLen 0) = Inr (0, [])" by code_simp
  then show ?thesis by (simp add: handleMetadata_def case_prod_beta Let_def)
qed

lemma metadata_exchange:
  "client_exchange env now (client_header 3 0 corr) (WriteArrayLen 0) parse b
    = (fst (TopicInfos now b), Some (map_sum id fst (parse corr (metadata_response (fst (TopicInfos now b)) (snd (TopicInfos now b)) []))))"
  using client_exchange_dispatch [of "client_header 3 0 corr" env now "\<lambda>b body. at_once (handleMetadata now b body)" b "WriteArrayLen 0"
      "fst (TopicInfos now b)" "Some (Inr (metadata_response (fst (TopicInfos now b)) (snd (TopicInfos now b)) []))" parse]
  by (simp add: client_header_def header_ok_def dispatchTable_def at_once_def handleMetadata_all)

lemma metadata_called:
  "metadata_call env now corr parse b
    = (fst (TopicInfos now b), Some (map_sum id fst (parse (metadata_response (fst (TopicInfos now b)) (snd (TopicInfos now b)) []))))"
  unfolding metadata_call_def client_call_def by (subst metadata_exchange) (simp add: client_header_def)

text \<open>The registry of a broker as the client finds topics in it.\<close>

lemma find_registry:
  assumes "registry_ok reg"
  shows "List.find (\<lambda>t. Name t = name) (Registry_All reg) = Registry_Get reg name"
  using assms
proof (induction reg)
  case (Cons kt reg)
  then have "registry_ok reg" by (auto simp: registry_ok_def)
  moreover have "Name (snd kt) = fst kt" using Cons.prems by (auto simp: registry_ok_def)
  ultimately show ?case using Cons.IH by (cases kt) (simp add: Registry_All_def Registry_Get_def cloneTopic_def)
qed (simp add: Registry_All_def Registry_Get_def)

lemma find_view:
  assumes "registry_ok (bTopics b)"
  shows "List.find (\<lambda>v. (fst v = 0 \<and> fst (snd v) = name)) (map info_view (snd (TopicInfos now b)))
    = map_option topic_view (Registry_Get (bTopics b) name)"
proof -
  have "List.find (\<lambda>v. (fst v = 0 \<and> fst (snd v) = name)) (map topic_view ts)
      = map_option topic_view (List.find (\<lambda>t. Name t = name) ts)" for ts
    by (induction ts) (simp_all add: topic_view_def err_code_defs)
  then show ?thesis by (simp add: TopicInfos_view find_registry [OF assms])
qed

lemma findTopics_registry:
  assumes "registry_ok (bTopics b)" "list_all info_ok (snd (TopicInfos now b))" "length (snd (TopicInfos now b)) < 2 ^ 31"
    and "\<And>v. f v \<noteq> None \<longleftrightarrow> fst v = 0 \<and> fst (snd v) = name"
  obtains rest where "findTopics f (WriteArrayLen (int (length (snd (TopicInfos now b)))) @ concat (map writeMetadataTopic (snd (TopicInfos now b))))
    = Inr (Option.bind (Registry_Get (bTopics b) name) (\<lambda>t. f (topic_view t)), rest)"
  using findTopics_write [OF assms(2,3), of f] that
  unfolding assms(4) find_view [OF assms(1)] by (cases "Registry_Get (bTopics b) name") auto

lemma Registry_Get_Name: "registry_ok reg \<Longrightarrow> Registry_Get reg name = Some t \<Longrightarrow> Name t = name"
  using find_registry [of reg name] by (auto simp: find_Some_iff)

lemma header_seen:
  assumes "fits b"
  shows "readMetadataHeader (metadata_response (fst (TopicInfos now b)) (snd (TopicInfos now b)) [])
    = Inr ((map client_broker (metadataBrokers b), biControllerID (Broker_Info b)),
        WriteArrayLen (int (length (snd (TopicInfos now b)))) @ concat (map writeMetadataTopic (snd (TopicInfos now b))))"
  using readMetadataHeader_write [of "fst (TopicInfos now b)" "snd (TopicInfos now b)" "[]"] TopicInfos_fit [OF assms, of now]
  by (simp add: fits_def TopicInfos_fields)

lemma controller_seen:
  assumes "fits b"
  shows "fetchMetadataController env now corr b
    = (fst (TopicInfos now b), Some (Inr (biControllerID (Broker_Info b), map client_broker (metadataBrokers b))))"
  using all_topics_write [of "snd (TopicInfos now b)"] TopicInfos_fit [OF assms, of now]
  unfolding fetchMetadataController_def metadata_called by (simp add: dbind_apply header_seen [OF assms] codec_rt)

lemma has_topic_seen:
  assumes "fits b"
  shows "metadataHasTopic env now name corr b = (fst (TopicInfos now b), Some (Inr (Registry_Get (bTopics b) name \<noteq> None)))"
proof -
  note fit = TopicInfos_fit [OF assms, of now] and reg = assms [unfolded fits_def, THEN conjunct1]
  define found where "found = (\<lambda>(errorCode :: int16, topicName, _ :: (int16 \<times> int32 \<times> int32) list).
    if errorCode = 0 \<and> topicName = name then Some () else None)"
  obtain rest where "findTopics found (WriteArrayLen (int (length (snd (TopicInfos now b)))) @ concat (map writeMetadataTopic (snd (TopicInfos now b))))
    = Inr (Option.bind (Registry_Get (bTopics b) name) (\<lambda>t. found (topic_view t)), rest)"
    by (rule findTopics_registry [OF reg, of now found name]) (use fit in \<open>auto simp: found_def split: if_splits\<close>)
  then show ?thesis
    using Registry_Get_Name [OF reg, of name]
    unfolding metadataHasTopic_def metadata_exchange found_def
    by (cases "Registry_Get (bTopics b) name") (simp_all add: dbind_apply header_seen [OF assms] topic_view_def err_code_defs)
qed

lemma leaders_seen:
  assumes "fits b"
  shows "fetchMetadataTopicLeaders env now name corr b = (fst (TopicInfos now b), Some (case Registry_Get (bTopics b) name of
        None \<Rightarrow> Inl ErrUnexpected
      | Some t \<Rightarrow> Inr (biControllerID (Broker_Info b), fold (\<lambda>p. mput (ID p) (Leader p)) (PartitionList t) [],
          map client_broker (metadataBrokers b))))"
proof -
  note fit = TopicInfos_fit [OF assms, of now] and reg = assms [unfolded fits_def, THEN conjunct1]
  define leads where "leads = (\<lambda>(topicErrorCode :: int16, topic, partitions).
    if topicErrorCode = 0 \<and> topic = name
    then Some (fold (\<lambda>(code :: int16, pt :: int32, leader :: int32). if code = 0 then mput pt leader else id) partitions []) else None)"
  obtain rest where "findTopics leads (WriteArrayLen (int (length (snd (TopicInfos now b)))) @ concat (map writeMetadataTopic (snd (TopicInfos now b))))
    = Inr (Option.bind (Registry_Get (bTopics b) name) (\<lambda>t. leads (topic_view t)), rest)"
    by (rule findTopics_registry [OF reg, of now leads name]) (use fit in \<open>auto simp: leads_def split: if_splits\<close>)
  then show ?thesis
    using Registry_Get_Name [OF reg, of name]
    unfolding fetchMetadataTopicLeaders_def metadata_called leads_def
    by (cases "Registry_Get (bTopics b) name")
      (simp_all add: dbind_apply header_seen [OF assms] the_found_def topic_view_def err_code_defs fold_map comp_def)
qed

text \<open>The requests that create and delete a topic, as the controller answers them.\<close>

lemma drained_empty: "drain d (WriteArrayLen 0 @ rest) = Inr ((), rest)"
  using ReadArrayLen_Write [of 0 rest] by (simp add: drain_def dbind_apply)

lemma topic_result_read:
  assumes "length name < 2 ^ 15"
  shows "dbind ReadArrayLen (\<lambda>resultCount. dbind (expect (resultCount = 1)) (\<lambda>_. dbind ReadString (\<lambda>nm. dbind ReadInt16 (\<lambda>code.
      expect (nm = name \<and> code = want))))) (writeTopicResults [(name, code)])
    = (if code = want then Inr ((), []) else Inl ErrUnexpected)"
  using assms by (simp add: writeTopicResults_def WriteArray_def codec_rt ReadArrayLen_1 read_last expect_def)

lemma create_topic_replies:
  assumes "length name < 2 ^ 15" "(if refuses_topics c then (c, ErrNotController) else createTopic now name n rf True c) = (c', code)"
  shows "writeAndAssertTopicResult env now (client_header 19 0 corr) (create_topic_body name n rf) name want c
    = (c', Some (if code = want then Inr () else Inl ErrUnexpected))"
proof -
  have "handleCreateTopics now c (create_topic_body name n rf) = (c', Inr (writeTopicResults [(name, code)]))"
    using assms
    by (simp add: handleCreateTopics_def run_reader_def create_topic_body_def rarray_1 rbind_assoc rbind_apply codec_rt
        drainCreateTopicAssignments_def drainCreateTopicConfigs_def drained_empty ReadInt32_last split: if_splits)
  then show ?thesis
    unfolding writeAndAssertTopicResult_def
    by (subst client_call_handler [where handler = "\<lambda>b body. at_once (handleCreateTopics now b body)"])
      (auto simp: dispatchTable_def at_once_def topic_result_read [OF assms(1)])
qed

lemma delete_topic_replies:
  assumes "length name < 2 ^ 15" "(if refuses_topics c then (c, ErrNotController) else deleteTopic now name c) = (c', code)"
  shows "checkDeleteTopics env now name want c = (c', Some (if code = want then Inr () else Inl ErrUnexpected))"
proof -
  have "handleDeleteTopics now c (WriteArrayLen 1 @ WriteString name @ WriteInt32 5000) = (c', Inr (writeTopicResults [(name, code)]))"
    using assms
    by (simp add: handleDeleteTopics_def run_reader_def rarray_1 rbind_assoc rbind_apply codec_rt ReadInt32_last split: if_splits)
  then show ?thesis
    unfolding checkDeleteTopics_def writeAndAssertTopicResult_def
    by (subst client_call_handler [where handler = "\<lambda>b body. at_once (handleDeleteTopics now b body)"])
      (auto simp: dispatchTable_def at_once_def topic_result_read [OF assms(1)])
qed

text \<open>A topic passes the client's check exactly when one of this name and this number of partitions is registered.\<close>

lemma topic_check_seen:
  assumes "fits b"
  shows "checkMetadataTopic env now name present n b = (fst (TopicInfos now b), Some (if metadataBrokers b \<noteq> []
      \<and> present = (\<exists>t \<in> set (Registry_All (bTopics b)). Name t = name \<and> int (length (PartitionList t)) = n)
    then Inr () else Inl ErrUnexpected))"
proof -
  let ?infos = "snd (TopicInfos now b)"
  let ?read = "dbind ReadInt16 (\<lambda>errorCode. dbind ReadString (\<lambda>nm. dbind ReadArrayLen (\<lambda>partitionCount.
    dbind (dtimes (nat partitionCount) readMetadataPartition) (\<lambda>partitions. dreturn (errorCode = 0 \<and> nm = name \<and> partitionCount = n
      \<and> list_all (\<lambda>(code, _). code = 0) partitions)))))"
  define h where "h = (\<lambda>(errorCode :: int16, nm, partitions :: (int16 \<times> int32 \<times> int32) list).
    errorCode = 0 \<and> nm = name \<and> int (length partitions) = n \<and> list_all (\<lambda>(code, _). code = 0) partitions)"
  note fit = TopicInfos_fit [OF assms, of now]
  let ?w = "\<lambda>p. WriteInt16 ErrNone @ WriteInt32 (pinfoID p) @ WriteInt32 (pinfoLeader p)
    @ writeInt32Array (pinfoReplicas p) @ writeInt32Array (pinfoISR p)"
  have one: "?read (writeMetadataTopic t @ rest) = Inr (h (info_view t), rest)" if "t \<in> set ?infos" for t rest
  proof -
    have ok: "info_ok t" using fit that by (simp add: list_all_iff)
    then have "dtimes (length (tinfoPartitions t)) readMetadataPartition (concat (map ?w (tinfoPartitions t)) @ rest)
        = Inr (map (\<lambda>p. (ErrNone, pinfoID p, pinfoLeader p)) (tinfoPartitions t), rest)"
      by (intro dtimes_map) (simp add: readMetadataPartition_def codec_rt drain_ids info_ok_def)
    then show ?thesis
      using ok by (simp add: writeMetadataTopic_def WriteArray_def codec_rt info_ok_def info_view_def h_def)
  qed
  have "dtimes (length ?infos) ?read (concat (map writeMetadataTopic ?infos) @ []) = Inr (map (\<lambda>t. h (info_view t)) ?infos, [])"
    by (intro dtimes_map one)
  moreover have "map (\<lambda>t. h (info_view t)) ?infos = map (\<lambda>t. h (topic_view t)) (Registry_All (bTopics b))"
    using arg_cong [OF TopicInfos_view [of now b], of "map h"] by (simp add: comp_def)
  moreover have "h (topic_view t) \<longleftrightarrow> Name t = name \<and> int (length (PartitionList t)) = n" for t
    by (simp add: h_def topic_view_def err_code_defs list_all_iff)
  ultimately show ?thesis
    using fit unfolding checkMetadataTopic_def metadata_called
    by (auto simp: dbind_apply header_seen [OF assms] codec_rt expect_def image_iff Suc_le_eq)
qed

text \<open>
  The client's check that a deleted topic is gone asks for a topic with no partitions, so it
  passes while the topic is still there.
\<close>

theorem deletion_check_blind:
  assumes "fits b" "metadataBrokers b \<noteq> []" "Registry_Get (bTopics b) name = Some t" "PartitionList t \<noteq> []"
  shows "snd (checkMetadataTopic env now name False 0 b) = Some (Inr ())"
proof -
  have "t' = t" if t': "t' \<in> set (Registry_All (bTopics b))" "Name t' = name" for t'
  proof -
    have "(name, t') \<in> set (bTopics b)"
      using t' assms(1) by (fastforce simp: fits_def registry_ok_def Registry_All_def cloneTopic_id)
    then show ?thesis using assms(1,3) by (simp add: fits_def registry_ok_def Registry_Get_def cloneTopic_id)
  qed
  then show ?thesis using assms(2,4) by (auto simp: topic_check_seen [OF assms(1)])
qed

text \<open>
  C27. What the client learns from \<open>Metadata\<close> is what the broker has. From any broker whose
  names and lists fit their length prefixes, the client gets exactly the broker's list of
  brokers and its controller; it finds a topic exactly when the topic is registered, and then
  it gets the leader of every partition as registered; otherwise it ends with an error.
\<close>

theorem metadata_seen:
  fixes b :: BrokerNode and now :: int
  assumes "fits b"
  defines "b' \<equiv> fst (TopicInfos now b)" and "known \<equiv> map client_broker (metadataBrokers b)"
  shows "fetchMetadataController env now corr b = (b', Some (Inr (biControllerID (Broker_Info b), known)))
    \<and> metadataHasTopic env now name corr b = (b', Some (Inr (Registry_Get (bTopics b) name \<noteq> None)))
    \<and> fetchMetadataTopicLeaders env now name corr b = (b', Some (case Registry_Get (bTopics b) name of
        None \<Rightarrow> Inl ErrUnexpected
      | Some t \<Rightarrow> Inr (biControllerID (Broker_Info b), fold (\<lambda>p. mput (ID p) (Leader p)) (PartitionList t) [], known)))
    \<and> bTopics b' = bTopics b \<and> fits b'"
  using TopicInfos_fit [OF assms(1), of now] unfolding b'_def known_def
  by (simp add: controller_seen [OF assms(1)] has_topic_seen [OF assms(1)] leaders_seen [OF assms(1)] TopicInfos_fields)

lemma demo_leader_fits: "fits demo_leader" "bTopics demo_leader = [(''t'', demo_topic)]"
  "biControllerID (Broker_Info demo_leader) = 1" "metadataBrokers demo_leader = brokers three_brokers"
proof -
  show "bTopics demo_leader = [(''t'', demo_topic)]" "biControllerID (Broker_Info demo_leader) = 1"
    "metadataBrokers demo_leader = brokers three_brokers" by code_simp+
  moreover have "map_option led (bReplication demo_leader) = Some []" by code_simp
  ultimately show "fits demo_leader"
    by (auto simp: fits_def registry_ok_def brokers_ok_def demo_topic_def three_brokers_def topic_fits_def partition_ok_def states_fit_def)
qed

theorem metadata_seen_witness:
  "fetchMetadataTopicLeaders id 0 ''t'' 7 demo_leader = (fst (TopicInfos 0 demo_leader), Some (Inr (1, [(0, 1)],
     [\<lparr>mbID = 1, mbHost = ''a'', mbPort = 1\<rparr>, \<lparr>mbID = 2, mbHost = ''b'', mbPort = 1\<rparr>, \<lparr>mbID = 3, mbHost = ''c'', mbPort = 1\<rparr>])))"
  using metadata_seen [OF demo_leader_fits(1), of id 0 7 "''t''"] demo_leader_fits(2-4)
  by (simp add: Registry_Get_def demo_topic_def three_brokers_def client_broker_def)

end
