(* ===== verification/Client_Cluster.thy ===== *)
theory Client_Cluster
  imports Client_Group Client_Metadata
begin

text \<open>
  The scenarios of the command line client (\<open>cmd/testclient/main.go\<close>) over a cluster: it dials
  brokers by address, sends its requests one after the other or two at a time, sleeps and polls.
\<close>

section \<open>A cluster\<close>

text \<open>
  The brokers by the address they listen on, and the client's clock in milliseconds. What the
  client does not control is an argument: what happens at a broker while a request waits there
  (\<open>onWait\<close>), what the brokers do while the client sleeps (\<open>onSleep\<close>), how long a request takes
  (\<open>latency\<close>), and which of two concurrent requests reaches the broker first (\<open>inOrder\<close>).
\<close>

type_synonym address = "string \<times> int32"

record cluster =
  cClock :: int
  cNodes :: "(address, BrokerNode) gomap"

record surroundings =
  onWait :: "int \<Rightarrow> address \<Rightarrow> BrokerNode \<Rightarrow> BrokerNode"
  onSleep :: "cluster \<Rightarrow> (address, BrokerNode) gomap"
  latency :: "cluster \<Rightarrow> nat"
  inOrder :: "cluster \<Rightarrow> bool"

type_synonym 'a client = "cluster \<Rightarrow> cluster \<times> (go_error + 'a) option"
type_synonym 'a request = "(BrokerNode \<Rightarrow> BrokerNode) \<Rightarrow> int \<Rightarrow> BrokerNode \<Rightarrow> BrokerNode \<times> (go_error + 'a) option"

definition creturn :: "'a \<Rightarrow> 's \<Rightarrow> 's \<times> (go_error + 'a) option" where
  "creturn x C = (C, Some (Inr x))"

text \<open>A step of the client itself that ends it or not.\<close>

definition clift :: "go_error + 'a \<Rightarrow> 's \<Rightarrow> 's \<times> (go_error + 'a) option" where
  "clift r C = (C, Some r)"

definition dial :: "address \<Rightarrow> address client" where
  "dial a C = (C, Some (if map_of (cNodes C) a = None then Inl ErrIO else Inr a))"

text \<open>A request over a connection; when its broker has stopped, the connection is closed.\<close>

definition at_conn :: "surroundings \<Rightarrow> address \<Rightarrow> 'a request \<Rightarrow> 'a client" where
  "at_conn w a f C =
     (case map_of (cNodes C) a of
        None \<Rightarrow> (C, Some (Inl EOF))
      | Some b \<Rightarrow>
          (case f (onWait w (cClock C) a) (cClock C) b of
             (b', r) \<Rightarrow> (C\<lparr>cClock := cClock C + int (latency w C), cNodes := mput a b' (cNodes C)\<rparr>, r)))"

text \<open>
  Two requests in two goroutines, to the same broker. The second one arrives when the first has
  been answered or waits; in the latter case it is part of what happens while the first waits.
  A request that is not answered within the five seconds of \<open>receiveJoinGroup\<close> and
  \<open>receiveSyncGroup\<close> ends the client.
\<close>

definition after_first :: "'a request \<Rightarrow> 'b request \<Rightarrow> ('a \<times> 'b) request" where
  "after_first f g env now b =
     (case f id now b of (b1, r1) \<Rightarrow>
      case g env now b1 of (b2, r2) \<Rightarrow>
      case (if r1 = None then f (\<lambda>b. env (fst (g env now b))) now b else (b2, r1)) of (b3, r1') \<Rightarrow>
        (b3, case (r1', r2) of
               (Some (Inr x), Some (Inr y)) \<Rightarrow> Some (Inr (x, y))
             | _ \<Rightarrow> Some (Inl ErrUnexpected)))"

definition flip_pair :: "go_error + 'a \<times> 'b \<Rightarrow> go_error + 'b \<times> 'a" where
  "flip_pair r = map_sum id (\<lambda>(x, y). (y, x)) r"

definition both_requests :: "bool \<Rightarrow> 'a request \<Rightarrow> 'b request \<Rightarrow> ('a \<times> 'b) request" where
  "both_requests ordered f g env now b =
     (if ordered then after_first f g env now b else map_prod id (map_option flip_pair) (after_first g f env now b))"

definition at_conns :: "surroundings \<Rightarrow> address \<Rightarrow> 'a request \<Rightarrow> address \<Rightarrow> 'b request \<Rightarrow> ('a \<times> 'b) client" where
  "at_conns w a f a' g C =
     (if a = a' then at_conn w a (both_requests (inOrder w C) f g) C
      else (case at_conn w a f C of (C1, r1) \<Rightarrow>
            case at_conn w a' g C1 of (C2, r2) \<Rightarrow>
              (C2, case (r1, r2) of
                     (Some (Inr x), Some (Inr y)) \<Rightarrow> Some (Inr (x, y))
                   | _ \<Rightarrow> Some (Inl ErrUnexpected))))"

definition sleep :: "surroundings \<Rightarrow> nat \<Rightarrow> cluster \<Rightarrow> cluster" where
  "sleep w ms C = (let C' = C\<lparr>cClock := cClock C + int ms\<rparr> in C'\<lparr>cNodes := onSleep w C'\<rparr>)"

fun cfor :: "('a \<Rightarrow> 's \<Rightarrow> 's \<times> (go_error + unit) option) \<Rightarrow> 'a list \<Rightarrow> 's \<Rightarrow> 's \<times> (go_error + unit) option" where
  "cfor f [] = creturn ()"
| "cfor f (x # xs) = cbind (f x) (\<lambda>_. cfor f xs)"

section \<open>Topics\<close>

lemma at_conn_clock: "(C', r) = at_conn w a f C \<Longrightarrow> cClock C \<le> cClock C'"
  by (auto simp: at_conn_def split: option.splits prod.splits)

lemma poll_later: "(C', r) = at_conn w a f C \<Longrightarrow> 0 < ms \<Longrightarrow> cClock C < cClock (sleep w ms C')"
  using at_conn_clock [of C' r w a f C] by (simp add: sleep_def Let_def)

function poll_topic :: "surroundings \<Rightarrow> address \<Rightarrow> string \<Rightarrow> int32 \<Rightarrow> int \<Rightarrow> unit client" where
  "poll_topic w conn name corr deadline C =
     (if cClock C < deadline then
        (case at_conn w conn (\<lambda>env now. metadataHasTopic env now name corr) C of
           (C', None) \<Rightarrow> (C', None)
         | (C', Some (Inl err)) \<Rightarrow> (C', Some (Inl err))
         | (C', Some (Inr True)) \<Rightarrow> (C', Some (Inr ()))
         | (C', Some (Inr False)) \<Rightarrow> poll_topic w conn name corr deadline (sleep w 100 C'))
      else (C, Some (Inl ErrUnexpected)))"
  by pat_completeness auto

termination
  by (relation "measure (\<lambda>(w, conn, name, corr, deadline, C). nat (deadline - cClock C))") (auto intro: poll_later)

declare poll_topic.simps [simp del]

definition waitForTopicVisible :: "surroundings \<Rightarrow> address \<Rightarrow> string \<Rightarrow> int32 \<Rightarrow> unit client" where
  "waitForTopicVisible w conn name corr C = poll_topic w conn name corr (cClock C + 3000) C"

definition checkCreateTopicWithReplicationFactor ::
    "surroundings \<Rightarrow> address \<Rightarrow> string \<Rightarrow> int32 \<Rightarrow> int16 \<Rightarrow> int32 \<Rightarrow> int16 \<Rightarrow> unit client" where
  "checkCreateTopicWithReplicationFactor w conn name partitions replicationFactor corr wantCode =
     cbind (at_conn w conn (\<lambda>env now. fetchMetadataController env now corr)) (\<lambda>(ctrl, bs).
     cbind (case findMetadataBroker bs ctrl of None \<Rightarrow> creturn conn | Some c \<Rightarrow> dial (mbHost c, mbPort c)) (\<lambda>target.
     cbind (at_conn w target (\<lambda>env now. writeAndAssertTopicResult env now (client_header 19 0 corr)
              (create_topic_body name partitions replicationFactor) name wantCode)) (\<lambda>_.
     if wantCode = 0 then waitForTopicVisible w conn name corr else creturn ())))"

definition checkCreateTopic :: "surroundings \<Rightarrow> address \<Rightarrow> string \<Rightarrow> int32 \<Rightarrow> int32 \<Rightarrow> int16 \<Rightarrow> unit client" where
  "checkCreateTopic w conn name partitions corr wantCode =
     checkCreateTopicWithReplicationFactor w conn name partitions 1 corr wantCode"

definition checkCreateTopics :: "surroundings \<Rightarrow> address \<Rightarrow> int32 \<Rightarrow> int16 \<Rightarrow> unit client" where
  "checkCreateTopics w conn corr wantCode = checkCreateTopic w conn ''orders'' 3 corr wantCode"

definition checkCreateTopicViaController :: "surroundings \<Rightarrow> address \<Rightarrow> string \<Rightarrow> int32 \<Rightarrow> unit client" where
  "checkCreateTopicViaController w conn topicName partitions =
     cbind (cexpect (topicName \<noteq> [])) (\<lambda>_.
     cbind (at_conn w conn (\<lambda>env now. fetchMetadataController env now 286)) (\<lambda>(ctrl, bs).
     case findMetadataBroker bs ctrl of
       None \<Rightarrow> clift (Inl ErrUnexpected)
     | Some c \<Rightarrow>
         cbind (dial (mbHost c, mbPort c)) (\<lambda>target.
         checkCreateTopicWithReplicationFactor w target topicName partitions (of_int (int (length bs))) 287 0)))"

section \<open>Records\<close>

definition checkProduceToPartition :: "string \<Rightarrow> int32 \<Rightarrow> string \<Rightarrow> int32 \<Rightarrow> int64 \<Rightarrow> unit request" where
  "checkProduceToPartition name idx val corr wantBaseOffset env now =
     cbind (produceRawBatch env now name idx (buildRecordBatch val (-1) (-1) (-1)) corr) (\<lambda>(baseOffset, errorCode).
     cexpect (errorCode = 0 \<and> baseOffset = wantBaseOffset))"

definition checkProduce :: "string \<Rightarrow> int32 \<Rightarrow> int64 \<Rightarrow> unit request" where
  "checkProduce val corr wantBaseOffset = checkProduceToPartition ''orders'' 0 val corr wantBaseOffset"

definition checkFetchFromPartition :: "string \<Rightarrow> int32 \<Rightarrow> int64 \<Rightarrow> int32 \<Rightarrow> int64 \<Rightarrow> string list \<Rightarrow> unit request" where
  "checkFetchFromPartition name idx off corr wantHighWatermark wantValues env now =
     cbind (fetchPartitionValues env now name idx off corr) (\<lambda>(highWatermark, vs, errorCode).
     cexpect (errorCode = 0 \<and> highWatermark = wantHighWatermark \<and> length vs = length wantValues
       \<and> list_all (\<lambda>i. vs ! i = wantValues ! i) [0..<length vs]))"

text \<open>\<open>fmt.Sprintf("msg-%d", i)\<close>\<close>

definition msg :: "int \<Rightarrow> string" where
  "msg i = ''msg-'' @ Itoa i"

definition checkFetch :: "unit request" where
  "checkFetch = checkFetchFromPartition ''orders'' 0 0 58 10 (map msg [0..9])"

definition checkMultiPartition :: "surroundings \<Rightarrow> address \<Rightarrow> unit client" where
  "checkMultiPartition w conn =
     cbind (checkCreateTopic w conn ''events'' 3 80 0) (\<lambda>_.
     cbind (cfor (\<lambda>(idx, val, corr, off). at_conn w conn (checkProduceToPartition ''events'' idx val corr off))
       [(0, ''a'', 81, 0), (0, ''b'', 82, 1), (1, ''c'', 83, 0), (2, ''d'', 84, 0), (2, ''e'', 85, 1), (2, ''f'', 86, 2)]) (\<lambda>_.
     cbind (at_conn w conn (\<lambda>env now. checkListOffsets env now ''events'' 1 (-1) 87 1)) (\<lambda>_.
     cbind (at_conn w conn (\<lambda>env now. checkListOffsets env now ''events'' 2 (-1) 88 3)) (\<lambda>_.
     cbind (at_conn w conn (\<lambda>env now. checkListOffsets env now ''events'' 0 (-2) 89 0)) (\<lambda>_.
     cbind (at_conn w conn (\<lambda>env now. checkListOffsets env now ''events'' 2 (-2) 90 0)) (\<lambda>p2Start.
     cbind (at_conn w conn (checkFetchFromPartition ''events'' 2 p2Start 91 3 [''d'', ''e'', ''f''])) (\<lambda>_.
     at_conn w conn (checkFetchFromPartition ''events'' 1 0 92 1 [''c'']))))))))"

text \<open>A topic name made of a prefix and \<open>time.Now().UnixNano()\<close>.\<close>

definition stamped_name :: "string \<Rightarrow> int \<Rightarrow> string" where
  "stamped_name pre nanos = pre @ Itoa nanos"

definition topic_or :: "string \<Rightarrow> int \<Rightarrow> string \<Rightarrow> string" where
  "topic_or pre nanos topicName = (if topicName = [] then stamped_name pre nanos else topicName)"

definition checkIdempotentProducer :: "surroundings \<Rightarrow> int \<Rightarrow> address \<Rightarrow> unit client" where
  "checkIdempotentProducer w nanos conn =
     cbind (at_conn w conn (\<lambda>env now. checkInitProducerID env now 170)) (\<lambda>(pd, epoch).
     let topicName = stamped_name ''idem-'' nanos in
     cbind (checkCreateTopic w conn topicName 1 171 0) (\<lambda>_.
     cbind (at_conn w conn (\<lambda>env now. idempotent_rounds env now topicName pd epoch)) (\<lambda>_.
     at_conn w conn (checkFetchFromPartition topicName 0 0 176 2 [''dup-me'', ''second'']))))"

section \<open>Replicas, failover and elections\<close>

definition equalStrings :: "string list \<Rightarrow> string list \<Rightarrow> bool" where
  "equalStrings a b \<longleftrightarrow> length a = length b \<and> list_all (\<lambda>i. a ! i = b ! i) [0..<length a]"

text \<open>
  A request that fails is tried again after a pause; a response that cannot be decoded ends the
  client (\<open>Panic\<close>).
\<close>

function poll_replica :: "surroundings \<Rightarrow> address \<Rightarrow> string \<Rightarrow> int64 \<Rightarrow> string list \<Rightarrow> int \<Rightarrow> unit client" where
  "poll_replica w addr topicName wantHighWatermark wantValues deadline C =
     (if cClock C < deadline then
        (case at_conn w addr (\<lambda>env now. fetchPartitionValues env now topicName 0 0 220) C of
           (C', None) \<Rightarrow> (C', None)
         | (C', Some (Inl Panic)) \<Rightarrow> (C', Some (Inl Panic))
         | (C', Some (Inl err)) \<Rightarrow> poll_replica w addr topicName wantHighWatermark wantValues deadline (sleep w 200 C')
         | (C', Some (Inr (hw, vs, errorCode))) \<Rightarrow>
             (if errorCode = 0 \<and> hw = wantHighWatermark \<and> equalStrings vs wantValues then (C', Some (Inr ()))
              else poll_replica w addr topicName wantHighWatermark wantValues deadline (sleep w 200 C')))
      else (C, Some (Inl ErrUnexpected)))"
  by pat_completeness auto

termination
  by (relation "measure (\<lambda>(w, addr, topicName, hw, vs, deadline, C). nat (deadline - cClock C))") (auto intro: poll_later)

declare poll_replica.simps [simp del]

definition waitForReplicaFetch :: "surroundings \<Rightarrow> address \<Rightarrow> string \<Rightarrow> int64 \<Rightarrow> string list \<Rightarrow> unit client" where
  "waitForReplicaFetch w addr topicName wantHighWatermark wantValues C =
     poll_replica w addr topicName wantHighWatermark wantValues (cClock C + 5000) C"

definition local_addrs :: "address list" where
  "local_addrs = [(''localhost'', 9092), (''localhost'', 9093), (''localhost'', 9094)]"

definition checkMetadataLeaders :: "surroundings \<Rightarrow> int \<Rightarrow> address \<Rightarrow> string \<Rightarrow> unit client" where
  "checkMetadataLeaders w nanos conn name =
     (let topicName = topic_or ''leader-events-'' nanos name in
      cbind (checkCreateTopic w conn topicName 6 178 0) (\<lambda>_.
      at_conn w conn (\<lambda>env now. checkMetadataLeaderCounts env now topicName 179)))"

definition checkReplicaSync :: "surroundings \<Rightarrow> int \<Rightarrow> address \<Rightarrow> string \<Rightarrow> int \<Rightarrow> unit client" where
  "checkReplicaSync w nanos conn name cnt =
     (let topicName = topic_or ''repl-'' nanos name; want = map msg [0..cnt - 1] in
      cbind (checkCreateTopicWithReplicationFactor w conn topicName 1 3 180 0) (\<lambda>_.
      cbind (cexpect (0 \<le> cnt)) (\<lambda>_.
      cbind (cfor (\<lambda>i. at_conn w conn (checkProduceToPartition topicName 0 (msg i) (of_int (181 + i)) (of_int i))) [0..cnt - 1]) (\<lambda>_.
      cfor (\<lambda>addr. waitForReplicaFetch w addr topicName (of_int cnt) want) local_addrs))))"

text \<open>A request that is timed.\<close>

definition timed :: "'a client \<Rightarrow> ('a \<times> int) client" where
  "timed f C = cbind f (\<lambda>x C'. creturn (x, cClock C' - cClock C) C') C"

definition checkAcksAll :: "surroundings \<Rightarrow> int \<Rightarrow> address \<Rightarrow> string \<Rightarrow> unit client" where
  "checkAcksAll w nanos conn name =
     (let topicName = topic_or ''acks-'' nanos name in
      cbind (checkCreateTopicWithReplicationFactor w conn topicName 1 3 230 0) (\<lambda>_.
      cbind (timed (at_conn w conn (\<lambda>env now. produceRawBatchWithAcks env now topicName 0
               (buildRecordBatch ''acks-one'' (-1) (-1) (-1)) 231 1 10000))) (\<lambda>((baseOffset, errorCode), acksOneDuration).
      cbind (cexpect (errorCode = 0 \<and> baseOffset = 0 \<and> acksOneDuration \<le> 300)) (\<lambda>_.
      cbind (timed (at_conn w conn (\<lambda>env now. produceRawBatchWithAcks env now topicName 0
               (buildRecordBatch ''acks-all'' (-1) (-1) (-1)) 232 (-1) 10000))) (\<lambda>((baseOffset, errorCode), acksAllDuration).
      cbind (cexpect (errorCode = 0 \<and> baseOffset = 1 \<and> 1000 \<le> acksAllDuration)) (\<lambda>_.
      cfor (\<lambda>addr. waitForReplicaFetch w addr topicName 2 [''acks-one'', ''acks-all'']) local_addrs))))))"

definition produce_acked :: "string \<Rightarrow> int32 \<Rightarrow> string \<Rightarrow> int32 \<Rightarrow> int64 \<Rightarrow> unit request" where
  "produce_acked topicName idx val corr wantOffset env now =
     cbind (produceRawBatchWithAcks env now topicName idx (buildRecordBatch val (-1) (-1) (-1)) corr (-1) 10000) (\<lambda>(off, errorCode).
     cexpect (errorCode = ErrNone \<and> off = wantOffset))"

definition checkFailoverProduce :: "surroundings \<Rightarrow> address \<Rightarrow> string \<Rightarrow> unit client" where
  "checkFailoverProduce w conn topicName =
     cbind (cexpect (topicName \<noteq> [])) (\<lambda>_.
     cbind (checkCreateTopicWithReplicationFactor w conn topicName 1 3 240 0) (\<lambda>_.
     cfor (\<lambda>i. at_conn w conn (produce_acked topicName 0 (msg i) (of_int (241 + i)) (of_int i))) [0..4]))"

definition dial_broker :: "metadataBroker list \<Rightarrow> int32 \<Rightarrow> address client" where
  "dial_broker bs i = (case findMetadataBroker bs i of None \<Rightarrow> clift (Inl ErrUnexpected) | Some br \<Rightarrow> dial (mbHost br, mbPort br))"

definition checkFailoverVerify :: "surroundings \<Rightarrow> address \<Rightarrow> string \<Rightarrow> unit client" where
  "checkFailoverVerify w conn topicName =
     cbind (cexpect (topicName \<noteq> [])) (\<lambda>_.
     cbind (at_conn w conn (\<lambda>env now. fetchMetadataPartitionLeader env now topicName 250)) (\<lambda>(lead, bs).
     cbind (cexpect (lead = 2)) (\<lambda>_.
     cbind (dial_broker bs lead) (\<lambda>leaderConn.
     cbind (cfor (\<lambda>i. at_conn w leaderConn (produce_acked topicName 0 (msg i) (of_int (251 + i)) (of_int i))) [5..9]) (\<lambda>_.
     at_conn w leaderConn (checkFetchFromPartition topicName 0 0 270 10 (map msg [0..9])))))))"

definition leader_of :: "(int32, int32) gomap \<Rightarrow> int32 \<Rightarrow> int32" where
  "leader_of leaders idx = (case map_of leaders idx of None \<Rightarrow> 0 | Some i \<Rightarrow> i)"

definition checkControllerProduce :: "surroundings \<Rightarrow> address \<Rightarrow> string \<Rightarrow> unit client" where
  "checkControllerProduce w conn topicName =
     cbind (cexpect (topicName \<noteq> [])) (\<lambda>_.
     cbind (checkCreateTopicWithReplicationFactor w conn topicName 3 3 280 0) (\<lambda>_.
     cbind (at_conn w conn (\<lambda>env now. fetchMetadataTopicLeaders env now topicName 281)) (\<lambda>(_, leaders, bs).
     cbind (cexpect (leader_of leaders 2 = 3)) (\<lambda>_.
     cbind (dial_broker bs (leader_of leaders 2)) (\<lambda>leaderConn.
     at_conn w leaderConn (produce_acked topicName 2 ''before-controller-fail'' 282 0))))))"

definition checkControllerVerify :: "surroundings \<Rightarrow> address \<Rightarrow> string \<Rightarrow> unit client" where
  "checkControllerVerify w conn topicName =
     cbind (cexpect (topicName \<noteq> [])) (\<lambda>_.
     cbind (at_conn w conn (\<lambda>env now. fetchMetadataTopicLeaders env now topicName 282)) (\<lambda>(ctrl, leaders, bs).
     cbind (cexpect (ctrl = 2)) (\<lambda>_.
     cbind (dial (''localhost'', 9093)) (\<lambda>secondControllerConn.
     cbind (at_conn w secondControllerConn (\<lambda>env now. fetchMetadataTopicLeaders env now topicName 283)) (\<lambda>(ctrl', _).
     cbind (cexpect (ctrl' = 2)) (\<lambda>_.
     cbind (cexpect (list_all (\<lambda>(_, lead). lead \<noteq> 3) leaders)) (\<lambda>_.
     cbind (dial_broker bs (leader_of leaders 2)) (\<lambda>leaderConn.
     cbind (at_conn w leaderConn (produce_acked topicName 2 ''after-controller-fail'' 284 1)) (\<lambda>_.
     at_conn w leaderConn
       (checkFetchFromPartition topicName 2 0 285 2 [''before-controller-fail'', ''after-controller-fail'']))))))))))"

section \<open>Consumer groups\<close>

text \<open>Which of the two members leads, with the connections of the leader and of the other one.\<close>

definition pick_leader ::
    "address \<Rightarrow> address \<Rightarrow> joinGroupResult \<times> joinGroupResult \<Rightarrow> joinGroupResult \<times> joinGroupResult \<times> address \<times> address" where
  "pick_leader conn conn' js =
     (case js of (first, second) \<Rightarrow>
        if jgMemberID second = jgLeaderID second then (second, first, conn', conn) else (first, second, conn, conn'))"

text \<open>The plan of the leader and the two \<open>SyncGroup\<close> requests; the results are the leader's and the follower's.\<close>

definition sync_both ::
    "surroundings \<Rightarrow> string \<Rightarrow> string \<Rightarrow> joinGroupResult \<times> joinGroupResult \<times> address \<times> address \<Rightarrow> int32 \<Rightarrow> int32
     \<Rightarrow> (syncGroupResult \<times> syncGroupResult) client" where
  "sync_both w groupID topicName picked corr corr' =
     (case picked of (leader, follower, leaderConn, followerSyncConn) \<Rightarrow>
      cbind (clift (buildAssignments (jgMembers leader) (jgProtocolName leader) [(topicName, 3)])) (\<lambda>as.
      cbind (at_conns w followerSyncConn
          (\<lambda>env now. checkSyncGroup env now groupID (jgGenerationID follower) (jgMemberID follower) [] corr)
        leaderConn (\<lambda>env now. checkSyncGroup env now groupID (jgGenerationID leader) (jgMemberID leader) as corr')) (\<lambda>(followerSync, leaderSync).
      creturn (leaderSync, followerSync))))"

definition assignments_of :: "syncGroupResult list \<Rightarrow> (string, bytes) gomap" where
  "assignments_of rs = fold (\<lambda>r. mput (sgMemberID r) (bytes_of (sgAssignment r))) rs []"

definition checkConsumerGroup :: "surroundings \<Rightarrow> address \<Rightarrow> unit client" where
  "checkConsumerGroup w conn =
     cbind (checkCreateTopic w conn ''group-events'' 3 120 0) (\<lambda>_.
     cbind (dial (''localhost'', 9092)) (\<lambda>followerConn.
     let groupID = ''orders-consumers''; topicName = ''group-events'' in
     cbind (at_conns w conn (\<lambda>env now. checkJoinGroup env now groupID ''client-a'' [] 30000 121 [topicName])
              followerConn (\<lambda>env now. checkJoinGroup env now groupID ''client-b'' [] 30000 122 [topicName])) (\<lambda>js.
     let picked = pick_leader conn followerConn js; leader = fst picked; follower = fst (snd picked) in
     cbind (cexpect (jgLeaderID leader \<noteq> [] \<and> jgLeaderID leader = jgMemberID leader \<and> jgLeaderID follower = jgMemberID leader
       \<and> jgGenerationID leader = 1 \<and> jgGenerationID follower = 1 \<and> jgProtocolName leader = ''range'' \<and> jgProtocolName follower = ''range''
       \<and> length (jgMembers leader) = 2 \<and> length (jgMembers follower) = 0)) (\<lambda>_.
     cbind (sync_both w groupID topicName picked 123 124) (\<lambda>(leaderSync, followerSync).
     clift (assertConsumerGroupAssignments (assignments_of [leaderSync, followerSync]) topicName 3))))))"

definition checkConsumerGroupRoundRobin :: "surroundings \<Rightarrow> int \<Rightarrow> address \<Rightarrow> unit client" where
  "checkConsumerGroupRoundRobin w nanos conn =
     (let groupID = stamped_name ''roundrobin-consumers-'' nanos; topicName = stamped_name ''roundrobin-events-'' nanos in
      cbind (checkCreateTopic w conn topicName 3 125 0) (\<lambda>_.
      cbind (dial (''localhost'', 9092)) (\<lambda>followerConn.
      cbind (at_conns w conn
          (\<lambda>env now. checkJoinGroupWithProtocols env now groupID ''client-a'' [] 30000 126 [topicName] [''roundrobin''])
        followerConn
          (\<lambda>env now. checkJoinGroupWithProtocols env now groupID ''client-b'' [] 30000 127 [topicName] [''roundrobin''])) (\<lambda>(first, second).
      let picked = pick_leader conn followerConn (first, second) in
      cbind (cexpect (jgProtocolName (fst picked) = ''roundrobin'' \<and> jgProtocolName (fst (snd picked)) = ''roundrobin'')) (\<lambda>_.
      cbind (sync_both w groupID topicName picked 128 129) (\<lambda>(leaderSync, followerSync).
      cbind (clift (partitionsForAssignment (bytes_of (sgAssignment leaderSync)) topicName)) (\<lambda>ps.
      cbind (clift (partitionsForAssignment (bytes_of (sgAssignment followerSync)) topicName)) (\<lambda>ps'.
      let got = mput (sgMemberID followerSync) ps' (mput (sgMemberID leaderSync) ps []);
          memberIDs = sort [jgMemberID first, jgMemberID second];
          want = mput (memberIDs ! 1) [1] (mput (memberIDs ! 0) [0, 2] [])
      in cexpect (equalPartitionMap got want)))))))))"

text \<open>Ten heartbeats, until one is told that a rebalance is in progress.\<close>

fun poll_heartbeat :: "surroundings \<Rightarrow> address \<Rightarrow> string \<Rightarrow> joinGroupResult \<Rightarrow> int list \<Rightarrow> unit client" where
  "poll_heartbeat w conn groupID survivor [] = cexpect False"
| "poll_heartbeat w conn groupID survivor (attempts # rest) = (\<lambda>C.
     cbind (at_conn w conn (\<lambda>env now. checkHeartbeat env now groupID (jgGenerationID survivor) (jgMemberID survivor) (of_int (140 + attempts))))
       (\<lambda>heartbeatCode.
          if heartbeatCode = 27 then creturn ()
          else if heartbeatCode \<noteq> 0 then cexpect False
          else poll_heartbeat w conn groupID survivor rest)
       (sleep w 300 C))"

definition checkConsumerGroupRebalance :: "surroundings \<Rightarrow> int \<Rightarrow> address \<Rightarrow> unit client" where
  "checkConsumerGroupRebalance w nanos conn =
     cbind (dial (''localhost'', 9092)) (\<lambda>deadConn.
     let groupID = stamped_name ''rebalance-consumers-'' nanos; topicName = stamped_name ''rebalance-events-'' nanos in
     cbind (checkCreateTopic w conn topicName 3 130 0) (\<lambda>_.
     cbind (at_conns w conn (\<lambda>env now. checkJoinGroup env now groupID ''survivor'' [] 1500 131 [topicName])
              deadConn (\<lambda>env now. checkJoinGroup env now groupID ''crasher'' [] 1500 132 [topicName])) (\<lambda>(first, second).
     cbind (sync_both w groupID topicName (pick_leader conn deadConn (first, second)) 133 134) (\<lambda>(leaderSync, followerSync).
     cbind (clift (assertConsumerGroupAssignments (assignments_of [leaderSync, followerSync]) topicName 3)) (\<lambda>_.
     cbind (cexpect (jgMemberID second \<noteq> jgMemberID first)) (\<lambda>_.
     cbind (poll_heartbeat w conn groupID first [0..9]) (\<lambda>_.
     cbind (at_conn w conn (\<lambda>env now. checkJoinGroup env now groupID ''survivor'' (jgMemberID first) 1500 151 [topicName])) (\<lambda>rejoined.
     cbind (cexpect (jgGenerationID rejoined = 2 \<and> jgMemberID rejoined = jgMemberID first \<and> jgLeaderID rejoined = jgMemberID first
       \<and> length (jgMembers rejoined) = 1)) (\<lambda>_.
     cbind (clift (buildAssignments (jgMembers rejoined) (jgProtocolName rejoined) [(topicName, 3)])) (\<lambda>rejoinAssignments.
     cbind (at_conn w conn (\<lambda>env now. checkSyncGroup env now groupID (jgGenerationID rejoined) (jgMemberID rejoined) rejoinAssignments 152)) (\<lambda>rejoinedSync.
     cbind (clift (assertConsumerGroupAssignments (assignments_of [rejoinedSync]) topicName 3)) (\<lambda>_.
     cbind (at_conn w conn (\<lambda>env now. checkLeaveGroup env now groupID (jgMemberID rejoined) 153)) (\<lambda>code.
     cexpect (code = 0))))))))))))))"

section \<open>The modes of the client\<close>

definition checkFindCoordinator :: "string \<Rightarrow> int32 \<Rightarrow> unit request" where
  "checkFindCoordinator groupID corr env now =
     client_call env now (client_header 10 0 corr) (WriteString groupID)
       (dbind ReadInt16 (\<lambda>errorCode.
        dbind ReadInt32 (\<lambda>nodeID.
        dbind ReadString (\<lambda>host.
        dbind ReadInt32 (\<lambda>port.
        expect (errorCode = 0 \<and> nodeID = 1 \<and> host = ''localhost'' \<and> port = 9092))))))"

text \<open>The lines that \<open>checkMetadataSnapshot\<close> prints for the topics (\<open>%v\<close> of a slice of ids).\<close>

definition show_ids :: "int32 list \<Rightarrow> string" where
  "show_ids xs = ''['' @ concat (map (\<lambda>(i, x). (if i = 0 then [] else '' '') @ Itoa (sint x)) (enumerate 0 xs)) @ '']''"

definition snapshot_partition :: "int16 \<Rightarrow> string list decoder" where
  "snapshot_partition topicErrorCode =
     dbind ReadInt16 (\<lambda>partitionErrorCode.
     dbind ReadInt32 (\<lambda>idx.
     dbind ReadInt32 (\<lambda>lead.
     dbind readMetadataIDsForSnapshot (\<lambda>replicas.
     dbind readMetadataIDsForSnapshot (\<lambda>isr.
     dreturn (if topicErrorCode = 0 \<and> partitionErrorCode = 0
       then [Itoa (sint idx) @ '':'' @ Itoa (sint lead) @ '':'' @ show_ids replicas @ '':'' @ show_ids isr] else []))))))"

definition snapshot_topic :: "string \<Rightarrow> string list decoder" where
  "snapshot_topic topicName =
     dbind ReadInt16 (\<lambda>topicErrorCode.
     dbind ReadString (\<lambda>name.
     dbind ReadArrayLen (\<lambda>partitionCount.
     dbind (dmake partitionCount (snapshot_partition topicErrorCode)) (\<lambda>partitions.
     dreturn (if topicName = [] \<or> topicName = name then [name @ ''['' @ join (concat partitions) @ '']''] else [])))))"

definition checkMetadataSnapshot :: "string \<Rightarrow> int32 \<Rightarrow> (int32 \<times> metadataBroker list \<times> string list) request" where
  "checkMetadataSnapshot topicName corr env now =
     metadata_call env now corr
       (dbind readMetadataHeader (\<lambda>(bs, ctrl).
        dbind ReadArrayLen (\<lambda>topicCount.
        dbind (dmake topicCount (snapshot_topic topicName)) (\<lambda>snapshots.
        dreturn (ctrl, bs, sort (concat snapshots))))))"

text \<open>
  \<open>main\<close> after its flags are read: \<open>addr\<close>, \<open>mode\<close>, \<open>topicFlag\<close> and \<open>n\<close>.
\<close>

definition produce_ten :: "surroundings \<Rightarrow> address \<Rightarrow> unit client" where
  "produce_ten w conn =
     cbind (checkCreateTopics w conn 44 0) (\<lambda>_.
     cbind (at_conn w conn (\<lambda>env now. checkMetadataTopic env now ''orders'' True 3)) (\<lambda>_.
     cbind (cfor (\<lambda>i. at_conn w conn (checkProduce (msg i) (of_int (48 + i)) (of_int i))) [0..9]) (\<lambda>_.
     at_conn w conn checkFetch)))"

definition run_mode :: "surroundings \<Rightarrow> int \<Rightarrow> string \<Rightarrow> address \<Rightarrow> string \<Rightarrow> int \<Rightarrow> unit client" where
  "run_mode w nanos mode conn topicFlag n =
     (if mode = ''full'' then
        cbind (produce_ten w conn) (\<lambda>_.
        cbind (at_conn w conn checkCreateTopicsDuplicate) (\<lambda>_.
        cbind (at_conn w conn (\<lambda>env now. checkDeleteTopics env now ''orders'' 0)) (\<lambda>_.
        cbind (at_conn w conn (\<lambda>env now. checkMetadataTopic env now ''orders'' False 0)) (\<lambda>_.
        at_conn w conn (\<lambda>env now. checkDeleteTopics env now ''ghost'' 3)))))
      else if mode = ''produce-fetch'' then produce_ten w conn
      else if mode = ''fetch-only'' then
        cbind (at_conn w conn (\<lambda>env now. checkMetadataTopic env now ''orders'' True 1)) (\<lambda>_. at_conn w conn checkFetch)
      else if mode = ''multi-partition'' then checkMultiPartition w conn
      else if mode = ''metadata-cluster'' then at_conn w conn checkMetadataCluster
      else if mode = ''metadata-leaders'' then checkMetadataLeaders w nanos conn topicFlag
      else if mode = ''metadata-leaders-check'' then
        cbind (cexpect (topicFlag \<noteq> [])) (\<lambda>_. at_conn w conn (\<lambda>env now. checkMetadataLeaderCounts env now topicFlag 179))
      else if mode = ''metadata-snapshot'' then cbind (at_conn w conn (checkMetadataSnapshot topicFlag 179)) (\<lambda>_. creturn ())
      else if mode = ''create-topic'' then checkCreateTopicViaController w conn topicFlag (of_int n)
      else if mode = ''replica-sync'' then checkReplicaSync w nanos conn topicFlag n
      else if mode = ''acks-all'' then checkAcksAll w nanos conn topicFlag
      else if mode = ''find-coordinator'' then
        cbind (at_conn w conn (checkFindCoordinator ''group-a'' 100)) (\<lambda>_. at_conn w conn (checkFindCoordinator ''anything'' 101))
      else if mode = ''consumer-group'' then checkConsumerGroup w conn
      else if mode = ''consumer-group-rebalance'' then checkConsumerGroupRebalance w nanos conn
      else if mode = ''consumer-group-roundrobin'' then checkConsumerGroupRoundRobin w nanos conn
      else if mode = ''offset-commit-fetch'' then
        cbind (at_conn w conn (\<lambda>env now. checkOffsetCommit env now 160 ''offset-group'' ''offset-events'' 0 42)) (\<lambda>_.
        at_conn w conn (\<lambda>env now. checkOffsetFetch env now 161 ''offset-group'' ''offset-events'' 0 42))
      else if mode = ''offset-commit'' then
        at_conn w conn (\<lambda>env now. checkOffsetCommit env now 160 ''offset-group'' ''offset-events'' 0 42)
      else if mode = ''offset-fetch'' then
        at_conn w conn (\<lambda>env now. checkOffsetFetch env now 161 ''offset-group'' ''offset-events'' 0 42)
      else if mode = ''idempotent-producer'' then checkIdempotentProducer w nanos conn
      else if mode = ''failover-produce'' then checkFailoverProduce w conn topicFlag
      else if mode = ''failover-verify'' then checkFailoverVerify w conn topicFlag
      else if mode = ''controller-produce'' then checkControllerProduce w conn topicFlag
      else if mode = ''controller-verify'' then checkControllerVerify w conn topicFlag
      else clift (Inl ErrUnexpected))"

definition client_main :: "surroundings \<Rightarrow> int \<Rightarrow> string \<Rightarrow> address \<Rightarrow> string \<Rightarrow> int \<Rightarrow> unit client" where
  "client_main w nanos mode addr topicFlag n =
     cbind (dial addr) (\<lambda>conn.
     cbind (at_conn w conn checkUnknownAPI) (\<lambda>_.
     cbind (at_conn w conn checkApiVersions) (\<lambda>_.
     run_mode w nanos mode conn topicFlag n)))"

end
