(* ===== verification/Client_Correct.thy ===== *)
theory Client_Correct
  imports Client_Cluster
begin

text \<open>
  What the client's scenarios show of a cluster: a topic that the controller creates appears on
  the broker the client is connected to.
\<close>

section \<open>Metadata through the cluster\<close>

text \<open>A request from one broker to another, through the dispatcher of the other.\<close>

definition cluster_net :: "cluster \<Rightarrow> transport" where
  "cluster_net C br payload =
     (case map_of (cNodes C) (Host br, Port br) of
        None \<Rightarrow> Inl ErrIO
      | Some b \<Rightarrow> (case Dispatch id (cClock C) b payload of (_, Some (Inr response)) \<Rightarrow> Inr response | _ \<Rightarrow> Inl EOF))"

text \<open>While the client sleeps, the broker at \<open>conn\<close> asks its controller for metadata.\<close>

definition follows_controller :: "surroundings \<Rightarrow> address \<Rightarrow> bool" where
  "follows_controller w conn \<longleftrightarrow> (\<forall>C. map_of (onSleep w C) conn
     = map_option (follow_metadata (cluster_net C) (cClock C)) (map_of (cNodes C) conn))"

lemma cluster_net_metadata:
  assumes "map_of (cNodes C) (Host br, Port br) = Some c" "bMetadataLog c = Some ml"
  defines "h \<equiv> \<lparr>APIKey = InternalFetchMetadataLogKey, APIVersion = 0, CorrelationID = 1, ClientID = None\<rparr>"
  shows "cluster_net C br (WriteRequestHeader h @ WriteInt64 off) = metadata_peer ml (WriteRequestHeader h @ WriteInt64 off)"
proof -
  have "ReadRequestHeader (WriteRequestHeader h @ WriteInt64 off) = Inr (h, WriteInt64 off)"
    by (rule header_codec.dec_enc) (simp add: header_ok_def h_def)
  moreover have "map_of (dispatchTable id (cClock C) h) (APIKey h) = Some (\<lambda>b body. (b, handleFetchMetadataLog (bMetadataLog b) body))"
    by (simp add: dispatchTable_def h_def internalApplyTopicKey_def InternalPingKey_def InternalFetchMetadataLogKey_def)
  ultimately show ?thesis
    using assms(1,2) by (simp add: cluster_net_def Dispatch_def metadata_peer_def split: option.split sum.split)
qed

lemma follow_catches_up:
  assumes "bMetadataLog b = Some mlb" "holds mlb rs" "disk mlb = []" "holds mlc (rs @ new)" "length (rs @ new) < 2 ^ 31"
    and "bCluster b = Some ms" "bControllerID b = Some cid" "cid \<noteq> NodeID b" "Membership_Get ms cid = Some br"
    and "map_of (cNodes C) (Host br, Port br) = Some c" "bMetadataLog c = Some mlc"
  obtains ml' where "follow_metadata (cluster_net C) now b = (fold (ApplyMetadataRecord now) new b)\<lparr>bMetadataLog := Some ml'\<rparr>"
proof -
  obtain ml' where "MetadataFollower_fetchOnce (cluster_net C) (Some cid) (ApplyMetadataRecord now)
      \<lparr>metadataLog = mlb, membership = ms, selfID = NodeID b\<rparr> b
    = (\<lparr>metadataLog = mlb, membership = ms, selfID = NodeID b\<rparr>\<lparr>metadataLog := ml'\<rparr>, fold (ApplyMetadataRecord now) new b)"
    by (rule follower_catches_up [of mlc rs new "\<lparr>metadataLog = mlb, membership = ms, selfID = NodeID b\<rparr>" cid br "cluster_net C"
          "ApplyMetadataRecord now" b]) (use assms cluster_net_metadata in auto)
  then show ?thesis using assms(1,6,7) that by (simp add: follow_metadata_def)
qed

lemma fits_metadata_log [simp]: "fits (b\<lparr>bMetadataLog := ml\<rparr>) = fits b"
  by (cases "bCluster b") (simp_all add: fits_def brokers_ok_def metadataBrokers_def)

lemma followed:
  assumes "fits b" "list_all record_valid rs" "length (bTopics b) + length rs < 2 ^ 31" "rs \<noteq> []"
    and "last rs = \<lparr>Type = TopicUpsert, RecordTopic = name, RecordPartitions = ps\<rparr>"
  shows "fits (fold (ApplyMetadataRecord now) rs b)"
    and "Registry_Get (bTopics (fold (ApplyMetadataRecord now) rs b)) name = Some \<lparr>Name = name, PartitionList = ps\<rparr>"
proof -
  show "fits (fold (ApplyMetadataRecord now) rs b)" using fold_Apply_fits assms(1-3) by blast
  have "rs = butlast rs @ [\<lparr>Type = TopicUpsert, RecordTopic = name, RecordPartitions = ps\<rparr>]"
    using assms(4,5) by (metis append_butlast_last_id)
  then have "fold (ApplyMetadataRecord now) rs b
      = ApplyMetadataRecord now \<lparr>Type = TopicUpsert, RecordTopic = name, RecordPartitions = ps\<rparr> (fold (ApplyMetadataRecord now) (butlast rs) b)"
    by (metis fold_append fold_simps(1,2) comp_apply)
  then show "Registry_Get (bTopics (fold (ApplyMetadataRecord now) rs b)) name = Some \<lparr>Name = name, PartitionList = ps\<rparr>"
    by (simp add: Apply_registry apply_record_def)
qed

section \<open>Polling\<close>

lemma at_conn_node: "map_of (cNodes C) a = Some b \<Longrightarrow> f (onWait w (cClock C) a) (cClock C) b = (b', r) \<Longrightarrow>
    at_conn w a f C = (C\<lparr>cClock := cClock C + int (latency w C), cNodes := mput a b' (cNodes C)\<rparr>, r)"
  by (simp add: at_conn_def)

lemma poll_topic_second:
  assumes "map_of (cNodes C) conn = Some b" "fits b" "Registry_Get (bTopics b) name = None"
    and "cClock C + int (latency w C) + 100 < deadline" "cClock C < deadline"
    and "map_of (onSleep w (C\<lparr>cClock := cClock C + int (latency w C) + 100, cNodes := mput conn (fst (TopicInfos (cClock C) b)) (cNodes C)\<rparr>)) conn
      = Some b'" "fits b'" "Registry_Get (bTopics b') name \<noteq> None"
  obtains C' t where "poll_topic w conn name corr deadline C = (C', Some (Inr ()))" "map_of (cNodes C') conn = Some (fst (TopicInfos t b'))"
proof -
  let ?f = "\<lambda>env now. metadataHasTopic env now name corr"
  define C1 where "C1 = sleep w 100 (C\<lparr>cClock := cClock C + int (latency w C), cNodes := mput conn (fst (TopicInfos (cClock C) b)) (cNodes C)\<rparr>)"
  have "at_conn w conn ?f C = (C\<lparr>cClock := cClock C + int (latency w C), cNodes := mput conn (fst (TopicInfos (cClock C) b)) (cNodes C)\<rparr>, Some (Inr False))"
    using at_conn_node [OF assms(1), of ?f w] has_topic_seen [OF assms(2)] assms(3) by simp
  then have step: "poll_topic w conn name corr deadline C = poll_topic w conn name corr deadline C1"
    using assms(5) by (subst poll_topic.simps) (simp add: C1_def)
  have C1: "cClock C1 < deadline" "map_of (cNodes C1) conn = Some b'"
    using assms(4,6) by (cases C; simp add: C1_def sleep_def Let_def)+
  have "poll_topic w conn name corr deadline C1
      = (C1\<lparr>cClock := cClock C1 + int (latency w C1), cNodes := mput conn (fst (TopicInfos (cClock C1) b')) (cNodes C1)\<rparr>, Some (Inr ()))"
    using C1(1) at_conn_node [OF C1(2), of ?f w] has_topic_seen [OF assms(7)] assms(8)
    by (subst poll_topic.simps) (simp split del: if_split)
  then show ?thesis using that step by fastforce
qed

section \<open>Creation through the controller\<close>

text \<open>
  The broker at \<open>conn\<close> has another broker as its controller, where \<open>c\<close> listens. Both keep the
  metadata in a log on a working disk, and the log of the first is a prefix of the other's.
\<close>

definition linked :: "cluster \<Rightarrow> address \<Rightarrow> BrokerNode \<Rightarrow> Broker \<Rightarrow> BrokerNode \<Rightarrow> bool" where
  "linked C conn b br c \<longleftrightarrow> map_of (cNodes C) conn = Some b \<and> map_of (cNodes C) (Host br, Port br) = Some c
     \<and> conn \<noteq> (Host br, Port br) \<and> bControllerID b = Some (BrokerID br) \<and> BrokerID br \<noteq> NodeID b
     \<and> (\<exists>ms. bCluster b = Some ms \<and> Membership_Get ms (BrokerID br) = Some br)
     \<and> (\<exists>mlb mlc rs new. bMetadataLog b = Some mlb \<and> holds mlb rs \<and> disk mlb = []
          \<and> bMetadataLog c = Some mlc \<and> holds mlc (rs @ new) \<and> disk mlc = []
          \<and> length (rs @ new) + length (bTopics b) < 2 ^ 31 - 1)"

lemma find_client_broker: "findMetadataBroker (map client_broker bs) i = map_option client_broker (List.find (\<lambda>b. BrokerID b = i) bs)"
  by (induction bs) (simp_all add: client_broker_def)

lemma createTopic_logged:
  assumes "bMetadataLog c = Some ml" "holds ml rs" "disk ml = []" "int (length rs) < 2 ^ 31"
    and "0 < sint n" "0 < sint rf" "sint rf \<le> int (length (brokerIDs c))" "Registry_Get (bTopics c) name = None"
    and "record_valid \<lparr>Type = TopicUpsert, RecordTopic = name, RecordPartitions = created name n rf c\<rparr>"
  obtains c' ml' where "createTopic now name n rf fanOut c = (c', ErrNone)" "bMetadataLog c' = Some ml'"
    "holds ml' (rs @ [\<lparr>Type = TopicUpsert, RecordTopic = name, RecordPartitions = created name n rf c\<rparr>])"
proof -
  let ?r = "\<lparr>Type = TopicUpsert, RecordTopic = name, RecordPartitions = created name n rf c\<rparr>"
  obtain ml' off where ap: "Append ml (encodeMetadataRecord ?r) = (ml', Inr off)"
    using Append_succeeds assms(2,3) by (metis holds_def)
  then have "holds ml' (rs @ [?r])" using Append_holds [OF assms(2,9) _ ap] assms(4) by simp
  moreover have "createTopic now name n rf fanOut c = (ApplyMetadataRecord now ?r (c\<lparr>bMetadataLog := Some ml'\<rparr>), ErrNone)"
    using ap assms(1,5-8) by (simp add: createTopic_def created_def Let_def MetadataLog_Append_def)
  ultimately show ?thesis using that by (simp add: Apply_fields)
qed

text \<open>The client up to its polling: the controller has logged the topic, and the client's broker has not changed it.\<close>

lemma creation_polls:
  assumes "map_of (cNodes C) conn = Some b" "map_of (cNodes C) (Host br, Port br) = Some c" "conn \<noteq> (Host br, Port br)"
    and "fits b" "bControllerID b = Some (BrokerID br)" "bCluster b = Some ms" "Membership_Get ms (BrokerID br) = Some br"
    and "length name < 2 ^ 15" "\<not> refuses_topics c" "\<And>now. \<exists>c'. createTopic now name n rf True c = (c', ErrNone) \<and> P c'"
  obtains C' c' t where "checkCreateTopicWithReplicationFactor w conn name n rf corr 0 C = poll_topic w conn name corr (cClock C' + 3000) C'"
    "map_of (cNodes C') conn = Some (fst (TopicInfos t b))" "map_of (cNodes C') (Host br, Port br) = Some c'" "P c'"
proof -
  let ?a = "(Host br, Port br)"
  define C1 where "C1 = C\<lparr>cClock := cClock C + int (latency w C), cNodes := mput conn (fst (TopicInfos (cClock C) b)) (cNodes C)\<rparr>"
  have ctl: "at_conn w conn (\<lambda>env now. fetchMetadataController env now corr) C
      = (C1, Some (Inr (BrokerID br, map client_broker (brokers ms))))"
    using at_conn_node [OF assms(1), of "\<lambda>env now. fetchMetadataController env now corr" w] controller_seen [OF assms(4)] assms(5,6)
    by (simp add: C1_def Broker_Info_def metadataBrokers_def Membership_All_def)
  have found: "findMetadataBroker (map client_broker (brokers ms)) (BrokerID br) = Some (client_broker br)"
    using assms(7) by (simp add: find_client_broker Membership_Get_def)
  have C1: "map_of (cNodes C1) ?a = Some c" "map_of (cNodes C1) conn = Some (fst (TopicInfos (cClock C) b))"
    using assms(1-3) by (auto simp: C1_def)
  obtain c' where c': "createTopic (cClock C1) name n rf True c = (c', ErrNone)" "P c'" using assms(10) by blast
  define C2 where "C2 = C1\<lparr>cClock := cClock C1 + int (latency w C1), cNodes := mput ?a c' (cNodes C1)\<rparr>"
  have create: "at_conn w ?a (\<lambda>env now. writeAndAssertTopicResult env now (client_header 19 0 corr) (create_topic_body name n rf) name 0) C1
      = (C2, Some (Inr ()))"
    using at_conn_node [OF C1(1), of "\<lambda>env now. writeAndAssertTopicResult env now (client_header 19 0 corr) (create_topic_body name n rf) name 0"]
      create_topic_replies [OF assms(8), of c "cClock C1" n rf c' ErrNone] c'(1) assms(9)
    by (simp add: C2_def err_code_defs)
  have "checkCreateTopicWithReplicationFactor w conn name n rf corr 0 C = poll_topic w conn name corr (cClock C2 + 3000) C2"
    using ctl found create C1(1)
    by (simp add: checkCreateTopicWithReplicationFactor_def cbind_def dial_def client_broker_def waitForTopicVisible_def)
  then show ?thesis by (rule that) (use c'(2) C1(2) assms(3) in \<open>auto simp: C2_def\<close>)
qed

text \<open>The broker of the client while the client sleeps between two polls.\<close>

lemma sleep_follows:
  assumes "follows_controller w conn" "map_of (cNodes C) conn = Some b" "map_of (cNodes C) (Host br, Port br) = Some c"
    and "fits b" "bControllerID b = Some (BrokerID br)" "BrokerID br \<noteq> NodeID b" "bCluster b = Some ms" "Membership_Get ms (BrokerID br) = Some br"
    and "bMetadataLog b = Some mlb" "holds mlb rs" "disk mlb = []" "bMetadataLog c = Some mlc"
    and "holds mlc (rs @ new @ [\<lparr>Type = TopicUpsert, RecordTopic = name, RecordPartitions = ps\<rparr>])"
    and "length (rs @ new) + length (bTopics b) < 2 ^ 31 - 1"
  obtains b' where "map_of (onSleep w C) conn = Some b'" "fits b'" "Registry_Get (bTopics b') name = Some \<lparr>Name = name, PartitionList = ps\<rparr>"
proof -
  let ?new = "new @ [\<lparr>Type = TopicUpsert, RecordTopic = name, RecordPartitions = ps\<rparr>]"
  obtain ml where "follow_metadata (cluster_net C) (cClock C) b = (fold (ApplyMetadataRecord (cClock C)) ?new b)\<lparr>bMetadataLog := Some ml\<rparr>"
    by (rule follow_catches_up [OF assms(9-11), of mlc ?new ms "BrokerID br" br C c]) (use assms in auto)
  moreover have "list_all record_valid ?new" using assms(13) by (simp add: holds_def)
  ultimately show ?thesis
    using followed [OF assms(4), of ?new name ps "cClock C"] assms(1,2,14) that by (simp add: follows_controller_def)
qed

text \<open>
  C24. A topic created through the client appears where the client is connected. The client asks
  its broker for the controller, sends the creation there, and polls its broker; that broker
  fetches the controller's metadata log while the client sleeps. If the controller accepts the
  topic and a request takes less than 2.9 seconds, then the client's check passes, and the
  topic is registered at the broker of the client with exactly the layout that the controller
  gave it.
\<close>

theorem created_topic_appears:
  assumes "linked C conn b br c" "fits b" "Registry_Get (bTopics b) name = None"
    and "\<not> refuses_topics c" "0 < sint n" "0 < sint rf" "sint rf \<le> int (length (brokerIDs c))"
    and "Registry_Get (bTopics c) name = None" "length name < 2 ^ 15" "sint n * (16 + 8 * sint rf) < 2 ^ 30"
    and "follows_controller w conn" "\<And>C. latency w C < 2900"
  shows "\<exists>C' b'. checkCreateTopicWithReplicationFactor w conn name n rf corr 0 C = (C', Some (Inr ()))
    \<and> map_of (cNodes C') conn = Some b' \<and> Registry_Get (bTopics b') name = Some \<lparr>Name = name, PartitionList = created name n rf c\<rparr>"
proof -
  let ?a = "(Host br, Port br)" and ?r = "\<lparr>Type = TopicUpsert, RecordTopic = name, RecordPartitions = created name n rf c\<rparr>"
  obtain ms mlb mlc rs new where nodes: "map_of (cNodes C) conn = Some b" "map_of (cNodes C) ?a = Some c" "conn \<noteq> ?a"
    and b: "bControllerID b = Some (BrokerID br)" "BrokerID br \<noteq> NodeID b" "bCluster b = Some ms" "Membership_Get ms (BrokerID br) = Some br"
    and logs: "bMetadataLog b = Some mlb" "holds mlb rs" "disk mlb = []" "bMetadataLog c = Some mlc" "holds mlc (rs @ new)" "disk mlc = []"
      "length (rs @ new) + length (bTopics b) < 2 ^ 31 - 1"
    using assms(1) unfolding linked_def by blast
  define P where "P = (\<lambda>c' :: BrokerNode. \<exists>ml. bMetadataLog c' = Some ml \<and> holds ml (rs @ new @ [?r]))"
  have logged: "\<exists>c'. createTopic now name n rf True c = (c', ErrNone) \<and> P c'" for now
    by (rule createTopic_logged [OF logs(4-6) _ assms(5-8) created_valid [OF assms(9,5-7,10)], of now True]) (use logs(7) in \<open>auto simp: P_def\<close>)
  obtain C2 c' t where C2: "checkCreateTopicWithReplicationFactor w conn name n rf corr 0 C = poll_topic w conn name corr (cClock C2 + 3000) C2"
    "map_of (cNodes C2) conn = Some (fst (TopicInfos t b))" "map_of (cNodes C2) ?a = Some c'" "P c'"
    by (rule creation_polls [OF nodes assms(2) b(1,3,4) assms(9,4) logged])
  obtain ml where ml: "bMetadataLog c' = Some ml" "holds ml (rs @ new @ [?r])" using C2(4) by (auto simp: P_def)
  define b1 b2 where "b1 = fst (TopicInfos t b)" and "b2 = fst (TopicInfos (cClock C2) b1)"
  have b1: "fits b1" "bTopics b1 = bTopics b" and b2: "fits b2" "bTopics b2 = bTopics b"
    using TopicInfos_fit [OF assms(2), of t] TopicInfos_fit [of b1 "cClock C2"] by (simp_all add: b1_def b2_def TopicInfos_fields)
  define D where "D = C2\<lparr>cClock := cClock C2 + int (latency w C2) + 100, cNodes := mput conn b2 (cNodes C2)\<rparr>"
  have "map_of (cNodes D) conn = Some b2" "map_of (cNodes D) ?a = Some c'" using nodes(3) C2(3) by (auto simp: D_def)
  then obtain b3 where b3: "map_of (onSleep w D) conn = Some b3" "fits b3"
    "Registry_Get (bTopics b3) name = Some \<lparr>Name = name, PartitionList = created name n rf c\<rparr>"
    by (rule sleep_follows [OF assms(11) _ _ b2(1), of D br c' ms mlb rs ml new name "created name n rf c"])
      (use b logs ml b2(2) in \<open>simp_all add: b2_def b1_def TopicInfos_fields\<close>)
  obtain C' t' where "poll_topic w conn name corr (cClock C2 + 3000) C2 = (C', Some (Inr ()))" "map_of (cNodes C') conn = Some (fst (TopicInfos t' b3))"
    by (rule poll_topic_second [of C2 conn b1 name w "cClock C2 + 3000" b3])
      (use C2(2) b1 b3 assms(3) assms(12) [of C2] in \<open>auto simp: b1_def b2_def D_def\<close>)
  then show ?thesis using C2(1) b3(3) by (auto simp: TopicInfos_fields)
qed

text \<open>Broker 1 of three, with broker 3 as the controller.\<close>

definition demo_broker :: "int32 \<Rightarrow> BrokerNode" where
  "demo_broker i = (new_broker i 9092 three_brokers (NewManager ''d'') (fresh_log []))\<lparr>bControllerID := Some 3\<rparr>"

definition demo_cluster :: cluster where
  "demo_cluster = \<lparr>cClock = 0, cNodes = [((''a'', 1), demo_broker 1), ((''c'', 1), demo_broker 3)]\<rparr>"

definition demo_rest :: surroundings where
  "demo_rest = \<lparr>onWait = \<lambda>_ _. id, onSleep = (\<lambda>C. case map_of (cNodes C) (''a'', 1) of
       None \<Rightarrow> cNodes C
     | Some b \<Rightarrow> mput (''a'', 1) (follow_metadata (cluster_net C) (cClock C) b) (cNodes C)),
     latency = \<lambda>_. 20, inOrder = \<lambda>_. True\<rparr>"

theorem created_topic_appears_witness:
  "\<exists>C' b'. checkCreateTopicWithReplicationFactor demo_rest (''a'', 1) ''orders'' 3 2 44 0 demo_cluster = (C', Some (Inr ()))
    \<and> map_of (cNodes C') (''a'', 1) = Some b'
    \<and> Registry_Get (bTopics b') ''orders'' = Some \<lparr>Name = ''orders'', PartitionList = created ''orders'' 3 2 (demo_broker 3)\<rparr>"
proof (rule created_topic_appears)
  show "linked demo_cluster (''a'', 1) (demo_broker 1) \<lparr>BrokerID = 3, Host = ''c'', Port = 1\<rparr> (demo_broker 3)"
    unfolding linked_def
    by (intro conjI exI [of _ "fresh_log []"] exI [of _ "[]"] exI [of _ three_brokers])
      (simp_all add: demo_cluster_def demo_broker_def new_broker_def three_brokers_def Membership_Get_def holds_fresh NewRegistry_def)
  show "fits (demo_broker 1)"
    by (simp add: fits_def registry_ok_def brokers_ok_def demo_broker_def new_broker_def NewRegistry_def metadataBrokers_def Membership_All_def
        three_brokers_def states_fit_def UseFaults_def NewReplicationManager_def)
  show "Registry_Get (bTopics (demo_broker 1)) ''orders'' = None" "Registry_Get (bTopics (demo_broker 3)) ''orders'' = None"
    by (simp_all add: demo_broker_def new_broker_def NewRegistry_def Registry_Get_def)
  show "\<not> refuses_topics (demo_broker 3)" "sint (2 :: int16) \<le> int (length (brokerIDs (demo_broker 3)))" by code_simp+
  show "follows_controller demo_rest (''a'', 1)"
    by (simp add: follows_controller_def demo_rest_def split: option.split)
qed (simp_all add: demo_rest_def)

end
