(* ===== verification/Takeover.thy ===== *)
theory Takeover
  imports Broker_Safe Client_Correct
begin

text \<open>
  A broker dies: from the ping that it misses to the broker that leads in its place. The
  monitor of the controller finds it dead and calls the controller, which elects new leaders
  and logs them; another broker follows the log over the wire and takes its new role.
\<close>

section \<open>The round that finds a peer dead\<close>

text \<open>
  Everybody but \<open>d\<close> answers the pings of this round, and \<open>d\<close> misses the last one that it may
  miss.
\<close>

definition finds_dead :: "LivenessMonitor \<Rightarrow> transport \<Rightarrow> int32 \<Rightarrow> bool" where
  "finds_dead lm net d \<longleftrightarrow>
     distinct (map BrokerID (Membership_All (lmMembership lm))) \<and> d \<noteq> lmSelf lm \<and> failAfter lm \<le> misses_of lm d + 1
     \<and> d \<in> BrokerID ` set (Membership_All (lmMembership lm)) \<and> lmSelf lm \<in> BrokerID ` set (Membership_All (lmMembership lm))
     \<and> (\<forall>br \<in> set (Membership_All (lmMembership lm)). alive_of lm (BrokerID br)
          \<and> (BrokerID br \<noteq> lmSelf lm \<longrightarrow> (ping net br = None \<longleftrightarrow> BrokerID br \<noteq> d)))"

lemma finds_dead_peer:
  "finds_dead lm net d \<Longrightarrow> br \<in> set (Membership_All (lmMembership lm)) \<Longrightarrow>
    alive_of lm (BrokerID br) \<and> (BrokerID br \<noteq> lmSelf lm \<longrightarrow> (ping net br = None \<longleftrightarrow> BrokerID br \<noteq> d))"
  by (simp add: finds_dead_def)

lemma sees_cong: "alive_of lm' = alive_of lm \<Longrightarrow> static lm' = static lm \<Longrightarrow> sees lm' b = sees lm b"
  by (simp add: sees_def ControllerID_def static_def Alive_def fun_eq_iff)

lemma sees_sees [simp]: "sees lm (sees lm' b) = sees lm b"
  by (simp add: sees_def)

lemma quiet_peer:
  assumes "alive_of lm (BrokerID br)" "BrokerID br = lmSelf lm \<or> ping net br = None" "b = sees lm b"
  shows "snd (monitor_peer net now br (lm, b)) = b" "alive_of (fst (monitor_peer net now br (lm, b))) = alive_of lm"
    "static (fst (monitor_peer net now br (lm, b))) = static lm"
    "i \<noteq> BrokerID br \<Longrightarrow> misses_of (fst (monitor_peer net now br (lm, b))) i = misses_of lm i"
proof -
  let ?lm = "fst (check_peer (\<lambda>p. ping net p = None) br lm)"
  have ev: "snd (check_peer (\<lambda>p. ping net p = None) br lm) = []"
    using assms(1,2) by (auto simp: check_peer_def recordSuccess_def Let_def)
  have al: "alive_of ?lm = alive_of lm"
    using assms(1,2) by (auto simp: check_peer_state recordSuccess_def alive_of_def fun_eq_iff Let_def)
  have st: "static ?lm = static lm" by (rule check_peer_step)
  have b: "sees ?lm b = b" using sees_cong [OF al st, of b] assms(3) by simp
  have m: "monitor_peer net now br (lm, b) = (?lm, b)"
    using ev b by (simp add: monitor_peer_def split_beta)
  show "snd (monitor_peer net now br (lm, b)) = b" "alive_of (fst (monitor_peer net now br (lm, b))) = alive_of lm"
    "static (fst (monitor_peer net now br (lm, b))) = static lm"
    using al st by (simp_all add: m)
  show "i \<noteq> BrokerID br \<Longrightarrow> misses_of (fst (monitor_peer net now br (lm, b))) i = misses_of lm i"
    using check_peer_step(2) [of "\<lambda>p. ping net p = None" br lm i] by (simp add: m peer_state_def)
qed

lemma quiet_peers:
  assumes "\<forall>br \<in> set brs. alive_of lm (BrokerID br) \<and> (BrokerID br = lmSelf lm \<or> ping net br = None)" "b = sees lm b"
  shows "snd (fold (monitor_peer net now) brs (lm, b)) = b
    \<and> alive_of (fst (fold (monitor_peer net now) brs (lm, b))) = alive_of lm
    \<and> static (fst (fold (monitor_peer net now) brs (lm, b))) = static lm
    \<and> (\<forall>i. i \<notin> BrokerID ` set brs \<longrightarrow> misses_of (fst (fold (monitor_peer net now) brs (lm, b))) i = misses_of lm i)"
  using assms
proof (induction brs arbitrary: lm)
  case (Cons br brs)
  let ?lm = "fst (monitor_peer net now br (lm, b))"
  have q: "monitor_peer net now br (lm, b) = (?lm, b)" "alive_of ?lm = alive_of lm" "static ?lm = static lm"
    "i \<noteq> BrokerID br \<Longrightarrow> misses_of ?lm i = misses_of lm i" for i
    using quiet_peer [where lm = lm and br = br and b = b and now = now] Cons.prems by (simp_all add: prod_eq_iff)
  have "b = sees ?lm b" using sees_cong [OF q(2,3), of b] Cons.prems(2) by simp
  moreover have "lmSelf ?lm = lmSelf lm" using q(3) by (simp add: static_def)
  ultimately show ?case using Cons.IH [of ?lm] Cons.prems(1) q by simp
qed simp

lemma failover_topic_view:
  "bIsPeerAlive (failover_topic now d t b) = bIsPeerAlive b" "bControllerID (failover_topic now d t b) = bControllerID b"
  by (simp_all add: failover_topic_def ApplyMetadataRecord_def applyTopic_def fanOutTopic_def Let_def split_beta
      split: option.split sum.split RecordType.split)

lemma OnPeerDown_sees:
  assumes "sees lm b = b"
  shows "sees lm (OnPeerDown now d b) = OnPeerDown now d b"
proof -
  have "bIsPeerAlive (fold (failover_topic now d) ts b) = bIsPeerAlive b
      \<and> bControllerID (fold (failover_topic now d) ts b) = bControllerID b" for ts
    by (induction ts arbitrary: b) (simp_all add: failover_topic_view)
  moreover have "sees lm x = x \<longleftrightarrow> bIsPeerAlive x = Some (Alive lm) \<and> bControllerID x = Some (ControllerID lm)" for x
    by (cases x) (auto simp: sees_def)
  ultimately show ?thesis using assms by (simp add: OnPeerDown_def)
qed

lemma missed_ping:
  assumes "failAfter lm \<le> misses_of lm d + 1" "alive_of lm d"
  shows "snd (recordMiss lm d) = Some (Down d)" "alive_of (fst (recordMiss lm d)) = (alive_of lm)(d := False)"
    "static (fst (recordMiss lm d)) = static lm"
  using assms recordMiss_state(2) [of lm d] by (auto simp: recordMiss_def alive_of_def fun_eq_iff Let_def)

text \<open>Such a round is exactly one call of the controller's callback, with the peer seen dead.\<close>

lemma monitor_round_dead:
  assumes "finds_dead lm net d" "b = sees lm b"
  obtains lm' where "snd (monitor_round net now (lm, b)) = OnPeerDown now d (sees lm' b)"
    "alive_of lm' = (alive_of lm)(d := False)" "static lm' = static lm"
proof -
  let ?ms = "Membership_All (lmMembership lm)" and ?step = "monitor_peer net now"
  have "d \<in> BrokerID ` set ?ms" using assms(1) by (simp add: finds_dead_def)
  then obtain br where br: "br \<in> set ?ms" "BrokerID br = d" by blast
  obtain pre post where brs: "?ms = pre @ br # post" using split_list [OF br(1)] by blast
  note brs = brs br(2)
  have out: "d \<notin> BrokerID ` set (pre @ post)" using assms(1) brs by (auto simp: finds_dead_def)
  then have ne: "BrokerID x \<noteq> d" if "x \<in> set (pre @ post)" for x using that by (metis image_eqI)
  then have quiet: "alive_of lm (BrokerID x) \<and> (BrokerID x = lmSelf lm \<or> ping net x = None)" if "x \<in> set (pre @ post)" for x
    using that finds_dead_peer [OF assms(1), of x] brs(1) by auto
  define lm1 where "lm1 = fst (fold ?step pre (lm, b))"
  have lm1: "fold ?step pre (lm, b) = (lm1, b)" "alive_of lm1 = alive_of lm" "static lm1 = static lm" "misses_of lm1 d = misses_of lm d"
    using quiet_peers [of pre lm net b now] quiet out assms(2) by (auto simp: lm1_def prod_eq_iff)
  define lm2 where "lm2 = fst (recordMiss lm1 d)"
  have miss: "snd (recordMiss lm1 d) = Some (Down d)" "alive_of lm2 = (alive_of lm)(d := False)" "static lm2 = static lm"
    using missed_ping [of lm1 d] lm1 assms(1) brs by (auto simp: lm2_def finds_dead_def static_def)
  have "ping net br \<noteq> None" "lmSelf lm1 \<noteq> d" using assms(1) brs lm1(3) by (auto simp: finds_dead_def static_def)
  then have at: "?step br (lm1, b) = (lm2, OnPeerDown now d (sees lm2 b))"
    using miss(1) brs(2) by (auto simp: monitor_peer_def check_peer_def lm2_def split_beta)
  have "sees lm2 (OnPeerDown now d (sees lm2 b)) = OnPeerDown now d (sees lm2 b)" by (rule OnPeerDown_sees) simp
  moreover have "\<forall>x \<in> set post. alive_of lm2 (BrokerID x) \<and> (BrokerID x = lmSelf lm2 \<or> ping net x = None)"
    using quiet ne miss(3) by (auto simp: miss(2) static_def)
  ultimately have "snd (fold ?step post (lm2, OnPeerDown now d (sees lm2 b))) = OnPeerDown now d (sees lm2 b)"
    using quiet_peers [of post lm2 net "OnPeerDown now d (sees lm2 b)" now] by simp
  then show ?thesis using that [of lm2] miss(2,3) by (simp add: monitor_round_def brs(1) lm1(1) at)
qed

text \<open>The broker with the highest id among the others is then the controller.\<close>

lemma survivor_controls:
  assumes "finds_dead lm net d" "alive_of lm' = (alive_of lm)(d := False)" "static lm' = static lm" "0 \<le> sint (lmSelf lm)"
    and "\<forall>br \<in> set (Membership_All (lmMembership lm)). BrokerID br \<noteq> d \<longrightarrow> sint (BrokerID br) \<le> sint (lmSelf lm)"
  shows "ControllerID lm' = lmSelf lm"
proof -
  let ?ok = "\<lambda>br. alive_of lm' (BrokerID br)" and ?ms = "Membership_All (lmMembership lm)"
  have c: "ControllerID lm' = fold (\<lambda>b c. if ?ok b \<and> sint c < sint (BrokerID b) then BrokerID b else c) ?ms (-1)"
    using assms(3) by (simp add: ControllerID_def static_def)
  have "lmSelf lm \<in> BrokerID ` set ?ms" using assms(1) by (simp add: finds_dead_def)
  then obtain s where s: "s \<in> set ?ms" "BrokerID s = lmSelf lm" by (metis imageE)
  then have "?ok s" using finds_dead_peer [OF assms(1) s(1)] assms(1,2) by (auto simp: finds_dead_def)
  note top = fold_highest [of ?ok ?ms "-1", folded c]
  have le: "sint (lmSelf lm) \<le> sint (ControllerID lm')" using top s \<open>?ok s\<close> by auto
  then have "ControllerID lm' \<noteq> -1" using assms(4) by auto
  then obtain br where "br \<in> set ?ms" "?ok br" "ControllerID lm' = BrokerID br" using top by auto
  then have "sint (ControllerID lm') \<le> sint (lmSelf lm)" using assms(2,5) by (auto split: if_splits)
  then show ?thesis using le by (simp add: antisym)
qed

section \<open>The election in the metadata log\<close>

text \<open>A broker whose metadata log, on a working disk, holds the records that its registry is the replay of.\<close>

definition in_step :: "BrokerNode \<Rightarrow> Record list \<Rightarrow> bool" where
  "in_step b rs \<longleftrightarrow> (\<exists>ml. bMetadataLog b = Some ml \<and> holds ml rs \<and> disk ml = []) \<and> registry_ok (bTopics b)
     \<and> Registry_Get (bTopics b) = topics_after rs"

definition upsert :: "Topic \<Rightarrow> Record" where
  "upsert t = \<lparr>Type = TopicUpsert, RecordTopic = Name t, RecordPartitions = PartitionList t\<rparr>"

lemma in_step_append:
  assumes "in_step b rs" "record_valid r" "int (length rs) < 2 ^ 63 - 1"
  shows "in_step (append_apply now r b) (rs @ [r])"
proof -
  obtain ml where ml: "bMetadataLog b = Some ml" "holds ml rs" "disk ml = []" using assms(1) by (auto simp: in_step_def)
  obtain ml' off where ap: "Append ml (encodeMetadataRecord r) = (ml', Inr off)"
    using Append_succeeds ml(2,3) by (metis holds_def)
  note h = Append_holds [OF ml(2) assms(2,3) ap]
  have "append_apply now r b = ApplyMetadataRecord now r (b\<lparr>bMetadataLog := Some ml'\<rparr>)"
    using ml(1) ap by (simp add: append_apply_def MetadataLog_Append_def)
  then show ?thesis
    using h ml(3) assms(1) by (auto simp: in_step_def Apply_fields Apply_registry Apply_registry_ok topics_after_snoc)
qed

definition loses_leader :: "BrokerNode \<Rightarrow> int32 \<Rightarrow> Topic \<Rightarrow> bool" where
  "loses_leader b d t \<longleftrightarrow> list_ex (\<lambda>p. snd (reassign b d p)) (PartitionList t)"

lemma failover_records:
  assumes "in_step b rs" "\<forall>t \<in> set ts. record_valid (upsert t)" "int (length rs) + int (length ts) < 2 ^ 63 - 1"
  shows "in_step (fold (failover_topic now d) ts b) (rs @ map (upsert \<circ> reassign_topic b d) (filter (loses_leader b d) ts))"
  using assms
proof (induction ts arbitrary: b rs)
  case (Cons t ts)
  have m: "bMetadataLog b \<noteq> None" using Cons.prems(1) by (auto simp: in_step_def)
  let ?b = "failover_topic now d t b"
  have re: "reassign ?b d = reassign b d" using failover_topic_fields [OF m] by (intro reassign_cong) simp_all
  have eq: "reassign_topic ?b d = reassign_topic b d" "loses_leader ?b d = loses_leader b d"
    by (simp_all add: fun_eq_iff reassign_topic_def loses_leader_def re)
  have "upsert (reassign_topic b d t)
      = \<lparr>Type = TopicUpsert, RecordTopic = Name t, RecordPartitions = map (fst \<circ> reassign b d) (PartitionList t)\<rparr>"
    by (simp add: upsert_def reassign_topic_def)
  moreover from this have "record_valid (upsert (reassign_topic b d t))"
    using reassigned_valid [of "Name t" "PartitionList t" b d] Cons.prems(2) by (simp add: upsert_def)
  ultimately have "in_step ?b (if loses_leader b d t then rs @ [upsert (reassign_topic b d t)] else rs)"
    using in_step_append [OF Cons.prems(1), of "upsert (reassign_topic b d t)" now] Cons.prems(1,3)
    by (simp add: failover_topic_log [OF m] loses_leader_def)
  from Cons.IH [OF this] Cons.prems(2,3) show ?case by (cases "loses_leader b d t") (simp_all add: eq)
qed simp

lemma in_step_valid:
  assumes "in_step b rs" "Registry_Get (bTopics b) name = Some t"
  shows "Name t = name" "record_valid (upsert t)"
proof -
  have "(name, t) \<in> set (bTopics b)" using assms(2) by (simp add: Registry_Get_def map_of_SomeD)
  then show "Name t = name" using assms(1) by (auto simp: in_step_def registry_ok_def)
  then show "record_valid (upsert t)"
    using topics_after_record [of rs name t] assms by (auto simp: in_step_def holds_def list_all_iff upsert_def)
qed

section \<open>The roles of a follower\<close>

definition touches :: "string \<Rightarrow> Record \<Rightarrow> bool" where
  "touches name r \<longleftrightarrow> Type r = TopicUpsert \<and> RecordTopic r = name"

lemma Apply_roles:
  assumes "bReplication b = Some m" "roles_ok m"
  shows "\<exists>m'. bReplication (ApplyMetadataRecord now r b) = Some m' \<and> roles_ok m' \<and> rmSelfID m' = rmSelfID m
    \<and> (\<forall>i. log_opens (bLogs (ApplyMetadataRecord now r b)) name i = log_opens (bLogs b) name i)
    \<and> (\<not> touches name r \<longrightarrow> (\<forall>i. map_of (led m') \<lparr>tpTopic = name, tpPartition = i\<rparr> = map_of (led m) \<lparr>tpTopic = name, tpPartition = i\<rparr>))"
proof (cases "Type r")
  case TopicUpsert
  then show ?thesis
    using applyTopic_roles [OF assms, of now "RecordTopic r" "RecordPartitions r"]
    by (auto simp: ApplyMetadataRecord_def touches_def applyTopic_log_opens)
qed (use assms in \<open>simp add: ApplyMetadataRecord_def touches_def\<close>)

lemma fold_Apply_roles:
  assumes "bReplication b = Some m" "roles_ok m"
  shows "\<exists>m'. bReplication (fold (ApplyMetadataRecord now) rs b) = Some m' \<and> roles_ok m' \<and> rmSelfID m' = rmSelfID m
    \<and> (\<forall>i. log_opens (bLogs (fold (ApplyMetadataRecord now) rs b)) name i = log_opens (bLogs b) name i)
    \<and> (list_all (\<lambda>r. \<not> touches name r) rs \<longrightarrow>
        (\<forall>i. map_of (led m') \<lparr>tpTopic = name, tpPartition = i\<rparr> = map_of (led m) \<lparr>tpTopic = name, tpPartition = i\<rparr>))"
  using assms
proof (induction rs arbitrary: b m)
  case (Cons r rs)
  obtain m1 where m1: "bReplication (ApplyMetadataRecord now r b) = Some m1" "roles_ok m1" "rmSelfID m1 = rmSelfID m"
    "\<And>i. log_opens (bLogs (ApplyMetadataRecord now r b)) name i = log_opens (bLogs b) name i"
    "\<not> touches name r \<Longrightarrow> map_of (led m1) \<lparr>tpTopic = name, tpPartition = i\<rparr> = map_of (led m) \<lparr>tpTopic = name, tpPartition = i\<rparr>" for i
    using Apply_roles [OF Cons.prems, of now r name] by auto
  from Cons.IH [OF m1(1,2)] show ?case using m1(3-5) by fastforce
qed simp

text \<open>The last record of a topic decides: whom it names as a leader leads.\<close>

lemma leads_after:
  assumes "bReplication b = Some m" "roles_ok m" "rs = rs1 @ r # rs2" "touches name r" "list_all (\<lambda>r. \<not> touches name r) rs2"
    and "distinct (map ID (RecordPartitions r))" "p \<in> set (RecordPartitions r)" "Leader p = rmSelfID m"
    and "rmSelfID m \<in> set (Replicas p)" "log_opens (bLogs b) name (ID p)"
  shows "\<exists>m' s. bReplication (fold (ApplyMetadataRecord now) rs b) = Some m' \<and> partitionState m' name (ID p) = Some s
    \<and> map_of (fetchers m') \<lparr>tpTopic = name, tpPartition = ID p\<rparr> = None"
proof -
  let ?key = "\<lparr>tpTopic = name, tpPartition = ID p\<rparr>" and ?b1 = "fold (ApplyMetadataRecord now) rs1 b"
  obtain m1 where m1: "bReplication ?b1 = Some m1" "roles_ok m1" "rmSelfID m1 = rmSelfID m"
    "log_opens (bLogs ?b1) name (ID p)" using fold_Apply_roles [OF assms(1,2), of now rs1 name] assms(10) by auto
  let ?b2 = "applyTopic now name (RecordPartitions r) ?b1"
  obtain m2 where m2: "bReplication ?b2 = Some m2" "roles_ok m2" "role now name p m1 m2"
    using applyTopic_roles [OF m1(1,2), of now name "RecordPartitions r"] assms(6,7,9) m1(3,4) by auto
  have "map_of (led m2) ?key \<noteq> None"
    using m2(3) assms(8) m1(3) by (auto simp: role_def Let_def split: option.splits)
  moreover obtain m3 where "bReplication (fold (ApplyMetadataRecord now) rs2 ?b2) = Some m3" "roles_ok m3"
    "map_of (led m3) ?key = map_of (led m2) ?key"
    using fold_Apply_roles [OF m2(1,2), of now rs2 name] assms(5) by blast
  moreover have "ApplyMetadataRecord now r ?b1 = ?b2" using assms(4) by (simp add: touches_def ApplyMetadataRecord_def)
  ultimately show ?thesis
    using assms(3) by (auto simp: partitionState_def roles_ok_def)
qed

section \<open>From the missed ping to the new leader\<close>

lemma upserts_other: "name \<notin> Name ` set ts \<Longrightarrow> fold apply_record (map upsert ts) M name = M name"
  by (induction ts arbitrary: M) (auto simp: apply_record_def upsert_def)

lemma upserts_after:
  assumes "distinct (map Name ts)" "t \<in> set ts"
  shows "fold apply_record (map upsert ts) M (Name t) = Some t"
    and "\<exists>rs1 rs2. map upsert ts = rs1 @ upsert t # rs2 \<and> list_all (\<lambda>r. \<not> touches (Name t) r) rs2"
proof -
  obtain ts1 ts2 where ts: "ts = ts1 @ t # ts2" using split_list [OF assms(2)] by blast
  then have new: "Name t \<notin> Name ` set ts2" using assms(1) by auto
  then show "fold apply_record (map upsert ts) M (Name t) = Some t"
    using upserts_other [of "Name t" ts2] by (cases t) (simp add: ts apply_record_def upsert_def)
  have "map upsert ts = map upsert ts1 @ upsert t # map upsert ts2" by (simp add: ts)
  moreover have "list_all (\<lambda>r. \<not> touches (Name t) r) (map upsert ts2)"
    using new by (auto simp: list_all_iff touches_def upsert_def) (metis image_eqI)
  ultimately show "\<exists>rs1 rs2. map upsert ts = rs1 @ upsert t # rs2 \<and> list_all (\<lambda>r. \<not> touches (Name t) r) rs2" by blast
qed

text \<open>What the round leaves at the controller.\<close>

definition elections :: "BrokerNode \<Rightarrow> int32 \<Rightarrow> Topic list" where
  "elections c d = map (reassign_topic c d) (filter (loses_leader c d) (Registry_All (bTopics c)))"

lemma round_elects:
  assumes "finds_dead lm net d" "c = sees lm c" "lmSelf lm = NodeID c" "0 \<le> sint (NodeID c)"
    and "\<forall>br \<in> set (Membership_All (lmMembership lm)). BrokerID br \<noteq> d \<longrightarrow> sint (BrokerID br) \<le> sint (NodeID c)"
    and "in_step c rs" "int (length rs) + int (length (bTopics c)) < 2 ^ 63 - 1"
  shows "in_step (snd (monitor_round net now (lm, c))) (rs @ map upsert (elections c d))"
proof -
  obtain lm' where lm': "snd (monitor_round net now (lm, c)) = OnPeerDown now d (sees lm' c)"
    "alive_of lm' = (alive_of lm)(d := False)" "static lm' = static lm"
    by (rule monitor_round_dead [OF assms(1,2)])
  let ?c = "sees lm' c"
  have s: "NodeID ?c = NodeID c" "bTopics ?c = bTopics c" "in_step ?c rs" using assms(6) by (simp_all add: sees_def in_step_def)
  have "controllerID ?c = NodeID ?c"
    using survivor_controls [OF assms(1) lm'(2,3)] assms(3-5) by (simp add: controllerID_def sees_def)
  moreover have "peerAlive ?c i = peerAlive c i" if "i \<noteq> d" for i
    using lm'(2,3) that by (subst (2) assms(2)) (simp add: peerAlive_def sees_def Alive_def static_def)
  then have "filter (\<lambda>i. i \<noteq> d \<and> peerAlive ?c i) xs = filter (\<lambda>i. i \<noteq> d \<and> peerAlive c i) xs" for xs
    by (auto intro: filter_cong)
  then have "reassign ?c d = reassign c d" by (simp add: fun_eq_iff reassign_def liveISR_def)
  then have "reassign_topic ?c d = reassign_topic c d" "loses_leader ?c d = loses_leader c d"
    by (simp_all add: fun_eq_iff reassign_topic_def loses_leader_def)
  moreover have "record_valid (upsert t)" if "t \<in> set (Registry_All (bTopics c))" for t
    using in_step_valid [OF assms(6) registry_lookup [OF _ that]] assms(6) by (simp add: in_step_def)
  ultimately show ?thesis
    using failover_records [OF s(3), of "Registry_All (bTopics c)" now d] assms(7) s(2)
    by (simp add: lm'(1) OnPeerDown_def elections_def Registry_All_def)
qed

lemma elections_of:
  assumes "in_step c rs" "Registry_Get (bTopics c) name = Some t" "in_step b (rs @ map upsert (elections c d))"
  shows "Registry_Get (bTopics b) name = Some (reassign_topic c d t)"
    and "loses_leader c d t \<Longrightarrow> \<exists>rs1 rs2. map upsert (elections c d) = rs1 @ upsert (reassign_topic c d t) # rs2
      \<and> list_all (\<lambda>r. \<not> touches name r) rs2"
proof -
  have ok: "registry_ok (bTopics c)" "Registry_Get (bTopics c) = topics_after rs" using assms(1) by (simp_all add: in_step_def)
  have t: "Name t = name" "t \<in> set (Registry_All (bTopics c))"
    using in_step_valid(1) [OF assms(1,2)] assms(2) by (auto simp: Registry_Get_def Registry_All_def dest!: map_of_SomeD intro: rev_image_eqI)
  have nm: "Name (reassign_topic c d t') = Name t'" for t' by (simp add: reassign_topic_def)
  have "distinct (map Name (elections c d))"
    using registry_ok_names [OF ok(1)] by (simp add: elections_def nm comp_def distinct_map_filter)
  note u = upserts_after [OF this, of "reassign_topic c d t", unfolded nm t(1)]
  show "loses_leader c d t \<Longrightarrow> \<exists>rs1 rs2. map upsert (elections c d) = rs1 @ upsert (reassign_topic c d t) # rs2
      \<and> list_all (\<lambda>r. \<not> touches name r) rs2"
    using u(2) t(2) by (simp add: elections_def)
  show "Registry_Get (bTopics b) name = Some (reassign_topic c d t)"
  proof (cases "loses_leader c d t")
    case True
    then show ?thesis using u(1) t(2) assms(3) by (simp add: elections_def in_step_def topics_after_def)
  next
    case False
    then have "reassign_topic c d t = t" by (simp add: reassign_topic_def loses_leader_def reassign_none)
    moreover have "t' = t" if "t' \<in> set (Registry_All (bTopics c))" "Name t' = name" for t'
      using registry_lookup [OF ok(1) that(1)] assms(2) that(2) by simp
    then have "name \<notin> Name ` set (elections c d)" using False by (auto simp: elections_def nm)
    ultimately show ?thesis
      using upserts_other assms(2,3) ok(2) by (simp add: in_step_def topics_after_def)
  qed
qed

text \<open>
  A broker that follows the metadata of \<open>c\<close>, which listens where \<open>br\<close> says, and does not yet
  know about the failure.
\<close>

definition follower_of :: "BrokerNode \<Rightarrow> BrokerNode \<Rightarrow> Broker \<Rightarrow> bool" where
  "follower_of x c br \<longleftrightarrow> bControllerID x = Some (NodeID c) \<and> NodeID c \<noteq> NodeID x
     \<and> (\<exists>ms. bCluster x = Some ms \<and> Membership_Get ms (NodeID c) = Some br)
     \<and> (\<exists>m. bReplication x = Some m \<and> roles_ok m \<and> rmSelfID m = NodeID x)"

lemma follower_applies:
  assumes "follower_of x c br" "in_step x rs" "in_step c' (rs @ new)" "length (rs @ new) < 2 ^ 31"
    and "map_of (cNodes C) (Host br, Port br) = Some c'"
  obtains ml where "follow_metadata (cluster_net C) now x = (fold (ApplyMetadataRecord now) new x)\<lparr>bMetadataLog := Some ml\<rparr>"
    "Registry_Get (bTopics (fold (ApplyMetadataRecord now) new x)) = Registry_Get (bTopics c')"
proof -
  obtain mlx mlc ms where ml: "bMetadataLog x = Some mlx" "holds mlx rs" "disk mlx = []" "holds mlc (rs @ new)" "bMetadataLog c' = Some mlc"
    and x: "bCluster x = Some ms" "bControllerID x = Some (NodeID c)" "NodeID c \<noteq> NodeID x" "Membership_Get ms (NodeID c) = Some br"
    using assms(1-3) unfolding in_step_def follower_of_def by blast
  have reg: "Registry_Get (bTopics (fold (ApplyMetadataRecord now) new x)) = Registry_Get (bTopics c')"
    using assms(2,3) by (simp add: in_step_def fold_Apply topics_after_def)
  show ?thesis
    by (rule follow_catches_up [OF ml(1-4) assms(4) x assms(5) ml(5), of now]) (use that reg in blast)
qed

text \<open>
  C13. A dead leader is replaced. When a peer misses the last ping that it may miss while the
  others answer, and the broker with the highest id among the others holds that round, then
  after this round and one round of the metadata follower of any other live broker, both have
  the same partitions for every topic. Those that the dead broker led have as their leader the
  replica with the lowest id among those in sync and alive, if there is one; all others are
  as before. And that broker has taken its role: where it is the new leader, it leads the
  partition, with a state of its own, and does not fetch any more.
\<close>

theorem dead_leader_replaced:
  assumes "finds_dead lm net d" "c = sees lm c" "lmSelf lm = NodeID c" "0 \<le> sint (NodeID c)"
    and "\<forall>br \<in> set (Membership_All (lmMembership lm)). BrokerID br \<noteq> d \<longrightarrow> sint (BrokerID br) \<le> sint (NodeID c)"
    and "in_step c (rs @ new)" "in_step x rs" "length (rs @ new) + length (bTopics c) < 2 ^ 31"
    and "follower_of x c br" "NodeID x \<noteq> d" "map_of (cNodes C) (Host br, Port br) = Some (snd (monitor_round net now (lm, c)))"
    and "Registry_Get (bTopics c) name = Some t" "distinct (map ID (PartitionList t))"
  shows "\<exists>t' m'. Registry_Get (bTopics (snd (monitor_round net now (lm, c)))) name = Some t'
    \<and> Registry_Get (bTopics (follow_metadata (cluster_net C) later x)) name = Some t'
    \<and> list_all2 (elected c d) (PartitionList t) (PartitionList t')
    \<and> bReplication (follow_metadata (cluster_net C) later x) = Some m'
    \<and> (\<forall>k < length (PartitionList t). let p = PartitionList t' ! k in
        Leader (PartitionList t ! k) = d \<longrightarrow> Leader p = NodeID x \<longrightarrow> NodeID x \<in> set (Replicas p) \<longrightarrow>
        log_opens (bLogs x) name (ID p) \<longrightarrow> partitionState m' name (ID p) \<noteq> None
        \<and> map_of (fetchers m') \<lparr>tpTopic = name, tpPartition = ID p\<rparr> = None)"
proof -
  define c' where "c' = snd (monitor_round net now (lm, c))"
  define recs where "recs = new @ map upsert (elections c d)"
  let ?t = "reassign_topic c d t" and ?x = "fold (ApplyMetadataRecord later) recs x"
  have "length (elections c d) \<le> length (bTopics c)" by (simp add: elections_def Registry_All_def le_trans [OF length_filter_le])
  then have len: "length (rs @ recs) < 2 ^ 31" using assms(8) by (simp add: recs_def)
  have c': "in_step c' (rs @ recs)"
    using round_elects [OF assms(1-6), of now] assms(8) by (simp add: c'_def recs_def)
  note el = elections_of [OF assms(6,12), of c' d, unfolded append_assoc, folded recs_def, OF c']
  obtain ml where f: "follow_metadata (cluster_net C) later x = ?x\<lparr>bMetadataLog := Some ml\<rparr>"
    "Registry_Get (bTopics ?x) = Registry_Get (bTopics c')"
    by (rule follower_applies [OF assms(9,7) c' len assms(11) [folded c'_def], of later]) 
  obtain m where m: "bReplication x = Some m" "roles_ok m" "rmSelfID m = NodeID x" using assms(9) by (auto simp: follower_of_def)
  obtain m' where m': "bReplication ?x = Some m'" using fold_Apply_roles [OF m(1,2), of later recs name] by blast
  have role: "partitionState m' name (ID p) \<noteq> None \<and> map_of (fetchers m') \<lparr>tpTopic = name, tpPartition = ID p\<rparr> = None"
    if k: "k < length (PartitionList t)" "p = PartitionList ?t ! k" "Leader (PartitionList t ! k) = d"
      "Leader p = NodeID x" "NodeID x \<in> set (Replicas p)" "log_opens (bLogs x) name (ID p)" for k p
  proof -
    have "p = fst (reassign c d (PartitionList t ! k))" using k(1,2) by (simp add: reassign_topic_def)
    then have "snd (reassign c d (PartitionList t ! k))"
      using k(3,4) assms(10) by (auto simp: reassign_def Let_def split: if_splits)
    then have "loses_leader c d t" using k(1) by (auto simp: loses_leader_def list_ex_iff)
    then obtain rs1 rs2 where r: "recs = (new @ rs1) @ upsert ?t # rs2" "list_all (\<lambda>r. \<not> touches name r) rs2"
      using el(2) by (auto simp: recs_def)
    have "Name t = name" by (rule in_step_valid [OF assms(6,12)])
    then have "touches name (upsert ?t)" by (simp add: touches_def upsert_def reassign_topic_def)
    moreover have "distinct (map ID (RecordPartitions (upsert ?t)))" "p \<in> set (RecordPartitions (upsert ?t))"
      using assms(13) k(1,2) by (simp_all add: upsert_def reassign_topic_def comp_def reassign_smaller)
    ultimately show ?thesis
      using leads_after [OF m(1,2) r(1) _ r(2), of p later] k(4-6) m(3) m' by auto
  qed
  have "list_all2 (elected c d) (PartitionList t) (PartitionList ?t)"
    by (simp add: reassign_topic_def list_all2_map2 list.rel_refl reassign_elected)
  then show ?thesis
    using el(1) f m' role by (intro exI [of _ ?t] exI [of _ m']) (auto simp: c'_def Let_def)
qed

text \<open>Three brokers; 3 is the controller, 1 dies, and 2 takes over the partition that both replicate.\<close>

definition demo_topic2 :: Topic where
  "demo_topic2 = \<lparr>Name = ''orders'', PartitionList = [\<lparr>ID = 0, Leader = 1, Replicas = [1, 2], ISR = [1, 2]\<rparr>,
     \<lparr>ID = 1, Leader = 2, Replicas = [2, 3], ISR = [2, 3]\<rparr>]\<rparr>"

definition demo_monitor :: LivenessMonitor where
  "demo_monitor = NewLivenessMonitor three_brokers 3 1 1"

definition demo_ctl :: BrokerNode where
  "demo_ctl = sees demo_monitor (append_apply 1 (upsert demo_topic2) (demo_broker 3))"

definition demo_pings :: transport where
  "demo_pings br payload = (if BrokerID br = 1 then Inl ErrIO else Inr (WriteResponseHeader 1))"

definition demo_survivors :: cluster where
  "demo_survivors = \<lparr>cClock = 5, cNodes = [((''c'', 1), snd (monitor_round demo_pings 4 (demo_monitor, demo_ctl)))]\<rparr>"

lemma demo_in_step: "in_step (demo_broker i) []" "in_step demo_ctl [upsert demo_topic2]"
proof -
  show s: "in_step (demo_broker i) []" for i
    by (simp add: in_step_def demo_broker_def new_broker_def holds_fresh NewRegistry_replay topics_after_def)
  have v: "record_valid (upsert demo_topic2)"
    by (simp add: record_valid_def length_encodeMetadataRecord upsert_def demo_topic2_def partition_ok_def)
  from in_step_append [OF s v, of 1] show "in_step demo_ctl [upsert demo_topic2]"
    by (simp add: demo_ctl_def in_step_def sees_def)
qed

theorem dead_leader_replaced_witness:
  "\<exists>t' m'. Registry_Get (bTopics (follow_metadata (cluster_net demo_survivors) 6 (demo_broker 2))) ''orders'' = Some t'
    \<and> Leader (PartitionList t' ! 0) = 2 \<and> PartitionList t' ! 1 = PartitionList demo_topic2 ! 1
    \<and> bReplication (follow_metadata (cluster_net demo_survivors) 6 (demo_broker 2)) = Some m' \<and> partitionState m' ''orders'' 0 \<noteq> None"
proof -
  have dead: "finds_dead demo_monitor demo_pings 1"
    unfolding finds_dead_def by code_simp
  have "NodeID demo_ctl = 3" by (simp add: demo_ctl_def sees_def append_apply_fields demo_broker_def new_broker_def)
  moreover have "lmMembership demo_monitor = three_brokers" "lmSelf demo_monitor = 3"
    by (simp_all add: demo_monitor_def NewLivenessMonitor_def)
  ultimately have c: "NodeID demo_ctl = 3" "lmSelf demo_monitor = NodeID demo_ctl" "0 \<le> sint (NodeID demo_ctl)"
    "\<forall>br \<in> set (Membership_All (lmMembership demo_monitor)). BrokerID br \<noteq> 1 \<longrightarrow> sint (BrokerID br) \<le> sint (NodeID demo_ctl)"
    by (simp_all add: Membership_All_def three_brokers_def)
  have "demo_ctl = sees demo_monitor demo_ctl" by (simp add: demo_ctl_def)
  have reg: "Registry_Get (bTopics demo_ctl) = topics_after [upsert demo_topic2]" using demo_in_step(2) by (simp add: in_step_def)
  then have t: "Registry_Get (bTopics demo_ctl) ''orders'' = Some demo_topic2"
    by (simp add: topics_after_def apply_record_def upsert_def demo_topic2_def)
  have len: "length ([] @ [upsert demo_topic2]) + length (bTopics demo_ctl) < 2 ^ 31"
  proof -
    have "length (bTopics demo_ctl) = 1" by code_simp
    then show ?thesis by simp
  qed
  have x: "follower_of (demo_broker 2) demo_ctl \<lparr>BrokerID = 3, Host = ''c'', Port = 1\<rparr>" "NodeID (demo_broker 2) = 2"
    by (simp_all add: follower_of_def c(1) demo_broker_def new_broker_def Membership_Get_def three_brokers_def roles_ok_def
        UseFaults_def NewReplicationManager_def)
  have opens: "log_opens (bLogs (demo_broker 2)) ''orders'' i" for i
    by (simp add: log_opens_iff demo_broker_def new_broker_def NewManager_def dir_of_def Open_empty)
  obtain t' m' where r: "Registry_Get (bTopics (follow_metadata (cluster_net demo_survivors) 6 (demo_broker 2))) ''orders'' = Some t'"
    "list_all2 (elected demo_ctl 1) (PartitionList demo_topic2) (PartitionList t')"
    "bReplication (follow_metadata (cluster_net demo_survivors) 6 (demo_broker 2)) = Some m'"
    "\<forall>k < length (PartitionList demo_topic2). let p = PartitionList t' ! k in
        Leader (PartitionList demo_topic2 ! k) = 1 \<longrightarrow> Leader p = 2 \<longrightarrow> 2 \<in> set (Replicas p) \<longrightarrow>
        log_opens (bLogs (demo_broker 2)) ''orders'' (ID p) \<longrightarrow> partitionState m' ''orders'' (ID p) \<noteq> None
        \<and> map_of (fetchers m') \<lparr>tpTopic = ''orders'', tpPartition = ID p\<rparr> = None"
    using dead_leader_replaced [OF dead \<open>demo_ctl = sees demo_monitor demo_ctl\<close> c(2-4), of "[]" "[upsert demo_topic2]" "demo_broker 2"
        "\<lparr>BrokerID = 3, Host = ''c'', Port = 1\<rparr>" demo_survivors 4 "''orders''" demo_topic2 6] demo_in_step len x t
    by (auto simp: demo_survivors_def demo_topic2_def)
  have "Alive demo_monitor 2" by code_simp
  then have "peerAlive demo_ctl 2" by (simp add: demo_ctl_def peerAlive_def sees_def)
  then have live: "{i \<in> set [1, 2]. i \<noteq> 1 \<and> peerAlive demo_ctl i} = {2}" by auto
  obtain p q where p: "PartitionList t' = [p, q]" "elected demo_ctl 1 (PartitionList demo_topic2 ! 0) p"
    "elected demo_ctl 1 (PartitionList demo_topic2 ! 1) q"
    using r(2) by (auto simp: demo_topic2_def list_all2_Cons1)
  have e: "elected demo_ctl 1 \<lparr>ID = 0, Leader = 1, Replicas = [1, 2], ISR = [1, 2]\<rparr> p \<Longrightarrow>
      ID p = 0 \<and> Replicas p = [1, 2] \<and> Leader p = 2"
    unfolding elected_def Let_def by (simp only: Partition.simps live) simp
  then have "ID p = 0 \<and> Replicas p = [1, 2] \<and> Leader p = 2" using p(2) by (simp add: demo_topic2_def)
  moreover have "q = PartitionList demo_topic2 ! 1" using p(3) by (simp add: demo_topic2_def elected_def)
  ultimately show ?thesis using r(1,3) spec [OF r(4), of 0] opens p(1) by (simp add: demo_topic2_def Let_def)
qed

section \<open>The dead broker comes back\<close>

text \<open>
  The new leader's state is made over the replicas that were in sync at the election, and no
  fetch adds one. A broker that comes back follows the partition and copies the log, but it
  never counts as in sync again, for \<open>acks=all\<close> as for the next election.
\<close>

lemma event_replicas:
  "replicas (apply_partition_event ev s) = replicas s" "leaderID (apply_partition_event ev s) = leaderID s"
proof -
  have r: "replicas (recompute_release now x) = replicas x" for now x
    by (simp add: recompute_release_def recompute_def releaseWaiters_def Let_def)
  show "replicas (apply_partition_event ev s) = replicas s" "leaderID (apply_partition_event ev s) = leaderID s"
    by (cases ev; simp add: r RecordFollowerFetch_def WaitForHighWatermark_def HighWatermark_def removeWaiter_def Let_def)+
qed

lemma returned_replica_left_out:
  assumes "elected b d p p'" "Leader p = d" "Leader p' \<noteq> d"
    and "s = NewPartitionState u now (ISR p') (Leader p') lag"
  shows "d \<notin> set (isr (fold apply_partition_event evs s) later)"
proof -
  have "d \<notin> set (ISR p')" using assms(1-3) by (auto simp: elected_def Let_def split: if_splits)
  then have "d \<noteq> leaderID s" "d \<notin> set (replicas s)"
    using assms(3,4) by (simp_all add: NewPartitionState_def recompute_def Let_def)
  moreover have "replicas (fold apply_partition_event evs x) = replicas x \<and> leaderID (fold apply_partition_event evs x) = leaderID x" for x
    by (induction evs arbitrary: x) (simp_all add: event_replicas)
  ultimately show ?thesis by (simp add: isr_def)
qed

end
