(* ===== verification/Durability.thy ===== *)
theory Durability
  imports Broker_Correct Broker_Topics
begin

text \<open>
  The replicas of a partition together: what the leader's bookkeeping (\<open>partition_state.go\<close>) says
  of the followers is true of their logs, so that a record answered with \<open>acks=all\<close> is on every
  follower in sync. And what a failover does not look at.
\<close>

section \<open>A partition and its replicas\<close>

text \<open>
  A broker with the log of a partition on a working disk, every batch with the right length
  field; the state it keeps of the followers; and a fetcher of the partition.
\<close>

definition serves :: "BrokerNode \<Rightarrow> string \<Rightarrow> int32 \<Rightarrow> Log \<Rightarrow> bool" where
  "serves b t idx l \<longleftrightarrow> partition_at (bTopics b) t idx \<noteq> None \<and> holds_log b t idx l
     \<and> log_inv l \<and> log_healthy l \<and> disk l = [] \<and> StartOffset l = 0
     \<and> (\<forall>r \<in> set (log_entries l). framed (Payload r) \<and> length (Payload r) < 2 ^ 30) \<and> length t < 2 ^ 15"

definition tracks :: "BrokerNode \<Rightarrow> string \<Rightarrow> int32 \<Rightarrow> PartitionState \<Rightarrow> bool" where
  "tracks b t idx s \<longleftrightarrow> (\<exists>rm. bReplication b = Some rm \<and> partitionState rm t idx = Some s)"

definition fetches :: "string \<Rightarrow> int32 \<Rightarrow> fetcher \<Rightarrow> bool" where
  "fetches t idx f \<longleftrightarrow> fTopic f = t \<and> fPartition f = idx \<and> 0 < sint (fMaxBytes f) \<and> sint (fMaxBytes f) \<le> 2 ^ 20"

definition fetch_request :: "fetcher \<Rightarrow> Log \<Rightarrow> bytes" where
  "fetch_request f l = WriteRequestHeader fetch_header
     @ buildFetchRequest (fSelfID f) (fTopic f) (fPartition f) (EndOffset l) (fMaxBytes f)"

text \<open>
  The leader and the logs of the followers, in any order: a batch is produced; a call waits for
  the high watermark, asks for it or gives up (a produce with \<open>acks=all\<close> is the first and then a
  wait); a follower fetches, over the wire; its request arrives, but the response is lost; and
  whatever else happens that leaves the partition alone.
\<close>

inductive replica_reach :: "string \<Rightarrow> int32 \<Rightarrow> BrokerNode \<Rightarrow> (int32 \<Rightarrow> Log) \<Rightarrow> bool" for t idx where
  start: "serves b t idx l \<Longrightarrow> tracks b t idx (NewPartitionState u now rs lead lag) \<Longrightarrow> (\<And>i. copy_of (copies i) l)
    \<Longrightarrow> replica_reach t idx b copies"
| produce: "replica_reach t idx b copies \<Longrightarrow> acks \<noteq> -1 \<Longrightarrow> framed batch \<Longrightarrow> length batch < 2 ^ 30
    \<Longrightarrow> holds_log b t idx l \<Longrightarrow> sint (EndOffset l) < 2 ^ 63 - 1
    \<Longrightarrow> replica_reach t idx (fst (producePartition env now t idx batch acks b)) copies"
| event: "replica_reach t idx b copies \<Longrightarrow> (\<And>now now' i off fin. ev \<noteq> FollowerFetch now now' i off fin)
    \<Longrightarrow> replica_reach t idx (partition_env t idx [ev] b) copies"
| fetch: "replica_reach t idx b copies \<Longrightarrow> fetches t idx f
    \<Longrightarrow> replica_reach t idx (fst (Dispatch id now b (fetch_request f (copies (fSelfID f)))))
          (copies(fSelfID f := fetchOnce (leader_peer now b) None f (copies (fSelfID f))))"
| lost: "replica_reach t idx b copies \<Longrightarrow> fetches t idx f
    \<Longrightarrow> replica_reach t idx (fst (Dispatch id now b (fetch_request f (copies (fSelfID f))))) copies"
| other: "replica_reach t idx b copies \<Longrightarrow> partition_at (bTopics b') t idx = partition_at (bTopics b) t idx
    \<Longrightarrow> (\<And>l. holds_log b' t idx l = holds_log b t idx l) \<Longrightarrow> (\<And>s. tracks b' t idx s = tracks b t idx s)
    \<Longrightarrow> replica_reach t idx b' copies"

text \<open>The invariant: every follower's log is a copy as far as it goes, and goes as far as the leader thinks.\<close>

definition replica_inv :: "string \<Rightarrow> int32 \<Rightarrow> BrokerNode \<Rightarrow> (int32 \<Rightarrow> Log) \<Rightarrow> bool" where
  "replica_inv t idx b copies \<longleftrightarrow> (\<exists>l s. serves b t idx l \<and> tracks b t idx s
     \<and> (\<forall>i. copy_of (copies i) l \<and> sint (offset_of s i) \<le> int (length (log_entries (copies i)))))"

lemma serves_leads: "serves b t idx l \<Longrightarrow> fetches t idx f \<Longrightarrow> leads_log b f l"
  by (auto simp: serves_def fetches_def leads_log_def holds_log_def)

lemma copy_grows: "copy_of x l \<Longrightarrow> prefix (log_entries l) (log_entries l') \<Longrightarrow> copy_of x l'"
  by (auto simp: copy_of_def intro: prefix_order.trans)

lemma new_offsets: "offset_of (NewPartitionState u now rs lead lag) i = 0"
proof -
  have "map_of (fold (\<lambda>b. mput b (0 :: int64)) xs m) i \<in> {None, Some 0}" if "map_of m i \<in> {None, Some 0}" for xs m
    using that by (induction xs arbitrary: m) auto
  from this [of "[]" "filter (\<lambda>b. b \<noteq> lead) rs"] show ?thesis
    by (auto simp: offset_of_def NewPartitionState_def recompute_def Let_def)
qed

lemma release_offsets [simp]: "followerOffset (recompute_release now s) = followerOffset s"
  by (simp add: recompute_release_def recompute_def releaseWaiters_def Let_def)

lemma event_offsets:
  assumes "\<And>now now' i off fin. ev \<noteq> FollowerFetch now now' i off fin"
  shows "offset_of (apply_partition_event ev s) i = offset_of s i"
proof (cases ev)
  case (FollowerFetch now now' i off fin)
  then show ?thesis using assms by blast
qed (simp_all add: offset_of_def WaitForHighWatermark_def HighWatermark_def removeWaiter_def Let_def)

section \<open>The steps\<close>

lemma produce_frame:
  assumes "acks \<noteq> -1"
  shows "bTopics (fst (producePartition env now t idx batch acks b)) = bTopics b"
    "bReplication (fst (producePartition env now t idx batch acks b)) = bReplication b"
  using assms
  by (auto simp: producePartition_def Let_def waitForAllAcks_none split: option.split prod.split sum.split)

lemma produce_log:
  assumes "acks \<noteq> -1" "holds_log b t idx l"
  obtains l' where "holds_log (fst (producePartition env now t idx batch acks b)) t idx l'"
    "l' = l \<or> validRecordBatch batch \<and> l' = fst (append_stamped batch l)"
proof -
  obtain st where st: "Manager_Log (bLogs b) t idx = (st, Inr l)" using assms(2) by (metis holds_log_def prod.collapse)
  note put = put_log_holds [OF st, THEN conjunct1]
  have "\<exists>l'. (l' = l \<or> validRecordBatch batch \<and> l' = fst (append_stamped batch l))
      \<and> (fst (producePartition env now t idx batch acks b) = b \<or> bLogs (fst (producePartition env now t idx batch acks b)) = put_log st t idx l')"
    using st assms(1)
    by (auto simp: producePartition_def Let_def AppendBatch_def waitForAllAcks_none split: option.split prod.split sum.split)
  then show ?thesis using that assms(2) put by metis
qed

lemma produce_serves:
  assumes "serves b t idx l" "acks \<noteq> -1" "framed batch" "length batch < 2 ^ 30" "sint (EndOffset l) < 2 ^ 63 - 1"
  obtains l' where "serves (fst (producePartition env now t idx batch acks b)) t idx l'" "prefix (log_entries l) (log_entries l')"
proof -
  have l: "holds_log b t idx l" "log_inv l" "log_healthy l" "disk l = []" "StartOffset l = 0" using assms(1) by (simp_all add: serves_def)
  obtain l' where l': "holds_log (fst (producePartition env now t idx batch acks b)) t idx l'"
    "l' = l \<or> validRecordBatch batch \<and> l' = fst (append_stamped batch l)" by (rule produce_log [OF assms(2) l(1)])
  show ?thesis
  proof (cases "l' = l")
    case True
    then show ?thesis using that [of l] assms(1,2) l'(1) by (simp add: serves_def produce_frame)
  next
    case False
    then have v: "validRecordBatch batch" "l' = fst (append_stamped batch l)" using l'(2) by simp_all
    have "61 \<le> length batch" using v(1) by (auto simp: validRecordBatch_def split: if_splits)
    then have len: "length (stampOffset (EndOffset l) batch) < 2 ^ 30" using assms(4) by (simp add: stampOffset_def)
    obtain l2 where l2: "append_stamped batch l = (l2, Inr (EndOffset l))" "log_inv l2" "log_healthy l2" "disk l2 = []"
      "StartOffset l2 = StartOffset l" "log_entries l2 = log_entries l @ [\<lparr>Offset = EndOffset l, Payload = stampOffset (EndOffset l) batch\<rparr>]"
      by (rule append_stamped_ready [OF l(2-4) v(1) _ assms(5)]) (use assms(4) in auto)
    then have "serves (fst (producePartition env now t idx batch acks b)) t idx l2"
      using assms(1,2) l'(1) v(2) len framed_stamp [OF assms(3)] by (auto simp: serves_def produce_frame)
    then show ?thesis using that l2(6) by simp
  qed
qed

lemma partition_env_frame:
  "bTopics (partition_env t idx evs b) = bTopics b" "bLogs (partition_env t idx evs b) = bLogs b"
  by (simp_all add: partition_env_def split: option.split)

text \<open>A fetch notes the follower's end offset and nothing else.\<close>

lemma fetch_leader:
  fixes now :: int and loc :: Log
  assumes "serves b t idx l" "tracks b t idx s" "fetches t idx f"
  defines "b' \<equiv> fst (Dispatch id now b (fetch_request f loc))"
  shows "serves b' t idx l"
    and "\<exists>s'. tracks b' t idx s' \<and> (\<forall>i. offset_of s' i = offset_of s i \<or> i = fSelfID f \<and> offset_of s' i = EndOffset loc)"
proof -
  obtain p where p: "partition_at (bTopics b) t idx = Some p" using assms(1) by (auto simp: serves_def)
  obtain st where st: "Manager_Log (bLogs b) t idx = (st, Inr l)" using assms(1) by (metis holds_log_def prod.collapse serves_def)
  have name: "length t < 2 ^ 15" using assms(1) by (simp add: serves_def)
  have b': "b' = fst (fetchPartition now (fSelfID f) t idx (EndOffset loc) (fMaxBytes f) b)"
    using assms(3) by (simp add: b'_def fetch_request_def Dispatch_fetch handleFetch_one [OF name] fetches_def case_prod_beta)
  define b2 where "b2 = fst (high_watermark now t idx (EndOffset l) (record_fetch now (fSelfID f) t idx (EndOffset loc) (EndOffset l) (b\<lparr>bLogs := st\<rparr>)))"
  have eq: "b' = b2"
    using p st by (auto simp: b' b2_def fetchPartition_def Let_def case_prod_beta split: sum.split)
  have "bTopics b' = bTopics b" "bLogs b' = st"
    by (auto simp: eq b2_def high_watermark_def record_fetch_def case_prod_beta split: option.split)
  moreover have "Manager_Log st t idx = (st, Inr l)" by (rule Manager_Log_hit) (rule conjunct2 [OF Manager_Log_put [OF st]])
  ultimately show "serves b' t idx l" using assms(1) by (simp add: serves_def holds_log_def)
  obtain rm where rm: "bReplication b = Some rm" "partitionState rm t idx = Some s" using assms(2) by (auto simp: tracks_def)
  show "\<exists>s'. tracks b' t idx s' \<and> (\<forall>i. offset_of s' i = offset_of s i \<or> i = fSelfID f \<and> offset_of s' i = EndOffset loc)"
    using rm
    by (auto simp: eq b2_def tracks_def high_watermark_def record_fetch_def Manager_HighWatermark_def Manager_RecordFollowerFetch_def
        HighWatermark_def RecordFollowerFetch_def offset_of_def Let_def)
qed

lemma fetch_inv:
  fixes now :: int
  assumes "replica_inv t idx b copies" "fetches t idx f"
  defines "b' \<equiv> fst (Dispatch id now b (fetch_request f (copies (fSelfID f))))"
  shows "replica_inv t idx b' copies"
    and "replica_inv t idx b' (copies(fSelfID f := fetchOnce (leader_peer now b) None f (copies (fSelfID f))))"
proof -
  let ?loc = "copies (fSelfID f)"
  obtain l s where l: "serves b t idx l" "tracks b t idx s" "\<And>i. copy_of (copies i) l"
    "\<And>i. sint (offset_of s i) \<le> int (length (log_entries (copies i)))"
    using assms(1) by (auto simp: replica_inv_def)
  obtain s' where s': "tracks b' t idx s'" "\<And>i. offset_of s' i = offset_of s i \<or> i = fSelfID f \<and> offset_of s' i = EndOffset ?loc"
    using fetch_leader(2) [OF l(1,2) assms(2), of now ?loc] by (auto simp: b'_def)
  have "sint (EndOffset ?loc) = int (length (log_entries ?loc))"
    using seglog.fin_recs [of ?loc] l(3) [of "fSelfID f"] by (simp add: copy_of_def)
  then have le: "sint (offset_of s' i) \<le> int (length (log_entries (copies i)))" for i using s'(2) [of i] l(4) [of i] by auto
  have sv: "serves b' t idx l" using fetch_leader(1) [OF l(1,2) assms(2)] by (simp add: b'_def)
  show "replica_inv t idx b' copies" using sv s'(1) le l(3) by (auto simp: replica_inv_def)
  have cp: "copy_of (fetchOnce (leader_peer now b) None f ?loc) l"
    "prefix (log_entries ?loc) (log_entries (fetchOnce (leader_peer now b) None f ?loc))"
    using fetchOnce_copies(1) [OF serves_leads [OF l(1) assms(2)] l(3) [of "fSelfID f"], of now None] by blast+
  then have "sint (offset_of s' (fSelfID f)) \<le> int (length (log_entries (fetchOnce (leader_peer now b) None f ?loc)))"
    using le [of "fSelfID f"] prefix_length_le [OF cp(2)] by simp
  then show "replica_inv t idx b' (copies(fSelfID f := fetchOnce (leader_peer now b) None f (copies (fSelfID f))))"
    using sv s'(1) le l(3) cp(1) unfolding replica_inv_def by (intro exI [of _ l] exI [of _ s']) simp
qed

lemma replica_reach_inv: "replica_reach t idx b copies \<Longrightarrow> replica_inv t idx b copies"
proof (induction rule: replica_reach.induct)
  case (start b l u now rs lead lag copies)
  then show ?case unfolding replica_inv_def using new_offsets by (metis of_nat_0_le_iff signed_0)
next
  case (produce b copies acks batch l env now)
  then obtain l0 s where l: "serves b t idx l0" "tracks b t idx s" "\<And>i. copy_of (copies i) l0"
    "\<And>i. sint (offset_of s i) \<le> int (length (log_entries (copies i)))" by (auto simp: replica_inv_def)
  have "l0 = l" using l(1) produce.hyps(5) by (simp add: serves_def holds_log_def)
  then obtain l' where "serves (fst (producePartition env now t idx batch acks b)) t idx l'" "prefix (log_entries l) (log_entries l')"
    using produce_serves [OF _ produce.hyps(2,3,4,6), of b t idx env now] l(1) by blast
  then show ?case
    using l \<open>l0 = l\<close> copy_grows produce_frame(2) [OF produce.hyps(2)] unfolding replica_inv_def tracks_def by metis
next
  case (event b copies ev)
  then obtain l s where l: "serves b t idx l" "tracks b t idx s" "\<And>i. copy_of (copies i) l"
    "\<And>i. sint (offset_of s i) \<le> int (length (log_entries (copies i)))" by (auto simp: replica_inv_def)
  moreover have "tracks (partition_env t idx [ev] b) t idx (apply_partition_event ev s)"
    using l(2) by (auto simp: tracks_def partition_env_def)
  moreover have "serves (partition_env t idx [ev] b) t idx l" using l(1) by (simp add: serves_def holds_log_def partition_env_frame)
  ultimately show ?case using event_offsets [OF event.hyps(2)] unfolding replica_inv_def by metis
next
  case (other b copies b')
  then show ?case by (auto simp: replica_inv_def serves_def)
qed (use fetch_inv in blast)+

section \<open>Answered records are replicated\<close>

lemma replicated_copy:
  assumes "replica_reach t idx b copies" "holds_log b t idx l" "tracks b t idx s" "replicated s now target"
    and "i \<in> set (replicas s)" "i \<noteq> leaderID s" "followerInISR s i now"
  shows "sint target \<le> int (length (log_entries (copies i)))" "prefix (log_entries (copies i)) (log_entries l)"
    "log_inv l" "StartOffset l = 0"
proof -
  obtain l0 s0 where inv: "serves b t idx l0" "tracks b t idx s0" "copy_of (copies i) l0"
    "sint (offset_of s0 i) \<le> int (length (log_entries (copies i)))"
    using replica_reach_inv [OF assms(1)] by (auto simp: replica_inv_def)
  have "l0 = l" "s0 = s" using inv(1,2) assms(2,3) by (auto simp: serves_def holds_log_def tracks_def)
  then show "sint target \<le> int (length (log_entries (copies i)))" "prefix (log_entries (copies i)) (log_entries l)"
    "log_inv l" "StartOffset l = 0"
    using inv assms(4-7) by (auto simp: copy_of_def replicated_def serves_def)
qed


text \<open>A leader with one record, and a follower that has it and fetches again.\<close>

definition demo_led :: BrokerNode where
  "demo_led = demo_leader\<lparr>bReplication := map_option (lead_key 0 \<lparr>tpTopic = ''t'', tpPartition = 0\<rparr> [1, 2]) (bReplication demo_leader)\<rparr>"

definition demo_fetched :: BrokerNode where
  "demo_fetched = fst (Dispatch id 1 demo_led (fetch_request demo_fetcher demo_log))"

definition demo_seen :: PartitionState where
  "demo_seen = RecordFollowerFetch 1 1 2 1 1 (NewPartitionState 0 0 [1, 2] 1 (10 * 10 ^ 9))"

lemma demo_led_serves: "serves demo_led ''t'' 0 demo_log" "tracks demo_led ''t'' 0 (NewPartitionState 0 0 [1, 2] 1 (10 * 10 ^ 9))"
proof -
  show "serves demo_led ''t'' 0 demo_log"
    using demo_leads demo_leader_props(2,4) by (auto simp: serves_def leads_log_def holds_log_def demo_fetcher_def demo_led_def)
  show "tracks demo_led ''t'' 0 (NewPartitionState 0 0 [1, 2] 1 (10 * 10 ^ 9))"
    by (simp add: tracks_def demo_led_def demo_leader_def new_broker_def UseFaults_def NewReplicationManager_def partitionState_def lead_key_def)
qed

lemma demo_reach: "replica_reach ''t'' 0 demo_fetched (\<lambda>_. demo_log)"
proof -
  have "replica_reach ''t'' 0 demo_led (\<lambda>_. demo_log)"
    by (rule replica_reach.start [OF demo_led_serves]) (simp add: copy_of_def demo_log_props)
  then show ?thesis
    using replica_reach.lost [of "''t''" 0 demo_led "\<lambda>_. demo_log" demo_fetcher 1] by (simp add: demo_fetched_def fetches_def demo_fetcher_def)
qed

lemma demo_fetched_state: "holds_log demo_fetched ''t'' 0 demo_log" "tracks demo_fetched ''t'' 0 demo_seen"
proof -
  show "holds_log demo_fetched ''t'' 0 demo_log"
    using fetch_leader(1) [OF demo_led_serves, of demo_fetcher 1 demo_log] by (simp add: fetches_def demo_fetcher_def serves_def demo_fetched_def)
  have "map_option led (bReplication demo_fetched) = Some [(\<lparr>tpTopic = ''t'', tpPartition = 0\<rparr>, demo_seen)]" by code_simp
  then show "tracks demo_fetched ''t'' 0 demo_seen" by (auto simp: tracks_def partitionState_def)
qed

lemma demo_replicated: "replicated demo_seen 1 1" "2 \<in> set (replicas demo_seen)" "2 \<noteq> leaderID demo_seen" "followerInISR demo_seen 2 1"
  by code_simp+


section \<open>What a failover does not look at\<close>

text \<open>
  The in-sync list of the registry, from which a new leader is elected, does not follow the
  in-sync set of the leader. Here broker 2 has fetched nothing and is out of sync, so that a
  record at offset 4 is answered once broker 3 has it; then the leader dies, and broker 2 is
  elected: the answered record is lost.
\<close>

definition lagging_state :: PartitionState where
  "lagging_state = RecordFollowerFetch 20 20 3 5 5 (NewPartitionState 0 0 [1, 2, 3] 1 10)"

definition demo_controller :: BrokerNode where
  "demo_controller = (new_broker 3 9092 three_brokers (NewManager ''d'') (fresh_log []))
     \<lparr>bTopics := Registry_Add NewRegistry \<lparr>Name = ''t'', PartitionList = [\<lparr>ID = 0, Leader = 1, Replicas = [1, 2, 3], ISR = [1, 2, 3]\<rparr>]\<rparr>\<rparr>"

theorem failover_ignores_lag:
  "isr lagging_state 20 = [1, 3]" "replicated lagging_state 20 5" "offset_of lagging_state 2 = 0"
  "map_option (map Leader \<circ> PartitionList) (Registry_Get (bTopics (OnPeerDown 21 1 demo_controller)) ''t'') = Some [2]"
  by code_simp+

end
