(* ===== verification/Survival.thy ===== *)
theory Survival
  imports Takeover Durability
begin

text \<open>
  An answered record outlives the leader that answered it: the broker that takes the partition
  over has it, and serves it.
\<close>

section \<open>Metadata leaves the logs alone\<close>

lemma Manager_Log_stable:
  "snd (Manager_Log st t idx) = Inr l \<Longrightarrow> snd (Manager_Log (fst (Manager_Log st name i)) t idx) = Inr l"
  by (auto simp: Manager_Log_def dir_of_def Let_def split: option.splits sum.splits if_splits)

lemma start_partition_stable:
  "snd (Manager_Log (snd mm) t idx) = Inr l \<Longrightarrow> snd (Manager_Log (snd (start_partition now name p mm)) t idx) = Inr l"
  using Manager_Log_stable [of "snd mm" t idx l name "ID p"]
  by (auto simp: start_partition_def Let_def split: prod.splits option.split sum.split)

lemma applyTopic_holds_log: "holds_log b t idx l \<Longrightarrow> holds_log (applyTopic now name ps b) t idx l"
proof -
  have "snd (Manager_Log (snd mm) t idx) = Inr l \<Longrightarrow> snd (Manager_Log (snd (fold (start_partition now name) qs mm)) t idx) = Inr l"
    for qs mm
    by (induction qs arbitrary: mm) (simp_all add: start_partition_stable)
  then show "holds_log b t idx l \<Longrightarrow> holds_log (applyTopic now name ps b) t idx l"
    by (simp add: holds_log_def applyTopic_def StartFollowing_def Let_def split_beta split: option.split)
qed

lemma Apply_holds_log: "holds_log b t idx l \<Longrightarrow> holds_log (ApplyMetadataRecord now r b) t idx l"
  by (simp add: ApplyMetadataRecord_def applyTopic_holds_log split: RecordType.split) (simp add: holds_log_def)

lemma apply_records_holds_log:
  "holds_log b t idx l \<Longrightarrow> holds_log (snd (apply_records (ApplyMetadataRecord now) n bs ml b)) t idx l"
  by (induction n arbitrary: bs ml b) (simp_all add: Let_def split_beta Apply_holds_log split: sum.split option.split)

lemma holds_log_metadata [simp]: "holds_log (b\<lparr>bMetadataLog := ml\<rparr>) t idx l = holds_log b t idx l"
  by (simp add: holds_log_def)

lemma follow_holds_log: "holds_log b t idx l \<Longrightarrow> holds_log (follow_metadata net now b) t idx l"
  by (simp add: follow_metadata_def MetadataFollower_fetchOnce_def Let_def split_beta apply_records_holds_log
      split: option.split sum.split)

section \<open>The record on the new leader\<close>

lemma serves_record:
  assumes "partition_at (bTopics x) t idx \<noteq> None" "holds_log x t idx l" "log_inv l" "log_healthy l" "StartOffset l = 0"
    and "0 \<le> sint off" "sint off < int (length (log_entries l))"
  shows "\<exists>r rs. fpErrorCode (snd (fetchPartition now rid t idx off mb x)) = ErrNone
    \<and> fpRecords (snd (fetchPartition now rid t idx off mb x)) = concat (map Payload (r # rs))
    \<and> prefix (r # rs) (drop (nat (sint off)) (log_entries l)) \<and> r = log_entries l ! nat (sint off)"
proof -
  obtain p st where x: "partition_at (bTopics x) t idx = Some p" "Manager_Log (bLogs x) t idx = (st, Inr l)"
    using assms(1,2) by (auto simp: holds_log_def) (metis prod.collapse)
  have fin: "sint (EndOffset l) = int (length (log_entries l))" using seglog.fin_recs [OF assms(3)] assms(5) by simp
  obtain rs where rs: "Read l off (sint mb) = Inr rs" "prefix rs (drop (nat (sint off)) (log_entries l))" "rs \<noteq> []"
    using seglog.read_ok [OF assms(3,4), of off "sint mb"] assms(5-7) fin by auto
  then obtain r rs' where r: "rs = r # rs'" by (cases rs) auto
  have "off \<noteq> EndOffset l" using assms(7) fin by auto
  then have "fpErrorCode (snd (fetchPartition now rid t idx off mb x)) = ErrNone
      \<and> fpRecords (snd (fetchPartition now rid t idx off mb x)) = concat (map Payload rs)"
    using fetchPartition_read [OF x assms(6) _ rs(1), of now rid] assms(7) fin by simp
  moreover have "r = log_entries l ! nat (sint off)"
    using rs(2) assms(6,7) unfolding r by (auto simp: prefix_def) (metis hd_drop_conv_nth list.sel(1) nat_less_iff)
  ultimately show ?thesis using rs(2) r by blast
qed



end
