(* ===== verification/Spec2Isabelle.thy ===== *)
theory Spec2Isabelle
  imports Storage_Manager RecordBatch Producer Assignor Topics Membership MetadataLog OffsetStore Group_Properties
    Broker_Correct Broker_Roles Broker_Connection HttpApi Broker_Safe Client_Correct Survival
begin

text \<open>
  A verification development for gokaf, a small Kafka-like broker in Go: partitions stored as
  segmented logs, idempotent producers, consumer groups, replication with an in-sync set and a
  high watermark, a controller with a metadata log, and the binary protocol that ties them
  together. This theory only collects the others; each of them opens with what it holds.

  \<^bold>\<open>How the program is modelled.\<close> Structs are records, enums are datatypes, and every Go function
  is a HOL function of (nearly) the same name. Integers keep their width: \<open>int8\<close> to \<open>int64\<close>
  are words read with \<open>sint\<close>, so additions wrap as in Go; Go's \<open>int\<close> is \<open>int\<close>. Strings are lists
  of bytes. A Go map is an association list with distinct keys (\<open>gomap\<close>), whose order is
  that of an iteration over it. An error is a value of \<open>go_error\<close>, a panic one of
  them. State is passed explicitly; a mutex makes a method one step. Time is an argument. A call
  that parks is split where it parks, and what the rest of the broker does meanwhile is an
  argument (\<open>env\<close>) or the steps in between. The disk is a schedule of faults per append (short
  writes, failing index writes, failing rolls); the network is a function from a request to a
  response or an error. Loops are total functions with measures; the only loop without a bound
  of its own, the scan of a log to its end, is a partial function into \<open>option\<close>, and
  \<open>Log_Contract\<close> proves that it ends whatever the log holds. No fuel is used.

  \<^bold>\<open>The parts.\<close>

  \<^item> \<open>Prelude\<close>: types, byte order, decoders as a monad, the \<open>codec\<close> locale, maps, and generic
    lemmas. \<open>Wire\<close> (\<open>internal/protocol\<close>: \<open>types.go\<close>, \<open>header.go\<close>, \<open>framing.go\<close>, \<open>errors.go\<close>):
    every method of \<open>Encoder\<close> and \<open>Decoder\<close>, headers, frames; round trips, and that a frame is
    delivered whole or not at all.
  \<^item> \<open>Storage\<close>, \<open>Storage_Correct\<close>, \<open>Storage_Recovery\<close>, \<open>Storage_Manager\<close>
    (\<open>internal/storage\<close>): segments, sparse index, append, read, recovery, manager. An append
    adds exactly one record or none; a read returns the consecutive records from the offset
    asked; after any run of appends on a failing disk the directory reopens to exactly the
    acknowledged records. \<open>Log_Contract\<close> states what the clients of a log rely on as the locale
    \<open>offset_log\<close>, interpreted on the segmented log.
  \<^item> \<open>RecordBatch\<close> (\<open>recordbatch.go\<close>, \<open>validRecordBatch\<close>): batches with CRC-32C; decoding
    inverts building, stamping an offset keeps a batch valid.
  \<^item> \<open>Producer\<close> (\<open>internal/producer\<close>): producer ids and sequence numbers; each batch is written
    once and in order whatever is lost and repeated (proved over a locale of append sinks).
  \<^item> \<open>Assignor\<close> (\<open>internal/assignor\<close>): the two strategies cover every partition exactly once and
    share fairly. \<open>Topics\<close> (\<open>internal/topic\<close>): replica placement and the registry.
  \<^item> \<open>Membership\<close> (\<open>membership.go\<close>, \<open>liveness.go\<close>, \<open>brokerclient.go\<close>): a peer is dead exactly
    after the configured number of failed pings in a row; the controller is the highest live
    id. \<open>MetadataLog\<close> (\<open>metadatalog.go\<close>, \<open>metadatafollower.go\<close>, \<open>fetch_metadata_log.go\<close>):
    replay and catching up. \<open>OffsetStore\<close> (\<open>internal/offset\<close>): commits survive restarts.
  \<^item> \<open>Group\<close>, \<open>Group_Correct\<close>, \<open>Group_Properties\<close> (\<open>internal/group\<close>): the coordinator as a step
    relation over requests, timers and callbacks; its invariant; rebalances complete and answer
    every waiting member; departed members are fenced; the leader's plan reaches every member;
    generations change only when a rebalance completes.
  \<^item> \<open>Faults\<close> (\<open>internal/faults\<close>), \<open>Replication\<close>, \<open>Replication_Correct\<close>
    (\<open>internal/replication\<close>): high watermark and waiters, the fetch of a follower, the roles. A
    waiting request is released exactly when the replicas in sync have the record.
  \<^item> \<open>Broker_Node\<close>, \<open>Broker_Handlers\<close>, \<open>Broker_Views\<close> (\<open>internal/network\<close>, \<open>cmd/broker\<close>): the
    broker's state, every operation and every request handler from bytes to bytes, the views
    behind the HTTP API, the dispatcher, the connection loop and the start of a broker.
  \<^item> \<open>Broker_Correct\<close>: what producing does to the log; when \<open>acks=all\<close> is answered; that a
    follower's log is a copy of the leader's, over the wire format. \<open>Broker_Metadata\<close>: the
    registry is the replay of the metadata log in every history, so restarts keep the topics.
    \<open>Broker_Topics\<close>: creation and deletion on every path, and the election after a failure.
    \<open>Broker_Roles\<close>: applied metadata decides who leads and who follows. \<open>Durability\<close>: the
    leader and the logs of all followers as one system; a record answered with \<open>acks=all\<close> is in
    the log of every follower in sync. \<open>Broker_Connection\<close>: pipelined requests are answered in
    order.
  \<^item> \<open>Broker_Run\<close> (\<open>cmd/broker/main.go\<close>, \<open>liveness.go\<close>, \<open>fetcher.go\<close>): the process from its flags
    on, as a step relation over requests of any bytes, HTTP calls, timers, rounds of the
    background loops and failures; the locale \<open>broker_parts\<close> carries an invariant of the parts
    over to whole runs. \<open>Broker_Safe\<close>: well-formedness of every part, kept in every run.
    \<open>Takeover\<close>: from the missed ping to the new leader, across two brokers. \<open>Survival\<close>: the
    answered records are served by the follower that takes over.
  \<^item> \<open>HttpApi\<close> (\<open>internal/httpapi\<close>): the routes, the headers and the fallback for the files of the web
    interface; a posted record is fetched back.
  \<^item> \<open>Client\<close>, \<open>Client_Group\<close>, \<open>Client_Metadata\<close>, \<open>Client_Cluster\<close>, \<open>Client_Correct\<close>
    (\<open>cmd/testclient/main.go\<close>): the requests of the command line client, its checks on the
    responses and its scenarios, composed with the dispatchers of a cluster of brokers. The
    idempotent producer scenario passes; a group's plan gives every partition to one member, and
    every member receives its share; what the client reads from \<open>Metadata\<close> is what the broker
    has; a topic created at the controller appears on the broker of the client.

  \<^bold>\<open>Bounds.\<close> Theorems about appends assume payloads below \<open>2 ^ 32\<close> bytes and offsets below
  \<open>2 ^ 63 - 1\<close>, where the code's integers would wrap; encodings assume that names and counts fit
  their length prefixes. What happens beyond is stated where it is a defect: a longer name
  makes the offset store (\<open>OffsetStore\<close>) and the metadata log (\<open>Broker_Metadata\<close>) unreadable.

  \<^bold>\<open>Defects shown.\<close> Besides these: topics that share a directory (\<open>Storage_Manager\<close>), a negative
  record count (\<open>RecordBatch\<close>), a stale join timer (\<open>Group_Properties\<close>), a lost wake-up, a high
  watermark that moves back and a batch whose length field lies (\<open>Replication_Correct\<close>), a
  repeated batch that is acknowledged without its replicas (\<open>Broker_Correct\<close>), a failover that
  elects a replica which is not in sync (\<open>Durability\<close>), a replica that comes back and never
  counts as in sync again (\<open>Takeover\<close>), and a check of the client that cannot
  fail (\<open>Client_Metadata\<close>).

  \<^bold>\<open>Not modelled.\<close> JSON itself: the HTTP routes take decoded requests and return the values that
  are encoded. The standard library's part of serving: the matching of routes, the file server
  behind the fallback (an argument of \<open>staticHandler\<close>), the listener, and the exit of the process,
  after which a run has no more steps. The web interface, which is not Go. The tickers: the
  rounds that they start are steps at any time. Logging.
  Of the command line client only its flags are left out; the order in which two concurrent
  requests arrive, how long a request takes and what the brokers do while it sleeps are
  arguments of the scenarios. Data races are out of scope: each operation under a lock is one
  step.
\<close>

end
